(* ===== verification/Operator_Prelude.thy ===== *)
theory Operator_Prelude
  imports Main "HOL-Library.Word"
begin

text \<open>
  Shared ground of the development: the names of the machine types the Go code uses, the
  result types of fallible code, and the generic lemmas on lists, options and words that the
  component theories rely on.

  \<^item> A Go \<open>string\<close> is a sequence of bytes: HOL's \<open>string\<close> is a list of 8-bit characters.
  \<^item> An \<open>int32\<close> is a \<open>32 word\<close> read through \<open>sint\<close>.
  \<^item> A \<open>time.Duration\<close> is an integer, its nanoseconds; the code only ever copies, compares and
    prints durations, and the one operation that can leave the 64-bit range (rounding) writes its
    saturation out. A \<open>metav1.Time\<close> is an integer without a unit: the code stores readings of the
    clock and never looks at one.
  \<^item> A Go error is a value of type \<open>goerror\<close>: the error of an external call, with what the
    code observes of it, or a message wrapped around another error by \<open>fmt.Errorf\<close>.
\<close>

section \<open>Machine types\<close>

type_synonym int32 = "32 word"
type_synonym duration = int
type_synonym gotime = int

section \<open>Errors\<close>

text \<open>
  Of the error an external call returns, the code observes whether \<open>apierrors.IsNotFound\<close>
  holds of it, and its text.
\<close>

record api_error =
  err_IsNotFound :: bool
  err_Text :: string

datatype goerror =
    ApiErr api_error
  | ErrText string
  | Errorf string goerror  \<comment> \<open>\<open>fmt.Errorf("<prefix>: %w", err)\<close>\<close>

fun error_text :: "goerror \<Rightarrow> string" where
  "error_text (ApiErr e) = err_Text e"
| "error_text (ErrText t) = t"
| "error_text (Errorf p e) = p @ '': '' @ error_text e"

section \<open>Collections of facts\<close>

named_theorems go_consts \<open>string constants of the source, unfolded for evaluation\<close>
named_theorems go_simps \<open>equations of the standard-library functions\<close>
named_theorems frame \<open>what an operation leaves unchanged\<close>

section \<open>Lists\<close>

lemma list_update_nth_same [simp]: "i < length xs \<Longrightarrow> xs[i := xs ! i] = xs"
  by simp

lemma map_update_same:
  "i < length xs \<Longrightarrow> f v = f (xs ! i) \<Longrightarrow> map f (xs[i := v]) = map f xs"
  by (simp add: map_update list_update_same_conv)

lemma sum_list_map_update:
  fixes f :: "'a \<Rightarrow> nat"
  assumes "i < length xs"
  shows "sum_list (map f (xs[i := v])) + f (xs ! i) = sum_list (map f xs) + f v"
  using assms
proof (induction xs arbitrary: i)
  case (Cons x xs)
  then show ?case by (cases i) auto
qed simp

lemma list_all_update:
  "list_all P xs \<Longrightarrow> P v \<Longrightarrow> list_all P (xs[i := v])"
  by (auto simp: list_all_iff dest: set_update_subset_insert [THEN subsetD])

lemma list_all2_update:
  "list_all2 P xs ys \<Longrightarrow> i < length ys \<Longrightarrow> P (xs ! i) v \<Longrightarrow> list_all2 P xs (ys[i := v])"
  by (auto simp: list_all2_conv_all_nth nth_list_update)

section \<open>Words\<close>

lemma sint_less_add_one:
  fixes a b :: int32
  assumes "sint a < sint b"
  shows "sint (a + 1) = sint a + 1"
proof -
  have b: "sint b < 2 ^ 31" using sint_lt [of b] by simp
  have a: "- (2 ^ 31) \<le> sint a" using sint_ge [of a] by simp
  show ?thesis
    using assms a b by (simp add: sint_word_ariths signed_take_bit_int_eq_self)
qed

end
