(* ===== verification/Api_Types.thy ===== *)
theory Api_Types
  imports Operator_Prelude
begin

text \<open>
  The data of the API group \<open>aiops.cluster69.io/v1alpha1\<close>
  (\<open>api/v1alpha1/agentpipeline_types.go\<close>): one record per struct, one constant per
  typed string constant. The phases are typed strings in Go, so any string can occur in an object
  read from the cluster; the controller's \<open>default\<close> branches handle the others. A
  pointer field that may be nil is an \<open>option\<close>; a Go map is an association list in
  which the first binding of a key counts.

  Of \<open>metav1.ObjectMeta\<close>, \<open>metav1.Condition\<close> and
  \<open>corev1.ConfigMap\<close> the records hold the fields the operator reads or writes.
\<close>

section \<open>Phases and triggers\<close>

type_synonym PipelinePhase = string
type_synonym StagePhase = string
type_synonym TriggerType = string

definition PhasePending :: PipelinePhase where "PhasePending = ''Pending''"
definition PhaseRunning :: PipelinePhase where "PhaseRunning = ''Running''"
definition PhaseCompleted :: PipelinePhase where "PhaseCompleted = ''Completed''"
definition PhaseFailed :: PipelinePhase where "PhaseFailed = ''Failed''"

definition StagePending :: StagePhase where "StagePending = ''Pending''"
definition StageRunning :: StagePhase where "StageRunning = ''Running''"
definition StageCompleted :: StagePhase where "StageCompleted = ''Completed''"
definition StageFailed :: StagePhase where "StageFailed = ''Failed''"
definition StageSkipped :: StagePhase where "StageSkipped = ''Skipped''"

definition TriggerManual :: TriggerType where "TriggerManual = ''manual''"
definition TriggerAlertmanager :: TriggerType where "TriggerAlertmanager = ''alertmanager''"
definition TriggerEvent :: TriggerType where "TriggerEvent = ''event''"

lemmas phase_defs [go_consts] =
  PhasePending_def PhaseRunning_def PhaseCompleted_def PhaseFailed_def
  StagePending_def StageRunning_def StageCompleted_def StageFailed_def StageSkipped_def

lemma pipeline_phases_distinct [simp]:
  "PhasePending \<noteq> PhaseRunning" "PhasePending \<noteq> PhaseCompleted" "PhasePending \<noteq> PhaseFailed"
  "PhaseRunning \<noteq> PhasePending" "PhaseRunning \<noteq> PhaseCompleted" "PhaseRunning \<noteq> PhaseFailed"
  "PhaseCompleted \<noteq> PhasePending" "PhaseCompleted \<noteq> PhaseRunning" "PhaseCompleted \<noteq> PhaseFailed"
  "PhaseFailed \<noteq> PhasePending" "PhaseFailed \<noteq> PhaseRunning" "PhaseFailed \<noteq> PhaseCompleted"
  "PhasePending \<noteq> []" "PhaseRunning \<noteq> []" "PhaseCompleted \<noteq> []" "PhaseFailed \<noteq> []"
  "[] \<noteq> PhasePending" "[] \<noteq> PhaseRunning" "[] \<noteq> PhaseCompleted" "[] \<noteq> PhaseFailed"
  by (simp_all add: phase_defs)

lemma stage_phases_distinct [simp]:
  "StagePending \<noteq> StageRunning" "StagePending \<noteq> StageCompleted" "StagePending \<noteq> StageFailed"
  "StagePending \<noteq> StageSkipped" "StageRunning \<noteq> StagePending" "StageRunning \<noteq> StageCompleted"
  "StageRunning \<noteq> StageFailed" "StageRunning \<noteq> StageSkipped" "StageCompleted \<noteq> StagePending"
  "StageCompleted \<noteq> StageRunning" "StageCompleted \<noteq> StageFailed" "StageCompleted \<noteq> StageSkipped"
  "StageFailed \<noteq> StagePending" "StageFailed \<noteq> StageRunning" "StageFailed \<noteq> StageCompleted"
  "StageFailed \<noteq> StageSkipped" "StageSkipped \<noteq> StagePending" "StageSkipped \<noteq> StageRunning"
  "StageSkipped \<noteq> StageCompleted" "StageSkipped \<noteq> StageFailed"
  by (simp_all add: phase_defs)

section \<open>Spec\<close>

record AlertmanagerConfig =
  am_WebhookPort :: int32
  am_MatchLabels :: "(string \<times> string) list"

record TriggerSpec =
  trg_Type :: TriggerType
  trg_Alertmanager :: "AlertmanagerConfig option"

record AgentReference =
  ref_Name :: string
  ref_Namespace :: string

record RetryPolicy =
  rp_MaxRetries :: int32
  rp_Backoff :: "duration option"

record StageConfig =
  cfg_AutoMerge :: string
  cfg_TargetRepo :: string

record StageSpec =
  sp_Name :: string
  sp_AgentRef :: AgentReference
  sp_Timeout :: "duration option"
  sp_DependsOn :: "string list"
  sp_Prompt :: string
  sp_Inputs :: "(string \<times> string) list"
  sp_Config :: "StageConfig option"
  sp_RetryPolicy :: "RetryPolicy option"

record AgentPipelineSpec =
  spec_Trigger :: TriggerSpec
  spec_Stages :: "StageSpec list"
  spec_RetryPolicy :: "RetryPolicy option"

section \<open>Status\<close>

record StageStatus =
  st_Name :: string
  st_Phase :: StagePhase
  st_StartedAt :: "gotime option"
  st_CompletedAt :: "gotime option"
  st_RetryCount :: int32
  st_Output :: string
  st_OutputRef :: string
  st_Error :: string
  st_TaskID :: string

record Condition =
  cond_Type :: string
  cond_Status :: string
  cond_ObservedGeneration :: int
  cond_LastTransitionTime :: gotime
  cond_Reason :: string
  cond_Message :: string

record AgentPipelineStatus =
  sts_Phase :: PipelinePhase
  sts_CurrentStage :: string
  sts_StartedAt :: "gotime option"
  sts_CompletedAt :: "gotime option"
  sts_Stages :: "StageStatus list"
  sts_Conditions :: "Condition list"

section \<open>Objects\<close>

record NamespacedName =
  nn_Namespace :: string
  nn_Name :: string

record ObjectMeta =
  om_Name :: string
  om_Namespace :: string
  om_UID :: string
  om_ResourceVersion :: int
  om_Generation :: int
  om_DeletionTimestamp :: "gotime option"
  om_Finalizers :: "string list"
  om_Labels :: "(string \<times> string) list"
  om_OwnerUIDs :: "string list"

record AgentPipeline =
  ap_Meta :: ObjectMeta
  ap_Spec :: AgentPipelineSpec
  ap_Status :: AgentPipelineStatus

record AgentPipelineList =
  apl_Items :: "AgentPipeline list"

record ConfigMap =
  cm_Meta :: ObjectMeta
  cm_Data :: "(string \<times> string) list"

text \<open>The zero values Go gives to fields that a composite literal leaves out.\<close>

definition zero_StageStatus :: StageStatus where
  "zero_StageStatus = \<lparr>st_Name = '''', st_Phase = '''', st_StartedAt = None, st_CompletedAt = None,
     st_RetryCount = 0, st_Output = '''', st_OutputRef = '''', st_Error = '''', st_TaskID = ''''\<rparr>"

definition zero_ObjectMeta :: ObjectMeta where
  "zero_ObjectMeta = \<lparr>om_Name = '''', om_Namespace = '''', om_UID = '''', om_ResourceVersion = 0,
     om_Generation = 0, om_DeletionTimestamp = None, om_Finalizers = [], om_Labels = [],
     om_OwnerUIDs = []\<rparr>"

text \<open>\<open>(*Time).IsZero\<close>: a nil pointer and the zero time are zero.\<close>

definition Time_IsZero :: "gotime option \<Rightarrow> bool" where
  "Time_IsZero t = (case t of None \<Rightarrow> True | Some x \<Rightarrow> x = 0)"

section \<open>Shorthands\<close>

abbreviation p_name :: "AgentPipeline \<Rightarrow> string" where
  "p_name p \<equiv> om_Name (ap_Meta p)"

abbreviation p_ns :: "AgentPipeline \<Rightarrow> string" where
  "p_ns p \<equiv> om_Namespace (ap_Meta p)"

abbreviation p_stages :: "AgentPipeline \<Rightarrow> StageSpec list" where
  "p_stages p \<equiv> spec_Stages (ap_Spec p)"

abbreviation p_statuses :: "AgentPipeline \<Rightarrow> StageStatus list" where
  "p_statuses p \<equiv> sts_Stages (ap_Status p)"

abbreviation p_phase :: "AgentPipeline \<Rightarrow> PipelinePhase" where
  "p_phase p \<equiv> sts_Phase (ap_Status p)"

definition p_key :: "AgentPipeline \<Rightarrow> NamespacedName" where
  "p_key p = \<lparr>nn_Namespace = p_ns p, nn_Name = p_name p\<rparr>"

text \<open>
  The assignments through the pointers the code passes around: \<open>pipeline.Status.f =
  v\<close>, and \<open>stageStatus.f = v\<close> for \<open>stageStatus =
  &pipeline.Status.Stages[i]\<close>, which is an assignment to element \<open>i\<close> of the
  pipeline's own slice.
\<close>

definition set_status :: "(AgentPipelineStatus \<Rightarrow> AgentPipelineStatus) \<Rightarrow> AgentPipeline \<Rightarrow> AgentPipeline" where
  "set_status f p = p\<lparr>ap_Status := f (ap_Status p)\<rparr>"

definition set_stage :: "nat \<Rightarrow> (StageStatus \<Rightarrow> StageStatus) \<Rightarrow> AgentPipeline \<Rightarrow> AgentPipeline" where
  "set_stage i f p =
     set_status (\<lambda>s. s\<lparr>sts_Stages := (sts_Stages s)[i := f (sts_Stages s ! i)]\<rparr>) p"

lemma set_status_simps [simp]:
  "ap_Meta (set_status f p) = ap_Meta p" "ap_Spec (set_status f p) = ap_Spec p"
  "ap_Status (set_status f p) = f (ap_Status p)" "p_key (set_status f p) = p_key p"
  by (simp_all add: set_status_def p_key_def)

lemma set_stage_simps [simp]:
  "ap_Meta (set_stage i f p) = ap_Meta p" "ap_Spec (set_stage i f p) = ap_Spec p"
  "p_key (set_stage i f p) = p_key p"
  "sts_Phase (ap_Status (set_stage i f p)) = p_phase p"
  "sts_CurrentStage (ap_Status (set_stage i f p)) = sts_CurrentStage (ap_Status p)"
  "sts_StartedAt (ap_Status (set_stage i f p)) = sts_StartedAt (ap_Status p)"
  "sts_CompletedAt (ap_Status (set_stage i f p)) = sts_CompletedAt (ap_Status p)"
  "sts_Conditions (ap_Status (set_stage i f p)) = sts_Conditions (ap_Status p)"
  "sts_Stages (ap_Status (set_stage i f p)) = (p_statuses p)[i := f (p_statuses p ! i)]"
  by (simp_all add: set_stage_def)

lemma ap_Status_set_stage:
  "ap_Status (set_stage i f p) = (ap_Status p)\<lparr>sts_Stages := (p_statuses p)[i := f (p_statuses p ! i)]\<rparr>"
  by (simp add: set_stage_def)

lemma ap_Status_set_stage_twice:
  "i < length (p_statuses p) \<Longrightarrow>
   ap_Status (set_stage i f (set_status (\<lambda>s. s\<lparr>sts_CurrentStage := n\<rparr>) (set_stage i g p))) =
     (ap_Status p)\<lparr>sts_CurrentStage := n, sts_Stages := (p_statuses p)[i := f (g (p_statuses p ! i))]\<rparr>"
  by (simp add: set_stage_def set_status_def)

end
