(* ===== verification/Go_Std.thy ===== *)
theory Go_Std
  imports Operator_Prelude
begin

text \<open>
  What the operator uses of the Go language and its standard library: the functions of
  \<open>strings\<close> on byte strings, the \<open>%d\<close> and \<open>%q\<close> verbs of
  \<open>fmt\<close>, UTF-8 decoding, the rounding and the printing of a
  \<open>time.Duration\<close>, and the line splitter of \<open>bufio.Scanner\<close>. The one
  thing that is not written out is the table of printable code points above 0xFF
  (\<open>strconv.IsPrint\<close>), which is an argument of the functions that quote.
\<close>

section \<open>Package strings\<close>

definition HasPrefix :: "string \<Rightarrow> string \<Rightarrow> bool" where
  "HasPrefix s p \<longleftrightarrow> length p \<le> length s \<and> take (length p) s = p"

definition TrimPrefix :: "string \<Rightarrow> string \<Rightarrow> string" where
  "TrimPrefix s p = (if HasPrefix s p then drop (length p) s else s)"

definition TrimRight :: "string \<Rightarrow> char \<Rightarrow> string" where
  "TrimRight s c = rev (dropWhile (\<lambda>x. x = c) (rev s))"

fun Join :: "string list \<Rightarrow> string \<Rightarrow> string" where
  "Join [] sep = ''''"
| "Join [x] sep = x"
| "Join (x # y # ys) sep = x @ sep @ Join (y # ys) sep"

text \<open>
  \<open>strings.TrimSpace\<close> removes leading and trailing white space as Unicode defines it. Each
  white-space code point is listed by its UTF-8 bytes; no listed sequence is a proper prefix
  or suffix of another, so removing one at a time from either end is what the library does.
\<close>

definition go_spaces :: "string list" where
  "go_spaces =
     [[CHR 0x09], [CHR 0x0A], [CHR 0x0B], [CHR 0x0C], [CHR 0x0D], [CHR 0x20],
      [CHR 0xC2, CHR 0x85], [CHR 0xC2, CHR 0xA0], [CHR 0xE1, CHR 0x9A, CHR 0x80]]
     @ map (\<lambda>k. [CHR 0xE2, CHR 0x80, k])
         [CHR 0x80, CHR 0x81, CHR 0x82, CHR 0x83, CHR 0x84, CHR 0x85, CHR 0x86, CHR 0x87,
          CHR 0x88, CHR 0x89, CHR 0x8A, CHR 0xA8, CHR 0xA9, CHR 0xAF]
     @ [[CHR 0xE2, CHR 0x81, CHR 0x9F], [CHR 0xE3, CHR 0x80, CHR 0x80]]"

fun trim_left_n :: "string list \<Rightarrow> nat \<Rightarrow> string \<Rightarrow> string" where
  "trim_left_n sp 0 s = s"
| "trim_left_n sp (Suc n) s =
     (case find (\<lambda>w. HasPrefix s w) sp of
        None \<Rightarrow> s
      | Some w \<Rightarrow> trim_left_n sp n (drop (length w) s))"

definition TrimSpace :: "string \<Rightarrow> string" where
  "TrimSpace s =
     (let l = trim_left_n go_spaces (length s) s
      in rev (trim_left_n (map rev go_spaces) (length l) (rev l)))"

section \<open>Package fmt: decimal integers\<close>

definition digit_char :: "nat \<Rightarrow> char" where
  "digit_char d = char_of (48 + d)"

text \<open>The decimal digits of a non-negative integer.\<close>

function show_pos :: "int \<Rightarrow> string" where
  "show_pos n =
     (if n < 10 then [digit_char (nat n)]
      else show_pos (n div 10) @ [digit_char (nat (n mod 10))])"
  by pat_completeness auto
termination
  by (relation "measure nat") (auto simp: zdiv_mono2 nat_less_eq_zless)

declare show_pos.simps [simp del]

definition show_int :: "int \<Rightarrow> string" where
  "show_int z = (if z < 0 then ''-'' @ show_pos (- z) else show_pos z)"

section \<open>UTF-8\<close>

definition byte_in :: "nat \<Rightarrow> nat \<Rightarrow> char \<Rightarrow> bool" where
  "byte_in lo hi c \<longleftrightarrow> lo \<le> of_char c \<and> of_char c \<le> (hi::nat)"

definition low6 :: "char \<Rightarrow> nat" where
  "low6 c = of_char c mod 64"

text \<open>
  \<open>utf8.DecodeRuneInString\<close> on a non-empty string: the code point and its width, or
  \<open>None\<close> for an invalid encoding, of which the library consumes one byte.
\<close>

fun decode_rune :: "string \<Rightarrow> (nat \<times> nat) option" where
  "decode_rune [] = None"
| "decode_rune (a # s) =
     (let n = of_char a :: nat in
      if n < 0x80 then Some (n, 1)
      else if 0xC2 \<le> n \<and> n \<le> 0xDF then
        (case s of b # _ \<Rightarrow> if byte_in 0x80 0xBF b
             then Some ((n mod 32) * 64 + low6 b, 2) else None | _ \<Rightarrow> None)
      else if 0xE0 \<le> n \<and> n \<le> 0xEF then
        (case s of b # c # _ \<Rightarrow>
             if byte_in (if n = 0xE0 then 0xA0 else 0x80) (if n = 0xED then 0x9F else 0xBF) b
                \<and> byte_in 0x80 0xBF c
             then Some ((n mod 16) * 4096 + low6 b * 64 + low6 c, 3) else None | _ \<Rightarrow> None)
      else if 0xF0 \<le> n \<and> n \<le> 0xF4 then
        (case s of b # c # d # _ \<Rightarrow>
             if byte_in (if n = 0xF0 then 0x90 else 0x80) (if n = 0xF4 then 0x8F else 0xBF) b
                \<and> byte_in 0x80 0xBF c \<and> byte_in 0x80 0xBF d
             then Some ((n mod 8) * 262144 + low6 b * 4096 + low6 c * 64 + low6 d, 4)
             else None | _ \<Rightarrow> None)
      else None)"

lemma decode_rune_width: "decode_rune s = Some (r, k) \<Longrightarrow> 0 < k \<and> k \<le> length s"
  by (cases s) (auto simp: Let_def split: if_splits list.splits)

section \<open>Package fmt: quoted strings\<close>

definition hex_char :: "nat \<Rightarrow> char" where
  "hex_char d = char_of (if d < 10 then 48 + d else 87 + d)"

fun hex_digits :: "nat \<Rightarrow> nat \<Rightarrow> string" where
  "hex_digits 0 n = ''''"
| "hex_digits (Suc k) n = hex_digits k (n div 16) @ [hex_char (n mod 16)]"

text \<open>\<open>strconv.IsPrint\<close>: written out for Latin-1, the argument \<open>tbl\<close> above it.\<close>

definition IsPrint :: "(nat \<Rightarrow> bool) \<Rightarrow> nat \<Rightarrow> bool" where
  "IsPrint tbl r =
     (if r \<le> 0xFF then (0x20 \<le> r \<and> r < 0x7F) \<or> (0xA1 \<le> r \<and> r \<noteq> 0xAD) else tbl r)"

text \<open>
  One code point of a double-quoted string; \<open>raw\<close> is its own encoding. A decoded code
  point is always valid, so the replacement of an invalid one never happens here.
\<close>

definition escape_rune :: "(nat \<Rightarrow> bool) \<Rightarrow> nat \<Rightarrow> string \<Rightarrow> string" where
  "escape_rune tbl r raw =
     (if r = 34 \<or> r = 92 then CHR 0x5C # raw
      else if IsPrint tbl r then raw
      else if r = 7 then [CHR 0x5C, CHR ''a'']
      else if r = 8 then [CHR 0x5C, CHR ''b'']
      else if r = 12 then [CHR 0x5C, CHR ''f'']
      else if r = 10 then [CHR 0x5C, CHR ''n'']
      else if r = 13 then [CHR 0x5C, CHR ''r'']
      else if r = 9 then [CHR 0x5C, CHR ''t'']
      else if r = 11 then [CHR 0x5C, CHR ''v'']
      else if r < 32 \<or> r = 127 then [CHR 0x5C, CHR ''x''] @ hex_digits 2 r
      else if r < 0x10000 then [CHR 0x5C, CHR ''u''] @ hex_digits 4 r
      else [CHR 0x5C, CHR ''U''] @ hex_digits 8 r)"

function quote_body :: "(nat \<Rightarrow> bool) \<Rightarrow> string \<Rightarrow> string" where
  "quote_body tbl [] = ''''"
| "quote_body tbl (a # s) =
     (case decode_rune (a # s) of
        None \<Rightarrow> [CHR 0x5C, CHR ''x''] @ hex_digits 2 (of_char a) @ quote_body tbl s
      | Some (r, k) \<Rightarrow>
          escape_rune tbl r (take k (a # s)) @ quote_body tbl (drop k (a # s)))"
  by pat_completeness auto
termination
  by (relation "measure (\<lambda>(tbl, s). length s)") (auto dest!: decode_rune_width simp del: decode_rune.simps)

definition quote :: "(nat \<Rightarrow> bool) \<Rightarrow> string \<Rightarrow> string" where
  "quote tbl s = [CHR 0x22] @ quote_body tbl s @ [CHR 0x22]"

section \<open>Package time\<close>

definition Millisecond :: duration where "Millisecond = 1000000"
definition Second :: duration where "Second = 1000000000"
definition Minute :: duration where "Minute = 60 * Second"

definition min_duration :: duration where "min_duration = - (2 ^ 63)"
definition max_duration :: duration where "max_duration = 2 ^ 63 - 1"

definition int64_range :: "int \<Rightarrow> bool" where
  "int64_range d \<longleftrightarrow> min_duration \<le> d \<and> d \<le> max_duration"

text \<open>
  \<open>Duration.Round(m)\<close>: to the nearest multiple of \<open>m\<close>, halves away from zero,
  saturating at the ends of the 64-bit range.
\<close>

definition Duration_Round :: "duration \<Rightarrow> duration \<Rightarrow> duration" where
  "Duration_Round d m =
     (if m \<le> 0 then d
      else if d < 0 then
        (let r = (- d) mod m in
         if r + r < m then d + r
         else if min_duration \<le> d - m + r then d - m + r else min_duration)
      else
        (let r = d mod m in
         if r + r < m then d - r
         else if d + m - r \<le> max_duration then d + m - r else max_duration))"

fun fmtFrac :: "nat \<Rightarrow> int \<Rightarrow> bool \<Rightarrow> string \<Rightarrow> string \<times> int" where
  "fmtFrac 0 v pr buf = (if pr then CHR ''.'' # buf else buf, v)"
| "fmtFrac (Suc n) v pr buf =
     (let d = v mod 10; pr' = pr \<or> d \<noteq> 0
      in fmtFrac n (v div 10) pr' (if pr' then digit_char (nat d) # buf else buf))"

definition Duration_String :: "duration \<Rightarrow> string" where
  "Duration_String d =
     (let u = \<bar>d\<bar>;
          body =
            (if u < Second then
               (if u = 0 then ''0s''
                else let (prec, unit) =
                       (if u < 1000 then (0, ''ns'')
                        else if u < 1000000 then (3, [CHR 0xC2, CHR 0xB5, CHR ''s''])
                        else (6, ''ms''));
                       (buf, v) = fmtFrac prec u False unit
                     in show_pos v @ buf)
             else
               let (buf, secs) = fmtFrac 9 u False ''s'';
                   buf = show_pos (secs mod 60) @ buf;
                   mins = secs div 60
               in if mins = 0 then buf
                  else let buf = show_pos (mins mod 60) @ ''m'' @ buf; hours = mins div 60
                       in if hours = 0 then buf else show_pos hours @ ''h'' @ buf)
      in if d < 0 then CHR ''-'' # body else body)"

section \<open>Package bufio: scanning lines\<close>

fun split_lines :: "string \<Rightarrow> string \<Rightarrow> string list" where
  "split_lines cur [] = (if cur = [] then [] else [rev cur])"
| "split_lines cur (c # s) =
     (if c = CHR 0x0A then rev cur # split_lines [] s else split_lines (c # cur) s)"

text \<open>
  \<open>Scanner\<close> with \<open>ScanLines\<close> and a buffer of at most
  \<open>maxTok\<close> bytes: a raw line that fills the buffer stops the scan with
  \<open>ErrTooLong\<close>; one trailing carriage return is dropped. The result is the lines
  delivered and whether the scan stopped on a too long one.
\<close>

definition drop_cr :: "string \<Rightarrow> string" where
  "drop_cr s = (if s \<noteq> [] \<and> last s = CHR 0x0D then butlast s else s)"

definition scan_lines :: "int \<Rightarrow> string \<Rightarrow> string list \<times> bool" where
  "scan_lines maxTok body =
     (let raw = split_lines [] body; ok = takeWhile (\<lambda>l. int (length l) < maxTok) raw
      in (map drop_cr ok, length ok < length raw))"

section \<open>Lemmas\<close>

lemma HasPrefix_append [simp]: "HasPrefix (p @ s) p"
  by (simp add: HasPrefix_def)

lemma HasPrefix_iff: "HasPrefix s p \<longleftrightarrow> (\<exists>t. s = p @ t)"
  by (metis HasPrefix_append HasPrefix_def append_take_drop_id)

lemma TrimPrefix_append [simp]: "TrimPrefix (p @ s) p = s"
  by (simp add: TrimPrefix_def)

lemma Join_eq_Nil_iff: "Join xs sep = [] \<longleftrightarrow> xs = [] \<or> (sep = [] \<and> set xs = {[]}) \<or> xs = [[]]"
  by (induction xs sep rule: Join.induct) auto

lemma Duration_Round_range:
  assumes "int64_range d" and "0 < m"
  shows "int64_range (Duration_Round d m)"
proof (cases "d < 0")
  case True
  define r where "r = (- d) mod m"
  have "0 \<le> r" "r < m" "r \<le> - d"
    using assms(2) True by (simp_all add: r_def zmod_le_nonneg_dividend)
  then show ?thesis using assms True
    unfolding Duration_Round_def int64_range_def Let_def min_duration_def max_duration_def
      r_def [symmetric] by simp
next
  case False
  define r where "r = d mod m"
  have "0 \<le> r" "r < m" "r \<le> d"
    using assms(2) False by (simp_all add: r_def zmod_le_nonneg_dividend)
  then show ?thesis using assms False
    unfolding Duration_Round_def int64_range_def Let_def min_duration_def max_duration_def
      r_def [symmetric] by simp
qed

end
