(* ===== verification/Api_Schema.thy ===== *)
theory Api_Schema
  imports Api_Types Go_Std
begin

text \<open>
  The validation and the defaults that the \<open>+kubebuilder\<close> markers of
  \<open>api/v1alpha1/agentpipeline_types.go\<close> ask the API server for (generated into
  \<open>config/crd/bases\<close>): one predicate per type with markers, and one function per type with
  defaults. A field that is omitted when empty is not validated when it is empty. The schema of
  a condition is that of \<open>metav1.Condition\<close>, as the generated file has it. Defaults are for
  fields that are absent. The Go types drop empty fields when they are encoded, so a record stands
  for an object in which an empty field with a default was absent.

  Kubernetes checks names and label values by rules of its own, which the last section writes
  out, because the operator makes names and labels out of those of pipelines and stages.
\<close>

section \<open>Characters and patterns\<close>

definition lower_alnum :: "char \<Rightarrow> bool" where
  "lower_alnum c \<longleftrightarrow> byte_in 0x61 0x7A c \<or> byte_in 0x30 0x39 c"

definition alnum :: "char \<Rightarrow> bool" where
  "alnum c \<longleftrightarrow> lower_alnum c \<or> byte_in 0x41 0x5A c"

text \<open>\<open>^[a-z0-9]([-a-z0-9]*[a-z0-9])?$\<close>.\<close>

definition dns_label :: "string \<Rightarrow> bool" where
  "dns_label s \<longleftrightarrow> s \<noteq> [] \<and> lower_alnum (hd s) \<and> lower_alnum (last s) \<and>
     list_all (\<lambda>c. lower_alnum c \<or> c = CHR ''-'') s"

text \<open>\<open>^[A-Za-z]([A-Za-z0-9_,:]*[A-Za-z0-9_])?$\<close>, the reason of a condition.\<close>

definition reason_pattern :: "string \<Rightarrow> bool" where
  "reason_pattern s \<longleftrightarrow> s \<noteq> [] \<and> alnum (hd s) \<and> \<not> byte_in 0x30 0x39 (hd s) \<and> (alnum (last s) \<or> last s = CHR ''_'') \<and>
     list_all (\<lambda>c. alnum c \<or> c \<in> {CHR ''_'', CHR '','', CHR '':''}) s"

text \<open>
  \<open>(prefix/)?(([A-Za-z0-9][-A-Za-z0-9_.]*)?[A-Za-z0-9])\<close>, the type of a condition;
  the prefix is a sequence of labels with dots between them.
\<close>

fun split_dots :: "string \<Rightarrow> string \<Rightarrow> string list" where
  "split_dots cur [] = [rev cur]"
| "split_dots cur (c # s) = (if c = CHR ''.'' then rev cur # split_dots [] s else split_dots (c # cur) s)"

definition name_pattern :: "string \<Rightarrow> bool" where
  "name_pattern s \<longleftrightarrow> s \<noteq> [] \<and> alnum (hd s) \<and> alnum (last s) \<and>
     list_all (\<lambda>c. alnum c \<or> c \<in> {CHR ''-'', CHR ''_'', CHR ''.''}) s"

definition type_pattern :: "string \<Rightarrow> bool" where
  "type_pattern s \<longleftrightarrow> (case dropWhile (\<lambda>c. c \<noteq> CHR ''/'') s of [] \<Rightarrow> name_pattern s
     | _ # name \<Rightarrow> list_all dns_label (split_dots [] (takeWhile (\<lambda>c. c \<noteq> CHR ''/'') s)) \<and> name_pattern name)"

text \<open>\<open>utf8.RuneCountInString\<close>, which the length limits of a schema count.\<close>

function rune_count :: "string \<Rightarrow> nat" where
  "rune_count [] = 0"
| "rune_count (a # s) = Suc (case decode_rune (a # s) of None \<Rightarrow> rune_count s | Some (r, k) \<Rightarrow> rune_count (drop k (a # s)))"
  by pat_completeness auto
termination
  by (relation "measure length") (auto dest!: decode_rune_width simp del: decode_rune.simps)

lemma rune_count_le: "rune_count s \<le> length s"
proof (induction s rule: rune_count.induct)
  case (2 a s)
  show ?case
  proof (cases "decode_rune (a # s)")
    case None
    then show ?thesis using 2 by (simp del: decode_rune.simps)
  next
    case (Some rk)
    obtain r k where rk: "rk = (r, k)" by fastforce
    have "0 < k" using decode_rune_width [of "a # s" r k] Some rk by simp
    moreover have "rune_count (drop k (a # s)) \<le> length (drop k (a # s))" using 2 Some rk by simp
    ultimately show ?thesis using Some rk by (simp del: decode_rune.simps)
  qed
qed simp

lemma rune_count_ascii: "list_all (\<lambda>c. of_char c < (128 :: nat)) s \<Longrightarrow> rune_count s = length s"
  by (induction s) simp_all

section \<open>Validation\<close>

definition valid_PipelinePhase :: "PipelinePhase \<Rightarrow> bool" where
  "valid_PipelinePhase x \<longleftrightarrow> x \<in> {PhasePending, PhaseRunning, PhaseCompleted, PhaseFailed}"

definition valid_StagePhase :: "StagePhase \<Rightarrow> bool" where
  "valid_StagePhase x \<longleftrightarrow> x \<in> {StagePending, StageRunning, StageCompleted, StageFailed, StageSkipped}"

definition valid_TriggerType :: "TriggerType \<Rightarrow> bool" where
  "valid_TriggerType x \<longleftrightarrow> x \<in> {TriggerManual, TriggerAlertmanager, TriggerEvent}"

definition valid_TriggerSpec :: "TriggerSpec \<Rightarrow> bool" where
  "valid_TriggerSpec t \<longleftrightarrow> trg_Type t = '''' \<or> valid_TriggerType (trg_Type t)"

definition valid_AgentReference :: "AgentReference \<Rightarrow> bool" where
  "valid_AgentReference r \<longleftrightarrow> 1 \<le> rune_count (ref_Name r)"

definition valid_RetryPolicy :: "RetryPolicy \<Rightarrow> bool" where
  "valid_RetryPolicy rp \<longleftrightarrow> 0 \<le> sint (rp_MaxRetries rp)"

definition valid_StageSpec :: "StageSpec \<Rightarrow> bool" where
  "valid_StageSpec st \<longleftrightarrow> 1 \<le> rune_count (sp_Name st) \<and> dns_label (sp_Name st) \<and> valid_AgentReference (sp_AgentRef st) \<and>
     (case sp_RetryPolicy st of None \<Rightarrow> True | Some rp \<Rightarrow> valid_RetryPolicy rp)"

definition valid_AgentPipelineSpec :: "AgentPipelineSpec \<Rightarrow> bool" where
  "valid_AgentPipelineSpec sp \<longleftrightarrow> valid_TriggerSpec (spec_Trigger sp) \<and> 1 \<le> length (spec_Stages sp) \<and>
     list_all valid_StageSpec (spec_Stages sp) \<and>
     (case spec_RetryPolicy sp of None \<Rightarrow> True | Some rp \<Rightarrow> valid_RetryPolicy rp)"

definition valid_StageStatus :: "StageStatus \<Rightarrow> bool" where
  "valid_StageStatus ss \<longleftrightarrow> valid_StagePhase (st_Phase ss)"

definition maxMessage :: nat where "maxMessage = 32768"

definition message_fits :: "string \<Rightarrow> bool" where
  "message_fits m \<longleftrightarrow> rune_count m \<le> maxMessage"

definition valid_Condition :: "Condition \<Rightarrow> bool" where
  "valid_Condition c \<longleftrightarrow> cond_Status c \<in> {''True'', ''False'', ''Unknown''} \<and> message_fits (cond_Message c) \<and>
     reason_pattern (cond_Reason c) \<and> rune_count (cond_Reason c) \<le> 1024 \<and>
     type_pattern (cond_Type c) \<and> rune_count (cond_Type c) \<le> 316 \<and> 0 \<le> cond_ObservedGeneration c"

text \<open>The conditions are a list with the type as its key.\<close>

definition valid_AgentPipelineStatus :: "AgentPipelineStatus \<Rightarrow> bool" where
  "valid_AgentPipelineStatus s \<longleftrightarrow> (sts_Phase s = '''' \<or> valid_PipelinePhase (sts_Phase s)) \<and>
     list_all valid_StageStatus (sts_Stages s) \<and>
     list_all valid_Condition (sts_Conditions s) \<and> distinct (map cond_Type (sts_Conditions s))"

lemma message_fits_short: "length m \<le> maxMessage \<Longrightarrow> message_fits m"
  using rune_count_le [of m] by (simp add: message_fits_def)

lemma reason_consts [simp]:
  "reason_pattern ''PipelineStarted''" "reason_pattern ''PipelineCompleted''" "reason_pattern ''PipelineFailed''"
  "rune_count ''PipelineStarted'' = 15" "rune_count ''PipelineCompleted'' = 17" "rune_count ''PipelineFailed'' = 14"
  "type_pattern ''Ready''" "rune_count ''Ready'' = 5"
  by (simp_all add: type_pattern_def name_pattern_def reason_pattern_def alnum_def lower_alnum_def byte_in_def)

lemma message_consts [simp]:
  "message_fits ''no stages defined''" "message_fits ''Pipeline execution started''"
  "message_fits ''All stages completed successfully''"
  by (rule message_fits_short, simp add: maxMessage_def)+

text \<open>
  Evaluation decides the conditions and messages that the operator itself writes by comparison.
\<close>

lemma message_fits_code [code]:
  "message_fits m \<longleftrightarrow> m = '''' \<or> m = ''no stages defined'' \<or> m = ''Pipeline execution started'' \<or>
     m = ''All stages completed successfully'' \<or> rune_count m \<le> maxMessage"
  using message_consts by (auto simp: message_fits_def rune_count.simps(1))

definition operator_reason :: "string \<Rightarrow> bool" where
  "operator_reason r \<longleftrightarrow> r = ''PipelineStarted'' \<or> r = ''PipelineCompleted'' \<or> r = ''PipelineFailed''"

lemma operator_reason_valid: "operator_reason r \<Longrightarrow> reason_pattern r \<and> rune_count r \<le> 1024"
  by (elim disjE operator_reason_def [THEN iffD1, elim_format]) simp_all

lemma valid_Condition_code [code]:
  "valid_Condition c \<longleftrightarrow> (cond_Status c = ''True'' \<or> cond_Status c = ''False'' \<or> cond_Status c = ''Unknown'') \<and>
     message_fits (cond_Message c) \<and> 0 \<le> cond_ObservedGeneration c \<and>
     (operator_reason (cond_Reason c) \<or> reason_pattern (cond_Reason c) \<and> rune_count (cond_Reason c) \<le> 1024) \<and>
     (cond_Type c = ''Ready'' \<or> type_pattern (cond_Type c) \<and> rune_count (cond_Type c) \<le> 316)"
proof -
  have "type_pattern ''Ready'' \<and> rune_count ''Ready'' \<le> 316" by simp
  then show ?thesis unfolding valid_Condition_def insert_iff empty_iff using operator_reason_valid [of "cond_Reason c"] by metis
qed

declare rune_count.simps [simp del]

section \<open>Defaults\<close>

definition default_TriggerSpec :: "TriggerSpec \<Rightarrow> TriggerSpec" where
  "default_TriggerSpec t = t\<lparr>trg_Type := (if trg_Type t = '''' then TriggerManual else trg_Type t),
     trg_Alertmanager := map_option (\<lambda>a. a\<lparr>am_WebhookPort := (if am_WebhookPort a = 0 then 8080 else am_WebhookPort a)\<rparr>)
       (trg_Alertmanager t)\<rparr>"

definition default_RetryPolicy :: "RetryPolicy \<Rightarrow> RetryPolicy" where
  "default_RetryPolicy rp = rp\<lparr>rp_Backoff := Some (case rp_Backoff rp of None \<Rightarrow> 30 * Second | Some d \<Rightarrow> d)\<rparr>"

definition default_StageSpec :: "StageSpec \<Rightarrow> StageSpec" where
  "default_StageSpec st = st\<lparr>sp_Timeout := Some (case sp_Timeout st of None \<Rightarrow> 5 * Minute | Some d \<Rightarrow> d),
     sp_RetryPolicy := map_option default_RetryPolicy (sp_RetryPolicy st)\<rparr>"

definition default_AgentPipelineSpec :: "AgentPipelineSpec \<Rightarrow> AgentPipelineSpec" where
  "default_AgentPipelineSpec sp = sp\<lparr>spec_Trigger := default_TriggerSpec (spec_Trigger sp),
     spec_Stages := map default_StageSpec (spec_Stages sp),
     spec_RetryPolicy := map_option default_RetryPolicy (spec_RetryPolicy sp)\<rparr>"

section \<open>Names and labels\<close>

text \<open>
  A DNS-1123 subdomain, the rule for the names of pipelines and ConfigMaps: dot-separated
  labels, at most 253 bytes. A label value: at most 63 bytes, empty or beginning and ending
  with an alphanumeric character.
\<close>

definition dns_subdomain :: "string \<Rightarrow> bool" where
  "dns_subdomain s \<longleftrightarrow> length s \<le> 253 \<and> list_all dns_label (split_dots [] s)"

definition label_value :: "string \<Rightarrow> bool" where
  "label_value s \<longleftrightarrow> length s \<le> 63 \<and> (s = [] \<or> name_pattern s)"

definition valid_meta :: "ConfigMap \<Rightarrow> bool" where
  "valid_meta cm \<longleftrightarrow> dns_subdomain (om_Name (cm_Meta cm)) \<and> list_all (\<lambda>(k, v). label_value v) (om_Labels (cm_Meta cm))"

section \<open>Names made of names\<close>

lemma lower_alnum_alnum: "lower_alnum c \<Longrightarrow> alnum c"
  by (simp add: alnum_def)

lemma dns_label_append: "dns_label a \<Longrightarrow> dns_label b \<Longrightarrow> dns_label (a @ ''-stage-'' @ b)"
  by (auto simp: dns_label_def list_all_iff lower_alnum_def byte_in_def)

lemma dns_label_no_dot: "dns_label s \<Longrightarrow> CHR ''.'' \<notin> set s"
  by (auto simp: dns_label_def list_all_iff lower_alnum_def byte_in_def)

lemma split_dots_not_Nil [simp]: "split_dots cur s \<noteq> []"
  by (induction s arbitrary: cur) simp_all

lemma split_dots_append:
  "CHR ''.'' \<notin> set t \<Longrightarrow> split_dots cur (s @ t) = butlast (split_dots cur s) @ [last (split_dots cur s) @ t]"
proof (induction s arbitrary: cur)
  case Nil
  then show ?case by (induction t arbitrary: cur) auto
qed simp

lemma Join_split_dots: "Join (split_dots cur s) ''.'' = rev cur @ s"
proof (induction s arbitrary: cur)
  case (Cons c s)
  have "Join (x # split_dots [] s) ''.'' = x @ ''.'' @ s" for x
    using Cons.IH [of "[]"] by (cases "split_dots [] s") simp_all
  then show ?case using Cons.IH by simp
qed simp

lemma Join_labels:
  "xs \<noteq> [] \<Longrightarrow> list_all dns_label xs \<Longrightarrow> Join xs ''.'' \<noteq> [] \<and> lower_alnum (hd (Join xs ''.'')) \<and> lower_alnum (last (Join xs ''.'')) \<and>
   list_all (\<lambda>c. lower_alnum c \<or> c \<in> {CHR ''-'', CHR ''.''}) (Join xs ''.'')"
  by (induction xs "''.''" rule: Join.induct) (auto simp: dns_label_def list_all_iff)

lemma subdomain_label_value:
  assumes "dns_subdomain s"
  shows "label_value s \<longleftrightarrow> length s \<le> 63"
  using Join_labels [of "split_dots [] s"] assms lower_alnum_alnum
  by (auto simp: Join_split_dots dns_subdomain_def label_value_def name_pattern_def list_all_iff)

lemma label_subdomain: "dns_label s \<Longrightarrow> length s \<le> 253 \<Longrightarrow> dns_subdomain s"
  using split_dots_append [of s "[]" "[]"] dns_label_no_dot [of s] by (simp add: dns_subdomain_def)

lemma dns_label_value:
  assumes "dns_label s"
  shows "label_value s \<longleftrightarrow> length s \<le> 63"
  using assms lower_alnum_alnum by (auto simp: dns_label_def label_value_def name_pattern_def list_all_iff)

lemma subdomain_append:
  assumes "dns_subdomain p" and "dns_label s"
  shows "dns_subdomain (p @ ''-stage-'' @ s) \<longleftrightarrow> length p + length s \<le> 246"
proof -
  have "list_all dns_label (butlast (split_dots [] p))" "dns_label (last (split_dots [] p))"
    using assms(1) by (auto simp: dns_subdomain_def list_all_iff dest: in_set_butlastD)
  then show ?thesis
    using split_dots_append [of "''-stage-'' @ s" "[]" p] dns_label_no_dot [OF assms(2)] dns_label_append [OF _ assms(2)]
    by (simp add: dns_subdomain_def)
qed

text \<open>\<open>%q\<close> puts quotes around a label and changes nothing else.\<close>

lemma quote_body_plain: "list_all (\<lambda>c. byte_in 0x23 0x5B c \<or> byte_in 0x5D 0x7E c) s \<Longrightarrow> quote_body tbl s = s"
proof (induction s)
  case (Cons a s)
  then have "decode_rune (a # s) = Some (of_char a, 1)" by (auto simp: byte_in_def Let_def)
  moreover have "escape_rune tbl (of_char a) [a] = [a]"
    using Cons.prems by (auto simp: escape_rune_def IsPrint_def byte_in_def)
  ultimately show ?case using Cons by (simp del: decode_rune.simps)
qed simp

lemma quote_label: "dns_label s \<Longrightarrow> quote tbl s = CHR 0x22 # s @ [CHR 0x22]"
proof -
  assume "dns_label s"
  then have "byte_in 0x23 0x5B c \<or> byte_in 0x5D 0x7E c" if "c \<in> set s" for c
    using that by (fastforce simp: dns_label_def list_all_iff lower_alnum_def byte_in_def)
  then show ?thesis using quote_body_plain [of s tbl] by (simp add: quote_def list_all_iff)
qed

end
