(* ===== verification/Agent_Runner.thy ===== *)
theory Agent_Runner
  imports Go_Std
begin

text \<open>
  The runner package's data (\<open>internal/runner/types.go\<close>), the
  \<open>AgentRunner\<close> interface (\<open>internal/runner/interface.go\<close>) as a locale,
  and the mock implementation (\<open>internal/runner/mock_runner.go\<close>), which interprets
  it. The HTTP implementation is in theory \<open>A2A_Runner\<close>.

  A call of \<open>RunAgent\<close> may change the state of the runner (the mock logs its calls,
  the HTTP runner consumes what the network answers), so it takes that state and returns it. The
  Go context of the call is part of what the runner observes, not an argument of the interface.
\<close>

section \<open>Requests and results\<close>

type_synonym RunStatus = string

definition RunStatusCompleted :: RunStatus where "RunStatusCompleted = ''Completed''"
definition RunStatusFailed :: RunStatus where "RunStatusFailed = ''Failed''"
definition RunStatusTimedOut :: RunStatus where "RunStatusTimedOut = ''TimedOut''"

lemmas run_status_defs [go_consts] =
  RunStatusCompleted_def RunStatusFailed_def RunStatusTimedOut_def

lemma run_statuses_distinct [simp]:
  "RunStatusCompleted \<noteq> RunStatusFailed" "RunStatusCompleted \<noteq> RunStatusTimedOut"
  "RunStatusFailed \<noteq> RunStatusCompleted" "RunStatusFailed \<noteq> RunStatusTimedOut"
  "RunStatusTimedOut \<noteq> RunStatusCompleted" "RunStatusTimedOut \<noteq> RunStatusFailed"
  "RunStatusCompleted \<noteq> []" "RunStatusFailed \<noteq> []" "RunStatusTimedOut \<noteq> []"
  "[] \<noteq> RunStatusCompleted" "[] \<noteq> RunStatusFailed" "[] \<noteq> RunStatusTimedOut"
  by (simp_all add: run_status_defs)

record RunRequest =
  req_AgentName :: string
  req_Namespace :: string
  req_Prompt :: string
  req_Timeout :: duration

record RunResult =
  res_TaskID :: string
  res_Output :: string
  res_Status :: RunStatus
  res_Duration :: duration
  res_Error :: string

definition zero_RunResult :: RunResult where
  "zero_RunResult = \<lparr>res_TaskID = '''', res_Output = '''', res_Status = '''', res_Duration = 0,
     res_Error = ''''\<rparr>"

definition known_status :: "RunStatus \<Rightarrow> bool" where
  "known_status s \<longleftrightarrow> s = RunStatusCompleted \<or> s = RunStatusFailed \<or> s = RunStatusTimedOut"

lemma known_status_consts [simp]:
  "known_status RunStatusCompleted" "known_status RunStatusFailed" "known_status RunStatusTimedOut"
  "\<not> known_status []"
  by (simp_all add: known_status_def run_status_defs)

section \<open>The interface\<close>

text \<open>The methods of \<open>AgentRunner\<close>, over the state of the runner.\<close>

record 'r AgentRunner =
  ar_RunAgent :: "'r \<Rightarrow> RunRequest \<Rightarrow> (goerror + RunResult) \<times> 'r"
  ar_CheckHealth :: "'r \<Rightarrow> goerror option \<times> 'r"

text \<open>
  What the reconciler relies on: a runner in good order stays in good order, and a result
  carries one of the three statuses of \<open>types.go\<close>.
\<close>

locale agent_runner =
  fixes RunAgent :: "'r \<Rightarrow> RunRequest \<Rightarrow> (goerror + RunResult) \<times> 'r"
    and good :: "'r \<Rightarrow> bool"
  assumes good_kept: "good r \<Longrightarrow> good (snd (RunAgent r req))"
    and status_known: "good r \<Longrightarrow> fst (RunAgent r req) = Inr res \<Longrightarrow> known_status (res_Status res)"
begin

text \<open>A sequence of calls, as the reconciler makes them one after the other.\<close>

fun run_all :: "'r \<Rightarrow> RunRequest list \<Rightarrow> (goerror + RunResult) list" where
  "run_all r [] = []"
| "run_all r (q # qs) = (let (x, r') = RunAgent r q in x # run_all r' qs)"

lemma run_all_known:
  "good r \<Longrightarrow> Inr res \<in> set (run_all r qs) \<Longrightarrow> known_status (res_Status res)"
proof (induction qs arbitrary: r)
  case (Cons q qs)
  obtain x r' where step: "RunAgent r q = (x, r')" by fastforce
  have "good r'" using good_kept [OF Cons.prems(1), of q] step by simp
  moreover have "x = Inr res \<Longrightarrow> known_status (res_Status res)"
    using status_known [OF Cons.prems(1), of q res] step by simp
  ultimately show ?case using Cons step by auto
qed simp

end

section \<open>The mock runner\<close>

record MockResponse =
  mr_Output :: string
  mr_Status :: RunStatus
  mr_Error :: string
  mr_Duration :: duration

record MockRunner =
  mock_Responses :: "(string \<times> MockResponse) list"
  mock_Calls :: "RunRequest list"
  mock_HealthErr :: "goerror option"

definition NewMockRunner :: "(string \<times> MockResponse) list \<Rightarrow> MockRunner" where
  "NewMockRunner responses =
     \<lparr>mock_Responses = responses, mock_Calls = [], mock_HealthErr = None\<rparr>"

text \<open>
  \<open>tbl\<close> is the table of printable code points that \<open>%q\<close> consults,
  \<open>cancelled\<close> whether \<open>ctx.Err()\<close> is set when the mock looks.
\<close>

definition MockRunner_RunAgent ::
  "(nat \<Rightarrow> bool) \<Rightarrow> bool \<Rightarrow> MockRunner \<Rightarrow> RunRequest \<Rightarrow> (goerror + RunResult) \<times> MockRunner" where
  "MockRunner_RunAgent tbl cancelled m req =
     (let m = m\<lparr>mock_Calls := mock_Calls m @ [req]\<rparr> in
      case map_of (mock_Responses m) (req_AgentName req) of
        None \<Rightarrow>
          (Inr (zero_RunResult\<lparr>res_Status := RunStatusFailed, res_Duration := Millisecond,
             res_Error := ''no mock response configured for agent '' @ quote tbl (req_AgentName req)\<rparr>), m)
      | Some resp \<Rightarrow>
          if cancelled then
            (Inr (zero_RunResult\<lparr>res_Status := RunStatusTimedOut, res_Duration := Millisecond,
               res_Error := ''context cancelled''\<rparr>), m)
          else
            (Inr \<lparr>res_TaskID = ''mock-task-'' @ req_AgentName req, res_Output = mr_Output resp,
               res_Status = mr_Status resp, res_Duration = mr_Duration resp,
               res_Error = mr_Error resp\<rparr>, m))"

definition MockRunner_CheckHealth :: "MockRunner \<Rightarrow> goerror option" where
  "MockRunner_CheckHealth m = mock_HealthErr m"

definition mock_AgentRunner :: "(nat \<Rightarrow> bool) \<Rightarrow> bool \<Rightarrow> MockRunner AgentRunner" where
  "mock_AgentRunner tbl cancelled =
     \<lparr>ar_RunAgent = MockRunner_RunAgent tbl cancelled, ar_CheckHealth = (\<lambda>m. (MockRunner_CheckHealth m, m))\<rparr>"

definition mock_good :: "MockRunner \<Rightarrow> bool" where
  "mock_good m \<longleftrightarrow> list_all (\<lambda>(_, r). known_status (mr_Status r)) (mock_Responses m)"

lemma mock_keeps [frame]:
  "mock_Responses (snd (MockRunner_RunAgent tbl cancelled m req)) = mock_Responses m"
  "mock_HealthErr (snd (MockRunner_RunAgent tbl cancelled m req)) = mock_HealthErr m"
  by (simp_all add: MockRunner_RunAgent_def Let_def split: option.splits)

lemma mock_never_errs: "\<exists>res. fst (MockRunner_RunAgent tbl cancelled m req) = Inr res"
  by (simp add: MockRunner_RunAgent_def Let_def split: option.splits)

interpretation mock: agent_runner "MockRunner_RunAgent tbl cancelled" mock_good
  for tbl cancelled
proof
  fix r req assume "mock_good r"
  then show "mock_good (snd (MockRunner_RunAgent tbl cancelled r req))"
    by (simp add: mock_good_def frame)
next
  fix r req res
  assume "mock_good r" and "fst (MockRunner_RunAgent tbl cancelled r req) = Inr res"
  then show "known_status (res_Status res)"
    by (auto simp: MockRunner_RunAgent_def Let_def mock_good_def list_all_iff
        split: option.splits if_splits dest!: map_of_SomeD)
qed

end
