(* ===== verification/Prompt_Template.thy ===== *)
theory Prompt_Template
  imports Go_Std "HOL-Library.List_Lexorder" "HOL-Library.Char_ord"
begin

text \<open>
  The data a prompt template is rendered with (\<open>PipelineContext\<close> of
  \<open>internal/controller/stage_handler.go\<close>) and the part of Go's
  \<open>text/template\<close> that the API documents for prompts:
  \<open>{{.PreviousOutput}}\<close>, \<open>{{.StageOutput "name"}}\<close>,
  \<open>{{.Inputs}}\<close> and \<open>{{index .Inputs "key"}}\<close> between literal text.

  A prompt may use any construct of the template language. The engine is therefore an argument of
  the model (a function from template text and data to an outcome), and the locale
  \<open>template_engine\<close> says what is relied on: on a template of the documented fragment
  it produces what \<open>fragment_render\<close> computes. On other templates nothing is assumed.
\<close>

section \<open>The context of a prompt\<close>

record PipelineContext =
  pc_PreviousOutput :: string
  pc_Inputs :: "(string \<times> string) list"
  pc_stageOutputs :: "(string \<rightharpoonup> string) option"

definition StageOutput :: "PipelineContext \<Rightarrow> string \<Rightarrow> string" where
  "StageOutput pc stageName =
     (case pc_stageOutputs pc of
        None \<Rightarrow> ''''
      | Some m \<Rightarrow> (case m stageName of None \<Rightarrow> '''' | Some out \<Rightarrow> out))"

section \<open>Outcomes of the template engine\<close>

datatype tmpl_outcome =
    ParseError string   \<comment> \<open>the error of \<open>template.New("prompt").Parse\<close>\<close>
  | ExecError string    \<comment> \<open>the error of \<open>tmpl.Execute\<close>\<close>
  | Rendered string

section \<open>The documented fragment\<close>

datatype tmpl_node =
    TText string
  | TPreviousOutput
  | TStageOutput string
  | TInputs
  | TInputsIndex string

definition is_tmpl_space :: "char \<Rightarrow> bool" where
  "is_tmpl_space c \<longleftrightarrow> c = CHR '' '' \<or> c = CHR 0x09 \<or> c = CHR 0x0D \<or> c = CHR 0x0A"

abbreviation skip_ws :: "string \<Rightarrow> string" where
  "skip_ws \<equiv> dropWhile is_tmpl_space"

definition close_action :: "string \<Rightarrow> string option" where
  "close_action s =
     (let t = skip_ws s in if HasPrefix t ''}}'' then Some (drop 2 t) else None)"

text \<open>A double-quoted literal of printable ASCII without escapes.\<close>

definition lit_char :: "char \<Rightarrow> bool" where
  "lit_char c \<longleftrightarrow> byte_in 32 126 c \<and> c \<noteq> CHR 0x22 \<and> c \<noteq> CHR 0x5C"

definition quoted_lit :: "string \<Rightarrow> (string \<times> string) option" where
  "quoted_lit s =
     (if s \<noteq> [] \<and> is_tmpl_space (hd s) then
        (case skip_ws s of
           q # t \<Rightarrow>
             if q = CHR 0x22 then
               (case dropWhile lit_char t of
                  e # u \<Rightarrow> if e = CHR 0x22 then Some (takeWhile lit_char t, u) else None
                | [] \<Rightarrow> None)
             else None
         | [] \<Rightarrow> None)
      else None)"

text \<open>The action after an opening \<open>{{\<close>: its node and the text after its \<open>}}\<close>.\<close>

definition parse_action :: "string \<Rightarrow> (tmpl_node \<times> string) option" where
  "parse_action s =
     (let t = skip_ws s in
      if HasPrefix t ''.PreviousOutput'' then
        map_option (\<lambda>u. (TPreviousOutput, u)) (close_action (drop 15 t))
      else if HasPrefix t ''.StageOutput'' then
        (case quoted_lit (drop 12 t) of
           None \<Rightarrow> None
         | Some (l, u) \<Rightarrow> map_option (\<lambda>v. (TStageOutput l, v)) (close_action u))
      else if HasPrefix t ''.Inputs'' then
        map_option (\<lambda>u. (TInputs, u)) (close_action (drop 7 t))
      else if HasPrefix t ''index'' \<and> drop 5 t \<noteq> [] \<and> is_tmpl_space (hd (drop 5 t))
              \<and> HasPrefix (skip_ws (drop 5 t)) ''.Inputs'' then
        (case quoted_lit (drop 7 (skip_ws (drop 5 t))) of
           None \<Rightarrow> None
         | Some (l, u) \<Rightarrow> map_option (\<lambda>v. (TInputsIndex l, v)) (close_action u))
      else None)"

lemma length_skip_ws: "length s \<le> n \<Longrightarrow> length (skip_ws s) \<le> n"
  using length_dropWhile_le [of is_tmpl_space s] by linarith

lemma close_action_shorter:
  assumes "close_action s = Some t" and "length s \<le> n"
  shows "length t < n"
proof -
  have "2 \<le> length (skip_ws s)" and "t = drop 2 (skip_ws s)"
    using assms(1) by (auto simp: close_action_def Let_def HasPrefix_def split: if_splits)
  then show ?thesis using length_skip_ws [OF assms(2)] by simp
qed

lemma quoted_lit_shorter:
  assumes "quoted_lit s = Some (l, t)" and "length s \<le> n"
  shows "length t < n"
proof -
  obtain q r e where r: "skip_ws s = q # r" and e: "dropWhile lit_char r = e # t"
    using assms(1) by (auto simp: quoted_lit_def split: if_splits list.splits)
  have "length (q # r) \<le> n" using length_skip_ws [OF assms(2)] by (simp add: r)
  moreover have "length (e # t) \<le> length r" using length_dropWhile_le [of lit_char r] by (simp add: e)
  ultimately show ?thesis by simp
qed

lemma lit_close_shorter:
  "quoted_lit s = Some (l, u) \<Longrightarrow> close_action u = Some t \<Longrightarrow> length s \<le> n \<Longrightarrow> length t < n"
  by (meson close_action_shorter less_imp_le_nat quoted_lit_shorter)

lemma parse_action_shorter:
  assumes "parse_action s = Some (n, t)"
  shows "length t < length s"
proof -
  have skip: "length (drop k (skip_ws s)) \<le> length s" for k
    using length_skip_ws [of s "length s"] by simp
  have skip2: "length (drop 7 (skip_ws (drop 5 (skip_ws s)))) \<le> length s"
    using length_skip_ws [OF skip [of 5]] by simp
  show ?thesis
    using assms skip skip2 unfolding parse_action_def Let_def
    by (auto split: if_splits option.splits intro: close_action_shorter lit_close_shorter)
qed

text \<open>The whole template; \<open>None\<close> when it leaves the fragment.\<close>

function parse_fragment :: "string \<Rightarrow> string \<Rightarrow> tmpl_node list option" where
  "parse_fragment acc [] = Some [TText (rev acc)]"
| "parse_fragment acc (c # s) =
     (if HasPrefix (c # s) ''{{'' then
        (case parse_action (tl s) of
           None \<Rightarrow> None
         | Some (n, t) \<Rightarrow> map_option (\<lambda>ns. TText (rev acc) # n # ns) (parse_fragment [] t))
      else parse_fragment (c # acc) s)"
  by pat_completeness auto
termination
  by (relation "measure (\<lambda>(acc, s). length s)")
    (auto dest!: parse_action_shorter split: option.splits)

text \<open>\<open>fmt\<close> prints a map with its keys in ascending order.\<close>

definition print_map :: "(string \<times> string) list \<Rightarrow> string" where
  "print_map m =
     ''map['' @ Join (map (\<lambda>k. k @ '':'' @ the (map_of m k)) (sort (remdups (map fst m)))) '' '' @ '']''"

fun exec_node :: "PipelineContext \<Rightarrow> tmpl_node \<Rightarrow> string" where
  "exec_node pc (TText t) = t"
| "exec_node pc TPreviousOutput = pc_PreviousOutput pc"
| "exec_node pc (TStageOutput l) = StageOutput pc l"
| "exec_node pc TInputs = print_map (pc_Inputs pc)"
| "exec_node pc (TInputsIndex k) = (case map_of (pc_Inputs pc) k of None \<Rightarrow> '''' | Some v \<Rightarrow> v)"

definition fragment_render :: "string \<Rightarrow> PipelineContext \<Rightarrow> string option" where
  "fragment_render t pc = map_option (\<lambda>ns. concat (map (exec_node pc) ns)) (parse_fragment [] t)"

section \<open>Literal text and interpolation\<close>

text \<open>Text in which no action opens.\<close>

fun plain :: "string \<Rightarrow> bool" where
  "plain [] = True"
| "plain (c # s) = (\<not> HasPrefix (c # s) ''{{'' \<and> plain s)"

lemma HasPrefix_two: "HasPrefix (c # s) [a, b] \<longleftrightarrow> c = a \<and> s \<noteq> [] \<and> hd s = b"
  by (cases s) (auto simp: HasPrefix_def)

lemma parse_fragment_plain_append:
  "plain (t @ ''{'') \<Longrightarrow> parse_fragment acc (t @ s) = parse_fragment (rev t @ acc) s"
proof (induction t arbitrary: acc)
  case (Cons c t)
  have "\<not> HasPrefix (c # t @ s) ''{{''"
    using Cons.prems by (cases t) (auto simp: HasPrefix_two)
  with Cons show ?case by simp
qed simp

lemma parse_fragment_plain: "plain t \<Longrightarrow> parse_fragment acc t = Some [TText (rev acc @ t)]"
  by (induction t arbitrary: acc) auto

lemma parse_action_PreviousOutput:
  "parse_action (''.PreviousOutput}}'' @ s) = Some (TPreviousOutput, s)"
  by (simp add: parse_action_def close_action_def HasPrefix_def is_tmpl_space_def)

lemma fragment_render_plain: "plain t \<Longrightarrow> fragment_render t pc = Some t"
  by (simp add: fragment_render_def parse_fragment_plain)

lemma fragment_render_PreviousOutput:
  assumes "plain (pre @ ''{'')" and "plain post"
  shows "fragment_render (pre @ ''{{.PreviousOutput}}'' @ post) pc
       = Some (pre @ pc_PreviousOutput pc @ post)"
proof -
  have "parse_fragment [] (pre @ ''{{.PreviousOutput}}'' @ post)
      = parse_fragment (rev pre) (''{{.PreviousOutput}}'' @ post)"
    using parse_fragment_plain_append [OF assms(1), of "[]"] by simp
  also have "\<dots> = Some [TText pre, TPreviousOutput, TText post]"
    using parse_action_PreviousOutput [of post] parse_fragment_plain [OF assms(2), of "[]"]
    by (simp add: HasPrefix_two)
  finally show ?thesis by (simp add: fragment_render_def)
qed

section \<open>The engine\<close>

locale template_engine =
  fixes run :: "string \<Rightarrow> PipelineContext \<Rightarrow> tmpl_outcome"
  assumes on_fragment: "fragment_render t pc = Some out \<Longrightarrow> run t pc = Rendered out"
begin

lemma run_plain: "plain t \<Longrightarrow> run t pc = Rendered t"
  by (rule on_fragment) (rule fragment_render_plain)

lemma run_PreviousOutput:
  "plain (pre @ ''{'') \<Longrightarrow> plain post \<Longrightarrow>
   run (pre @ ''{{.PreviousOutput}}'' @ post) pc = Rendered (pre @ pc_PreviousOutput pc @ post)"
  by (rule on_fragment) (rule fragment_render_PreviousOutput)

end

text \<open>
  An engine that accepts exactly the fragment, and the least one that satisfies the contract.
\<close>

definition fragment_engine :: "string \<Rightarrow> PipelineContext \<Rightarrow> tmpl_outcome" where
  "fragment_engine t pc =
     (case fragment_render t pc of
        Some out \<Rightarrow> Rendered out
      | None \<Rightarrow> ParseError ''template: prompt: outside the documented fragment'')"

interpretation frag: template_engine fragment_engine
  by unfold_locales (simp add: fragment_engine_def)

end
