(* ===== verification/Operator_Env.thy ===== *)
theory Operator_Env
  imports Api_Schema Agent_Runner Prompt_Template
begin

text \<open>
  What the operator is built on but does not contain: the Kubernetes API server behind the
  controller-runtime client, the helpers of \<open>controllerutil\<close> and \<open>meta\<close>,
  the template engine and the wall clock. They are the fields of the record
  \<open>AgentPipelineReconciler\<close>, which is an argument of every operation of the operator,
  next to the fields the Go struct has (client, recorder, runner, handler). \<open>main\<close>
  gives the handler the client of the reconciler, so the methods of both take the one record.

  \<open>world\<close> is the state an operation threads: the state of the API server (of an
  abstract type \<open>'c\<close>), the state of the runner (\<open>'r\<close>), the events
  recorded and the agent invocations made so far, and the number of clock readings.

  The locale \<open>k8s_cluster\<close> states the documented behaviour of the API server that the
  operator relies on: what a successful read returned, what a successful write stored, and that a
  rejected write stores nothing. \<open>k8s_reliable\<close> adds that an API server in good order
  accepts valid requests that carry the current version. Interference by other clients between a
  read and a write of one pass shows up as a rejected write, because every write carries the
  version that was read. A spec counts as stored with its defaults filled in; the one default that
  an update can still add, the type of a trigger that was left out, is read by no code. The theory
  ends with an executable API server in memory, which can be told to reject the next writes; it
  interprets both locales.
\<close>

section \<open>State\<close>

record Event =
  ev_Type :: string
  ev_Reason :: string
  ev_Message :: string

record ('c, 'r) world =
  w_cluster :: 'c
  w_runner :: 'r
  w_events :: "Event list"
  w_calls :: "RunRequest list"
  w_clock :: nat

record ('c, 'r) AgentPipelineReconciler =
  client_Get :: "'c \<Rightarrow> NamespacedName \<Rightarrow> (api_error + AgentPipeline) \<times> 'c"
  client_GetConfigMap :: "'c \<Rightarrow> NamespacedName \<Rightarrow> (api_error + ConfigMap) \<times> 'c"
  client_Update :: "'c \<Rightarrow> AgentPipeline \<Rightarrow> (api_error + AgentPipeline) \<times> 'c"
  client_StatusUpdate :: "'c \<Rightarrow> AgentPipeline \<Rightarrow> (api_error + AgentPipeline) \<times> 'c"
  ctl_CreateOrUpdate :: "'c \<Rightarrow> ConfigMap \<Rightarrow> (ConfigMap \<Rightarrow> ConfigMap) \<Rightarrow> (api_error + ConfigMap) \<times> 'c"
  ctl_SetControllerReference :: "AgentPipeline \<Rightarrow> ConfigMap \<Rightarrow> api_error + ConfigMap"
  ctl_ContainsFinalizer :: "AgentPipeline \<Rightarrow> string \<Rightarrow> bool"
  ctl_AddFinalizer :: "AgentPipeline \<Rightarrow> string \<Rightarrow> AgentPipeline"
  ctl_RemoveFinalizer :: "AgentPipeline \<Rightarrow> string \<Rightarrow> AgentPipeline"
  meta_SetStatusCondition :: "gotime \<Rightarrow> Condition list \<Rightarrow> Condition \<Rightarrow> Condition list"
  tmpl_Run :: "string \<Rightarrow> PipelineContext \<Rightarrow> tmpl_outcome"
  Runner :: "'r AgentRunner"
  wall_clock :: "nat \<Rightarrow> gotime"
  print_table :: "nat \<Rightarrow> bool"

abbreviation Runner_RunAgent ::
  "('c, 'r) AgentPipelineReconciler \<Rightarrow> 'r \<Rightarrow> RunRequest \<Rightarrow> (goerror + RunResult) \<times> 'r" where
  "Runner_RunAgent R \<equiv> ar_RunAgent (Runner R)"

definition cm_key :: "ConfigMap \<Rightarrow> NamespacedName" where
  "cm_key cm = \<lparr>nn_Namespace = om_Namespace (cm_Meta cm), nn_Name = om_Name (cm_Meta cm)\<rparr>"

section \<open>Calls out of the operator\<close>

type_synonym ('c, 'r) recon = "('c, 'r) AgentPipelineReconciler"

definition do_Get ::
  "('c,'r) recon \<Rightarrow> ('c,'r) world \<Rightarrow> NamespacedName \<Rightarrow> (api_error + AgentPipeline) \<times> ('c,'r) world" where
  "do_Get R w k = (let (x, c) = client_Get R (w_cluster w) k in (x, w\<lparr>w_cluster := c\<rparr>))"

definition do_GetConfigMap ::
  "('c,'r) recon \<Rightarrow> ('c,'r) world \<Rightarrow> NamespacedName \<Rightarrow> (api_error + ConfigMap) \<times> ('c,'r) world" where
  "do_GetConfigMap R w k =
     (let (x, c) = client_GetConfigMap R (w_cluster w) k in (x, w\<lparr>w_cluster := c\<rparr>))"

definition do_Update ::
  "('c,'r) recon \<Rightarrow> ('c,'r) world \<Rightarrow> AgentPipeline \<Rightarrow> (api_error + AgentPipeline) \<times> ('c,'r) world" where
  "do_Update R w p = (let (x, c) = client_Update R (w_cluster w) p in (x, w\<lparr>w_cluster := c\<rparr>))"

definition do_StatusUpdate ::
  "('c,'r) recon \<Rightarrow> ('c,'r) world \<Rightarrow> AgentPipeline \<Rightarrow> (api_error + AgentPipeline) \<times> ('c,'r) world" where
  "do_StatusUpdate R w p =
     (let (x, c) = client_StatusUpdate R (w_cluster w) p in (x, w\<lparr>w_cluster := c\<rparr>))"

definition do_CreateOrUpdate ::
  "('c,'r) recon \<Rightarrow> ('c,'r) world \<Rightarrow> ConfigMap \<Rightarrow> (ConfigMap \<Rightarrow> ConfigMap)
   \<Rightarrow> (api_error + ConfigMap) \<times> ('c,'r) world" where
  "do_CreateOrUpdate R w cm f =
     (let (x, c) = ctl_CreateOrUpdate R (w_cluster w) cm f in (x, w\<lparr>w_cluster := c\<rparr>))"

definition do_RunAgent ::
  "('c,'r) recon \<Rightarrow> ('c,'r) world \<Rightarrow> RunRequest \<Rightarrow> (goerror + RunResult) \<times> ('c,'r) world" where
  "do_RunAgent R w req =
     (let (x, r) = Runner_RunAgent R (w_runner w) req
      in (x, w\<lparr>w_runner := r, w_calls := w_calls w @ [req]\<rparr>))"

definition metav1_Now :: "('c,'r) recon \<Rightarrow> ('c,'r) world \<Rightarrow> gotime \<times> ('c,'r) world" where
  "metav1_Now R w = (wall_clock R (w_clock w), w\<lparr>w_clock := Suc (w_clock w)\<rparr>)"

definition Recorder_Event :: "('c,'r) world \<Rightarrow> string \<Rightarrow> string \<Rightarrow> string \<Rightarrow> ('c,'r) world" where
  "Recorder_Event w ty reason msg =
     w\<lparr>w_events := w_events w @ [\<lparr>ev_Type = ty, ev_Reason = reason, ev_Message = msg\<rparr>]\<rparr>"

definition EventTypeNormal :: string where "EventTypeNormal = ''Normal''"
definition EventTypeWarning :: string where "EventTypeWarning = ''Warning''"

lemma Recorder_Event_frame [simp]:
  "w_cluster (Recorder_Event w ty reason msg) = w_cluster w"
  "w_runner (Recorder_Event w ty reason msg) = w_runner w"
  "w_calls (Recorder_Event w ty reason msg) = w_calls w"
  "w_clock (Recorder_Event w ty reason msg) = w_clock w"
  by (simp_all add: Recorder_Event_def)

lemma metav1_Now_frame [simp]:
  "w_cluster (snd (metav1_Now R w)) = w_cluster w" "w_runner (snd (metav1_Now R w)) = w_runner w"
  "w_calls (snd (metav1_Now R w)) = w_calls w" "w_events (snd (metav1_Now R w)) = w_events w"
  by (simp_all add: metav1_Now_def)

lemma do_RunAgent_frame [simp]:
  "w_cluster (snd (do_RunAgent R w req)) = w_cluster w"
  "w_calls (snd (do_RunAgent R w req)) = w_calls w @ [req]"
  "w_events (snd (do_RunAgent R w req)) = w_events w"
  by (simp_all add: do_RunAgent_def case_prod_beta)

section \<open>The API server's contract\<close>

text \<open>
  \<open>stored\<close> and \<open>stored_cm\<close> are the pipelines and the ConfigMaps the API
  server holds.

  A read of a pipeline may come from the client's cache and be out of date. What it returns is a
  \<open>snapshot\<close>: it names the object asked for, and if it carries the version that is
  stored now, it is what is stored now. A write is accepted only with the stored version. Nothing
  is assumed of what a read of a ConfigMap returns: it may fail although the ConfigMap exists, and
  with a cache behind it give a content that is not stored any more.
\<close>

definition snapshot :: "(NamespacedName \<Rightarrow> AgentPipeline option) \<Rightarrow> NamespacedName \<Rightarrow> AgentPipeline \<Rightarrow> bool" where
  "snapshot m k p \<longleftrightarrow> p_key p = k \<and>
     (case m k of None \<Rightarrow> True
      | Some q \<Rightarrow> om_ResourceVersion (ap_Meta q) = om_ResourceVersion (ap_Meta p) \<longrightarrow> q = p)"

lemma snapshotD:
  "snapshot m k p \<Longrightarrow> m k = Some q \<Longrightarrow> om_ResourceVersion (ap_Meta q) = om_ResourceVersion (ap_Meta p) \<Longrightarrow> q = p"
  by (simp add: snapshot_def)

lemma snapshot_key: "snapshot m k p \<Longrightarrow> p_key p = k"
  by (simp add: snapshot_def)

lemma snapshot_stored: "m k = Some p \<Longrightarrow> p_key p = k \<Longrightarrow> snapshot m k p"
  by (simp add: snapshot_def)

locale k8s_cluster =
  fixes R :: "('c, 'r) AgentPipelineReconciler"
    and stored :: "'c \<Rightarrow> NamespacedName \<Rightarrow> AgentPipeline option"
    and stored_cm :: "'c \<Rightarrow> NamespacedName \<Rightarrow> ConfigMap option"
  assumes Get_found: "client_Get R c k = (Inr p, c') \<Longrightarrow> snapshot (stored c) k p"
    and Get_frame: "client_Get R c k = (x, c') \<Longrightarrow> stored c' = stored c \<and> stored_cm c' = stored_cm c"
    and GetConfigMap_frame:
      "client_GetConfigMap R c k = (y, c') \<Longrightarrow> stored c' = stored c \<and> stored_cm c' = stored_cm c"
    and Update_ok: "client_Update R c p = (Inr p', c') \<Longrightarrow>
      \<exists>q. stored c (p_key p) = Some q \<and> om_ResourceVersion (ap_Meta q) = om_ResourceVersion (ap_Meta p) \<and>
        p_key p' = p_key p \<and> ap_Spec p' = ap_Spec p \<and> ap_Status p' = ap_Status q \<and>
        om_Finalizers (ap_Meta p') = om_Finalizers (ap_Meta p) \<and>
        om_DeletionTimestamp (ap_Meta p') = om_DeletionTimestamp (ap_Meta q) \<and>
        stored c' = (stored c)(p_key p :=
          (if om_DeletionTimestamp (ap_Meta q) \<noteq> None \<and> om_Finalizers (ap_Meta p) = []
           then None else Some p')) \<and>
        stored_cm c' = stored_cm c"
    and Update_err: "client_Update R c p = (Inl e, c') \<Longrightarrow> stored c' = stored c \<and> stored_cm c' = stored_cm c"
    and StatusUpdate_ok: "client_StatusUpdate R c p = (Inr p', c') \<Longrightarrow>
      \<exists>q. stored c (p_key p) = Some q \<and> om_ResourceVersion (ap_Meta q) = om_ResourceVersion (ap_Meta p) \<and>
        p_key p' = p_key p \<and> ap_Spec p' = ap_Spec q \<and> ap_Status p' = ap_Status p \<and>
        om_Finalizers (ap_Meta p') = om_Finalizers (ap_Meta q) \<and>
        om_DeletionTimestamp (ap_Meta p') = om_DeletionTimestamp (ap_Meta q) \<and>
        stored c' = (stored c)(p_key p \<mapsto> p') \<and> stored_cm c' = stored_cm c"
    and StatusUpdate_err:
      "client_StatusUpdate R c p = (Inl e, c') \<Longrightarrow> stored c' = stored c \<and> stored_cm c' = stored_cm c"
    and CreateOrUpdate_ok: "ctl_CreateOrUpdate R c cm g = (Inr cm', c') \<Longrightarrow>
      cm_key cm' = cm_key cm \<and>
      cm_Data cm' = cm_Data (g (case stored_cm c (cm_key cm) of None \<Rightarrow> cm | Some old \<Rightarrow> old)) \<and>
      stored_cm c' = (stored_cm c)(cm_key cm \<mapsto> cm') \<and> stored c' = stored c"
    and CreateOrUpdate_err:
      "ctl_CreateOrUpdate R c cm g = (Inl e, c') \<Longrightarrow> stored c' = stored c \<and> stored_cm c' = stored_cm c"
    and SetControllerReference_ok:
      "ctl_SetControllerReference R p cm = Inr cm' \<Longrightarrow> cm_key cm' = cm_key cm \<and> cm_Data cm' = cm_Data cm \<and>
        om_Labels (cm_Meta cm') = om_Labels (cm_Meta cm)"
    and ContainsFinalizer: "ctl_ContainsFinalizer R p f \<longleftrightarrow> f \<in> set (om_Finalizers (ap_Meta p))"
    and AddFinalizer: "\<exists>fs. ctl_AddFinalizer R p f = p\<lparr>ap_Meta := (ap_Meta p)\<lparr>om_Finalizers := fs\<rparr>\<rparr>
      \<and> set fs = insert f (set (om_Finalizers (ap_Meta p)))"
    and RemoveFinalizer: "\<exists>fs. ctl_RemoveFinalizer R p f = p\<lparr>ap_Meta := (ap_Meta p)\<lparr>om_Finalizers := fs\<rparr>\<rparr>
      \<and> set fs = set (om_Finalizers (ap_Meta p)) - {f}"
    and SetStatusCondition:
      "\<exists>x. find (\<lambda>x. cond_Type x = cond_Type n) (meta_SetStatusCondition R t cs n) = Some x
        \<and> cond_Status x = cond_Status n \<and> cond_Reason x = cond_Reason n
        \<and> cond_Message x = cond_Message n \<and> cond_ObservedGeneration x = cond_ObservedGeneration n"
    and SetStatusCondition_rest: "z \<in> set (meta_SetStatusCondition R t cs n) \<Longrightarrow> z \<in> set cs \<or>
      cond_Type z = cond_Type n \<and> cond_Status z = cond_Status n \<and> cond_Reason z = cond_Reason n
        \<and> cond_Message z = cond_Message n \<and> cond_ObservedGeneration z = cond_ObservedGeneration n"
    and SetStatusCondition_keys:
      "distinct (map cond_Type cs) \<Longrightarrow> distinct (map cond_Type (meta_SetStatusCondition R t cs n))"

text \<open>
  An API server in good order (\<open>up\<close>) answers reads from what it stores, which takes a
  cache that is in step, and stays in good order. It accepts a write that carries the stored
  version: of the metadata, of a status if it passes the validation of the schema, of a ConfigMap
  if its name and labels are valid and it is not over a size (\<open>limit\<close>; Kubernetes
  documents 1 MiB). So what it stores has passed the validation; the generation it counts itself.
  An owner reference can be set on an object that has no owner yet and lives in the owner's
  namespace.
\<close>

definition cm_size :: "ConfigMap \<Rightarrow> nat" where
  "cm_size cm = sum_list (map (\<lambda>(k, v). length k + length v) (cm_Data cm))"

locale k8s_reliable = k8s_cluster R stored stored_cm
  for R :: "('c, 'r) AgentPipelineReconciler"
    and stored :: "'c \<Rightarrow> NamespacedName \<Rightarrow> AgentPipeline option"
    and stored_cm :: "'c \<Rightarrow> NamespacedName \<Rightarrow> ConfigMap option" +
  fixes up :: "'c \<Rightarrow> bool" and limit :: nat
  assumes up_Get: "up c \<Longrightarrow> stored c k = Some p \<Longrightarrow> \<exists>c'. client_Get R c k = (Inr p, c') \<and> up c'"
    and up_GetConfigMap: "up c \<Longrightarrow> client_GetConfigMap R c k = (x, c') \<Longrightarrow>
      up c' \<and> (case stored_cm c k of Some cm \<Rightarrow> x = Inr cm | None \<Rightarrow> \<exists>e. x = Inl e \<and> err_IsNotFound e)"
    and up_Update: "up c \<Longrightarrow> stored c (p_key p) = Some q \<Longrightarrow>
      om_ResourceVersion (ap_Meta q) = om_ResourceVersion (ap_Meta p) \<Longrightarrow> ap_Spec q = ap_Spec p \<Longrightarrow>
      \<exists>p' c'. client_Update R c p = (Inr p', c') \<and> up c'"
    and up_StatusUpdate: "up c \<Longrightarrow> stored c (p_key p) = Some q \<Longrightarrow>
      om_ResourceVersion (ap_Meta q) = om_ResourceVersion (ap_Meta p) \<Longrightarrow> valid_AgentPipelineStatus (ap_Status p) \<Longrightarrow>
      \<exists>p' c'. client_StatusUpdate R c p = (Inr p', c')"
    and up_StatusUpdate_kept: "up c \<Longrightarrow> client_StatusUpdate R c p = (u, c') \<Longrightarrow> up c'"
    and up_valid: "up c \<Longrightarrow> stored c k = Some p \<Longrightarrow>
      valid_AgentPipelineStatus (ap_Status p) \<and> 0 \<le> om_Generation (ap_Meta p)"
    and up_CreateOrUpdate: "up c \<Longrightarrow> valid_meta cm \<Longrightarrow>
      (\<And>b. om_Labels (cm_Meta (f b)) = om_Labels (cm_Meta b) \<and> cm_size (f b) \<le> limit) \<Longrightarrow>
      \<exists>cm' c'. ctl_CreateOrUpdate R c cm f = (Inr cm', c') \<and> up c'"
    and up_SetControllerReference: "om_OwnerUIDs (cm_Meta cm) = [] \<Longrightarrow>
      om_Namespace (cm_Meta cm) = p_ns p \<Longrightarrow> \<exists>cm'. ctl_SetControllerReference R p cm = Inr cm'"

section \<open>An API server in memory\<close>

record mem =
  mem_pipes :: "NamespacedName \<rightharpoonup> AgentPipeline"
  mem_cms :: "NamespacedName \<rightharpoonup> ConfigMap"
  mem_version :: int
  mem_reject :: "bool list"  \<comment> \<open>whether each of the next writes is rejected; none after the end\<close>

definition not_found :: api_error where
  "not_found = \<lparr>err_IsNotFound = True, err_Text = ''not found''\<rparr>"

definition conflict :: api_error where
  "conflict = \<lparr>err_IsNotFound = False, err_Text = ''the object has been modified''\<rparr>"

definition mem_Get :: "mem \<Rightarrow> NamespacedName \<Rightarrow> (api_error + AgentPipeline) \<times> mem" where
  "mem_Get c k = (case mem_pipes c k of
      Some p \<Rightarrow> if p_key p = k then (Inr p, c) else (Inl not_found, c)
    | None \<Rightarrow> (Inl not_found, c))"

definition mem_GetConfigMap :: "mem \<Rightarrow> NamespacedName \<Rightarrow> (api_error + ConfigMap) \<times> mem" where
  "mem_GetConfigMap c k =
     (case mem_cms c k of Some cm \<Rightarrow> (Inr cm, c) | None \<Rightarrow> (Inl not_found, c))"

text \<open>A write takes the next entry of the rejection list and a new version number.\<close>

definition mem_tick :: "mem \<Rightarrow> bool \<times> mem" where
  "mem_tick c = (case mem_reject c of
      [] \<Rightarrow> (False, c\<lparr>mem_version := mem_version c + 1\<rparr>)
    | b # bs \<Rightarrow> (b, c\<lparr>mem_reject := bs, mem_version := mem_version c + 1\<rparr>))"

definition mem_Update :: "mem \<Rightarrow> AgentPipeline \<Rightarrow> (api_error + AgentPipeline) \<times> mem" where
  "mem_Update c p =
     (let (rejected, c) = mem_tick c in
      case mem_pipes c (p_key p) of
        None \<Rightarrow> (Inl not_found, c)
      | Some q \<Rightarrow>
          if rejected \<or> om_ResourceVersion (ap_Meta q) \<noteq> om_ResourceVersion (ap_Meta p)
          then (Inl conflict, c)
          else
            let p' = p\<lparr>ap_Status := ap_Status q,
                       ap_Meta := (ap_Meta p)\<lparr>om_ResourceVersion := mem_version c,
                         om_Generation := om_Generation (ap_Meta q) + (if ap_Spec p = ap_Spec q then 0 else 1),
                         om_DeletionTimestamp := om_DeletionTimestamp (ap_Meta q)\<rparr>\<rparr>
            in (Inr p', c\<lparr>mem_pipes := (mem_pipes c)(p_key p :=
                  (if om_DeletionTimestamp (ap_Meta q) \<noteq> None \<and> om_Finalizers (ap_Meta p) = []
                   then None else Some p'))\<rparr>))"

definition invalid :: api_error where
  "invalid = \<lparr>err_IsNotFound = False, err_Text = ''is invalid''\<rparr>"

definition mem_StatusUpdate :: "mem \<Rightarrow> AgentPipeline \<Rightarrow> (api_error + AgentPipeline) \<times> mem" where
  "mem_StatusUpdate c p =
     (let (rejected, c) = mem_tick c in
      case mem_pipes c (p_key p) of
        None \<Rightarrow> (Inl not_found, c)
      | Some q \<Rightarrow>
          if rejected \<or> om_ResourceVersion (ap_Meta q) \<noteq> om_ResourceVersion (ap_Meta p)
          then (Inl conflict, c)
          else if \<not> valid_AgentPipelineStatus (ap_Status p) then (Inl invalid, c)
          else
            let p' = \<lparr>ap_Meta = (ap_Meta q)\<lparr>om_ResourceVersion := mem_version c,
                        om_Name := p_name p, om_Namespace := p_ns p\<rparr>,
                      ap_Spec = ap_Spec q, ap_Status = ap_Status p\<rparr>
            in (Inr p', c\<lparr>mem_pipes := (mem_pipes c)(p_key p \<mapsto> p')\<rparr>))"

definition too_large :: api_error where
  "too_large = \<lparr>err_IsNotFound = False, err_Text = ''data: Too long''\<rparr>"

definition mem_CreateOrUpdate ::
  "nat \<Rightarrow> mem \<Rightarrow> ConfigMap \<Rightarrow> (ConfigMap \<Rightarrow> ConfigMap) \<Rightarrow> (api_error + ConfigMap) \<times> mem" where
  "mem_CreateOrUpdate limit c cm f =
     (let (rejected, c) = mem_tick c in
      if rejected then (Inl conflict, c)
      else
        let base = (case mem_cms c (cm_key cm) of None \<Rightarrow> cm | Some old \<Rightarrow> old);
            cm' = (f base)\<lparr>cm_Meta := (cm_Meta (f base))\<lparr>om_Name := om_Name (cm_Meta cm),
                     om_Namespace := om_Namespace (cm_Meta cm), om_ResourceVersion := mem_version c\<rparr>\<rparr>
        in if limit < cm_size cm' then (Inl too_large, c)
           else if \<not> valid_meta cm' then (Inl invalid, c)
           else (Inr cm', c\<lparr>mem_cms := (mem_cms c)(cm_key cm \<mapsto> cm')\<rparr>))"

definition mem_SetControllerReference :: "AgentPipeline \<Rightarrow> ConfigMap \<Rightarrow> api_error + ConfigMap" where
  "mem_SetControllerReference p cm =
    (if om_OwnerUIDs (cm_Meta cm) \<noteq> [] \<or> om_Namespace (cm_Meta cm) \<noteq> p_ns p
     then Inl \<lparr>err_IsNotFound = False, err_Text = ''cannot own''\<rparr>
     else Inr (cm\<lparr>cm_Meta := (cm_Meta cm)\<lparr>om_OwnerUIDs := om_OwnerUIDs (cm_Meta cm) @ [om_UID (ap_Meta p)]\<rparr>\<rparr>))"

definition mem_AddFinalizer :: "AgentPipeline \<Rightarrow> string \<Rightarrow> AgentPipeline" where
  "mem_AddFinalizer p f = (let fs = om_Finalizers (ap_Meta p) in
     p\<lparr>ap_Meta := (ap_Meta p)\<lparr>om_Finalizers := (if f \<in> set fs then fs else fs @ [f])\<rparr>\<rparr>)"

definition mem_RemoveFinalizer :: "AgentPipeline \<Rightarrow> string \<Rightarrow> AgentPipeline" where
  "mem_RemoveFinalizer p f =
     p\<lparr>ap_Meta := (ap_Meta p)\<lparr>om_Finalizers := filter (\<lambda>x. x \<noteq> f) (om_Finalizers (ap_Meta p))\<rparr>\<rparr>"

fun mem_SetStatusCondition :: "gotime \<Rightarrow> Condition list \<Rightarrow> Condition \<Rightarrow> Condition list" where
  "mem_SetStatusCondition t [] n = [n\<lparr>cond_LastTransitionTime := t\<rparr>]"
| "mem_SetStatusCondition t (c # cs) n =
     (if cond_Type c = cond_Type n
      then n\<lparr>cond_LastTransitionTime :=
               (if cond_Status c = cond_Status n then cond_LastTransitionTime c else t)\<rparr> # cs
      else c # mem_SetStatusCondition t cs n)"

definition mem_env ::
  "nat \<Rightarrow> ('r \<Rightarrow> RunRequest \<Rightarrow> (goerror + RunResult) \<times> 'r) \<Rightarrow> (mem, 'r) AgentPipelineReconciler" where
  "mem_env limit run = \<lparr>client_Get = mem_Get, client_GetConfigMap = mem_GetConfigMap,
     client_Update = mem_Update, client_StatusUpdate = mem_StatusUpdate,
     ctl_CreateOrUpdate = mem_CreateOrUpdate limit,
     ctl_SetControllerReference = mem_SetControllerReference,
     ctl_ContainsFinalizer = (\<lambda>p f. f \<in> set (om_Finalizers (ap_Meta p))),
     ctl_AddFinalizer = mem_AddFinalizer, ctl_RemoveFinalizer = mem_RemoveFinalizer,
     meta_SetStatusCondition = mem_SetStatusCondition, tmpl_Run = fragment_engine,
     Runner = \<lparr>ar_RunAgent = run, ar_CheckHealth = (\<lambda>r. (None, r))\<rparr>, wall_clock = (\<lambda>n. int n + 1), print_table = (\<lambda>_. True)\<rparr>"

lemmas mem_defs = mem_Get_def mem_GetConfigMap_def mem_Update_def mem_StatusUpdate_def
  mem_CreateOrUpdate_def mem_SetControllerReference_def mem_AddFinalizer_def
  mem_RemoveFinalizer_def mem_tick_def

lemma mem_tick_frame:
  "mem_tick c = (b, c') \<Longrightarrow> mem_pipes c' = mem_pipes c \<and> mem_cms c' = mem_cms c"
  by (auto simp: mem_tick_def split: list.splits)

lemma mem_tick_up: "mem_reject c = [] \<Longrightarrow> mem_tick c = (b, c') \<Longrightarrow> \<not> b \<and> mem_reject c' = []"
  by (auto simp: mem_tick_def)

text \<open>In good order: nothing to reject, and every object is filed under its own name and valid.\<close>

definition mem_up :: "mem \<Rightarrow> bool" where
  "mem_up c \<longleftrightarrow> mem_reject c = [] \<and> (\<forall>k p. mem_pipes c k = Some p \<longrightarrow>
     p_key p = k \<and> valid_AgentPipelineStatus (ap_Status p) \<and> 0 \<le> om_Generation (ap_Meta p)) \<and>
     (\<forall>k cm. mem_cms c k = Some cm \<longrightarrow> valid_meta cm)"

lemma mem_SetStatusCondition_types:
  "cond_Type ` set (mem_SetStatusCondition t cs n) = insert (cond_Type n) (cond_Type ` set cs)"
  by (induction cs) auto

lemma mem_SetStatusCondition_keys:
  "distinct (map cond_Type cs) \<Longrightarrow> distinct (map cond_Type (mem_SetStatusCondition t cs n))"
  by (induction cs) (auto simp: mem_SetStatusCondition_types)

lemma mem_tick_mem_up: "mem_up c \<Longrightarrow> mem_tick c = (b, c') \<Longrightarrow> \<not> b \<and> mem_up c'"
  using mem_tick_frame [of c b c'] mem_tick_up [of c b c'] by (simp add: mem_up_def)

interpretation mem: k8s_reliable "mem_env limit run" mem_pipes mem_cms mem_up limit
  for limit and run :: "'r \<Rightarrow> RunRequest \<Rightarrow> (goerror + RunResult) \<times> 'r"
proof (unfold_locales, goal_cases)
  case (1 c k p c')
  then show ?case by (auto simp: mem_env_def mem_Get_def snapshot_def split: option.splits if_splits)
next
  case (2 c k x c')
  then show ?case by (auto simp: mem_env_def mem_Get_def split: option.splits if_splits)
next
  case (3 c k y c')
  then show ?case by (auto simp: mem_env_def mem_GetConfigMap_def split: option.splits)
next
  case (4 c p p' c')
  then show ?case
    by (auto simp: mem_env_def mem_Update_def p_key_def Let_def
        split: prod.splits option.splits if_splits dest!: mem_tick_frame)
next
  case (5 c p e c')
  then show ?case
    by (auto simp: mem_env_def mem_Update_def Let_def
        split: prod.splits option.splits if_splits dest!: mem_tick_frame)
next
  case (6 c p p' c')
  then show ?case
    by (auto simp: mem_env_def mem_StatusUpdate_def p_key_def Let_def
        split: prod.splits option.splits if_splits dest!: mem_tick_frame)
next
  case (7 c p e c')
  then show ?case
    by (auto simp: mem_env_def mem_StatusUpdate_def Let_def
        split: prod.splits option.splits if_splits dest!: mem_tick_frame)
next
  case (8 c cm g cm' c')
  then show ?case
    by (auto simp: mem_env_def mem_CreateOrUpdate_def cm_key_def Let_def
        split: prod.splits option.splits if_splits dest!: mem_tick_frame)
next
  case (9 c cm g e c')
  then show ?case
    by (auto simp: mem_env_def mem_CreateOrUpdate_def Let_def
        split: prod.splits if_splits dest!: mem_tick_frame)
next
  case (10 p cm cm')
  then show ?case by (auto simp: mem_env_def mem_SetControllerReference_def cm_key_def split: if_splits)
next
  case (11 p f)
  show ?case by (simp add: mem_env_def)
next
  case (12 p f)
  show ?case
    by (rule exI [where x = "if f \<in> set (om_Finalizers (ap_Meta p)) then om_Finalizers (ap_Meta p)
        else om_Finalizers (ap_Meta p) @ [f]"])
      (auto simp: mem_env_def mem_AddFinalizer_def Let_def)
next
  case (13 p f)
  show ?case by (auto simp: mem_env_def mem_RemoveFinalizer_def)
next
  case (14 n t cs)
  show ?case by (induction cs) (auto simp: mem_env_def)
next
  case (15 z t cs n)
  then show ?case by (induction cs) (auto simp: mem_env_def split: if_splits)
next
  case (16 cs t n)
  then show ?case by (simp add: mem_env_def mem_SetStatusCondition_keys)
next
  case (17 c k p)
  then show ?case by (simp add: mem_env_def mem_Get_def mem_up_def)
next
  case (18 c k x c')
  then show ?case by (auto simp: mem_env_def mem_GetConfigMap_def not_found_def split: option.splits)
next
  case (19 c p q)
  obtain b d where t: "mem_tick c = (b, d)" by fastforce
  show ?case
    using 19 mem_tick_mem_up [OF 19(1) t] mem_tick_frame [OF t]
    by (auto simp: mem_env_def mem_Update_def t Let_def mem_up_def p_key_def)
next
  case (20 c p q)
  obtain b d where t: "mem_tick c = (b, d)" by fastforce
  show ?case
    using 20 mem_tick_mem_up [OF 20(1) t] mem_tick_frame [OF t]
    by (auto simp: mem_env_def mem_StatusUpdate_def t Let_def)
next
  case (21 c p u c')
  obtain b d where t: "mem_tick c = (b, d)" by fastforce
  show ?case
    using 21 mem_tick_mem_up [OF 21(1) t]
    by (auto simp: mem_env_def mem_StatusUpdate_def t Let_def mem_up_def p_key_def split: option.splits if_splits)
next
  case (22 c k p)
  then show ?case by (simp add: mem_up_def)
next
  case (23 c cm f)
  obtain b d where t: "mem_tick c = (b, d)" by fastforce
  show ?case
    using mem_tick_mem_up [OF 23(1) t] 23(2,3) mem_tick_frame [OF t]
    by (auto simp: mem_env_def mem_CreateOrUpdate_def t Let_def mem_up_def cm_size_def leD valid_meta_def split: option.splits)
next
  case (24 p cm)
  then show ?case by (simp add: mem_env_def mem_SetControllerReference_def)
qed

end
