(* ===== verification/Stage_Handler.thy ===== *)
theory Stage_Handler
  imports Operator_Env
begin

text \<open>
  The stage handler (\<open>internal/controller/stage_handler.go\<close>): rendering prompts,
  building the context of a stage from the outputs of the stages before it, storing outputs in
  ConfigMaps, and the functions that read and initialise stage statuses.

  A pointer to a stage's status is the index of the stage in \<open>status.stages\<close>. An
  index out of range is a Go run-time panic, which the model returns as a value
  (\<open>Inl\<close> of a message). The interface the reconciler uses for outputs is the locale
  \<open>output_store\<close>: what was stored is what is read back.
\<close>

section \<open>Constants and names\<close>

definition maxStatusOutputLen :: nat where "maxStatusOutputLen = 1024"
definition configMapDataKey :: string where "configMapDataKey = ''output''"

definition outputConfigMapName :: "string \<Rightarrow> string \<Rightarrow> string" where
  "outputConfigMapName pipelineName stageName = pipelineName @ ''-stage-'' @ stageName"

definition truncateOutput :: "string \<Rightarrow> string" where
  "truncateOutput output =
     (if length output \<le> maxStatusOutputLen then output
      else ''...'' @ drop (length output - maxStatusOutputLen + 3) output)"

section \<open>Prompts\<close>

definition RenderPrompt ::
  "('c,'r) recon \<Rightarrow> StageSpec \<Rightarrow> PipelineContext \<Rightarrow> goerror + string" where
  "RenderPrompt R stage pc =
     (let promptTmpl = sp_Prompt stage in
      if promptTmpl = '''' then
        (if pc_PreviousOutput pc \<noteq> '''' then Inr (pc_PreviousOutput pc)
         else Inr (''Execute agent '' @ ref_Name (sp_AgentRef stage)))
      else
        (case tmpl_Run R promptTmpl pc of
           ParseError e \<Rightarrow>
             Inl (Errorf (''parsing prompt template for stage '' @ quote (print_table R) (sp_Name stage)) (ErrText e))
         | ExecError e \<Rightarrow>
             Inl (Errorf (''executing prompt template for stage '' @ quote (print_table R) (sp_Name stage)) (ErrText e))
         | Rendered s \<Rightarrow> Inr s))"

section \<open>Outputs\<close>

text \<open>\<open>cm.Data[configMapDataKey]\<close>: the zero string when the key is missing.\<close>

definition cm_output :: "ConfigMap \<Rightarrow> string" where
  "cm_output cm = (case map_of (cm_Data cm) configMapDataKey of None \<Rightarrow> '''' | Some v \<Rightarrow> v)"

definition readConfigMapOutput ::
  "('c,'r) recon \<Rightarrow> ('c,'r) world \<Rightarrow> string \<Rightarrow> string \<Rightarrow> (goerror + string) \<times> ('c,'r) world" where
  "readConfigMapOutput R w namespace name =
     (case do_GetConfigMap R w \<lparr>nn_Namespace = namespace, nn_Name = name\<rparr> of
        (Inl e, w') \<Rightarrow> (Inl (ApiErr e), w')
      | (Inr cm, w') \<Rightarrow> (Inr (cm_output cm), w'))"

fun build_context_loop ::
  "('c,'r) recon \<Rightarrow> ('c,'r) world \<Rightarrow> AgentPipeline \<Rightarrow> StageSpec \<Rightarrow> nat \<Rightarrow> StageStatus list
   \<Rightarrow> PipelineContext \<Rightarrow> (goerror + PipelineContext) \<times> ('c,'r) world" where
  "build_context_loop R w pipeline currentStage i [] pc = (Inr pc, w)"
| "build_context_loop R w pipeline currentStage i (stageStatus # rest) pc =
     (if st_Phase stageStatus \<noteq> StageCompleted \<or> st_OutputRef stageStatus = ''''
      then build_context_loop R w pipeline currentStage (Suc i) rest pc
      else
        (case readConfigMapOutput R w (p_ns pipeline) (st_OutputRef stageStatus) of
           (Inl e, w') \<Rightarrow>
             (Inl (Errorf (''reading output for stage '' @ quote (print_table R) (st_Name stageStatus)) e), w')
         | (Inr output, w') \<Rightarrow>
             let pc = pc\<lparr>pc_stageOutputs :=
                   map_option (\<lambda>m. m(st_Name stageStatus \<mapsto> output)) (pc_stageOutputs pc)\<rparr>;
                 pc = (if Suc i < length (p_stages pipeline)
                          \<and> sp_Name (p_stages pipeline ! Suc i) = sp_Name currentStage
                       then pc\<lparr>pc_PreviousOutput := output\<rparr> else pc)
             in build_context_loop R w' pipeline currentStage (Suc i) rest pc))"

definition BuildPipelineContext ::
  "('c,'r) recon \<Rightarrow> ('c,'r) world \<Rightarrow> AgentPipeline \<Rightarrow> StageSpec
   \<Rightarrow> (goerror + PipelineContext) \<times> ('c,'r) world" where
  "BuildPipelineContext R w pipeline currentStage =
     build_context_loop R w pipeline currentStage 0 (p_statuses pipeline)
       \<lparr>pc_PreviousOutput = '''', pc_Inputs = sp_Inputs currentStage,
        pc_stageOutputs = Some Map.empty\<rparr>"

definition output_config_map :: "AgentPipeline \<Rightarrow> string \<Rightarrow> string \<Rightarrow> ConfigMap" where
  "output_config_map pipeline stageName output =
     \<lparr>cm_Meta = zero_ObjectMeta\<lparr>om_Name := outputConfigMapName (p_name pipeline) stageName,
        om_Namespace := p_ns pipeline,
        om_Labels := [(''app.kubernetes.io/managed-by'', ''agentpipeline-operator''),
                      (''aiops.cluster69.io/pipeline'', p_name pipeline),
                      (''aiops.cluster69.io/stage'', stageName)]\<rparr>,
      cm_Data = [(configMapDataKey, output)]\<rparr>"

definition StoreOutput ::
  "('c,'r) recon \<Rightarrow> ('c,'r) world \<Rightarrow> AgentPipeline \<Rightarrow> string \<Rightarrow> string
   \<Rightarrow> (goerror + string \<times> string) \<times> ('c,'r) world" where
  "StoreOutput R w pipeline stageName output =
     (let configMapName = outputConfigMapName (p_name pipeline) stageName;
          truncatedOutput = truncateOutput output;
          cm = output_config_map pipeline stageName output
      in case ctl_SetControllerReference R pipeline cm of
           Inl e \<Rightarrow>
             (Inl (Errorf (''setting owner reference on ConfigMap '' @ quote (print_table R) configMapName) (ApiErr e)), w)
         | Inr cm \<Rightarrow>
             (case do_CreateOrUpdate R w cm (\<lambda>c. c\<lparr>cm_Data := [(configMapDataKey, output)]\<rparr>) of
                (Inl e, w') \<Rightarrow>
                  (Inl (Errorf (''creating/updating ConfigMap '' @ quote (print_table R) configMapName) (ApiErr e)), w')
              | (Inr _, w') \<Rightarrow> (Inr (configMapName, truncatedOutput), w')))"

section \<open>Stage statuses\<close>

definition stage_done :: "StageStatus \<Rightarrow> bool" where
  "stage_done ss \<longleftrightarrow> st_Phase ss = StageCompleted \<or> st_Phase ss = StageSkipped"

fun find_current_loop ::
  "StageSpec list \<Rightarrow> nat \<Rightarrow> StageStatus list \<Rightarrow> string + (StageSpec \<times> nat) option" where
  "find_current_loop specs i [] = Inr None"
| "find_current_loop specs i (stageStatus # rest) =
     (if st_Phase stageStatus \<noteq> StageCompleted \<and> st_Phase stageStatus \<noteq> StageSkipped then
        (if i < length specs then Inr (Some (specs ! i, i)) else Inl ''index out of range'')
      else find_current_loop specs (Suc i) rest)"

definition FindCurrentStage :: "AgentPipeline \<Rightarrow> string + (StageSpec \<times> nat) option" where
  "FindCurrentStage pipeline = find_current_loop (p_stages pipeline) 0 (p_statuses pipeline)"

fun completed_stages :: "(string \<Rightarrow> bool) \<Rightarrow> StageStatus list \<Rightarrow> string \<Rightarrow> bool" where
  "completed_stages m [] = m"
| "completed_stages m (ss # rest) =
     completed_stages (if st_Phase ss = StageCompleted then m(st_Name ss := True) else m) rest"

fun all_completed :: "(string \<Rightarrow> bool) \<Rightarrow> string list \<Rightarrow> bool" where
  "all_completed m [] = True"
| "all_completed m (dep # rest) = (if \<not> m dep then False else all_completed m rest)"

definition AreDependenciesMet :: "AgentPipeline \<Rightarrow> StageSpec \<Rightarrow> bool" where
  "AreDependenciesMet pipeline stage =
     (if length (sp_DependsOn stage) = 0 then True
      else all_completed (completed_stages (\<lambda>_. False) (p_statuses pipeline)) (sp_DependsOn stage))"

definition InitStageStatuses :: "AgentPipeline \<Rightarrow> AgentPipeline" where
  "InitStageStatuses pipeline =
     set_status (\<lambda>s. s\<lparr>sts_Stages := map (\<lambda>stage.
       zero_StageStatus\<lparr>st_Name := sp_Name stage, st_Phase := StagePending\<rparr>) (p_stages pipeline)\<rparr>) pipeline"

definition GetEffectiveRetryPolicy :: "AgentPipeline \<Rightarrow> StageSpec \<Rightarrow> RetryPolicy" where
  "GetEffectiveRetryPolicy pipeline stage =
     (case sp_RetryPolicy stage of
        Some rp \<Rightarrow> rp
      | None \<Rightarrow> (case spec_RetryPolicy (ap_Spec pipeline) of
          Some rp \<Rightarrow> rp
        | None \<Rightarrow> \<lparr>rp_MaxRetries = 0, rp_Backoff = None\<rparr>))"

section \<open>Behaviour of the pure functions\<close>

lemma truncateOutput_length: "length (truncateOutput s) \<le> maxStatusOutputLen"
  by (simp add: truncateOutput_def maxStatusOutputLen_def)

lemma find_current_loop_eq:
  "find_current_loop specs i xs =
     (case find (\<lambda>j. \<not> stage_done (xs ! j)) [0..<length xs] of
        None \<Rightarrow> Inr None
      | Some j \<Rightarrow> if i + j < length specs then Inr (Some (specs ! (i + j), i + j)) else Inl ''index out of range'')"
proof (induction xs arbitrary: i)
  case (Cons x xs)
  have shift: "find (\<lambda>j. \<not> stage_done ((x # xs) ! j)) (map Suc ns)
      = map_option Suc (find (\<lambda>j. \<not> stage_done (xs ! j)) ns)" for ns
    by (induction ns) auto
  have "[0..<length (x # xs)] = 0 # map Suc [0..<length xs]"
    by (simp add: upt_conv_Cons map_Suc_upt del: upt_Suc)
  then show ?case
    using Cons.IH [of "Suc i"] shift by (auto simp: stage_done_def split: option.splits)
qed simp

text \<open>The current stage is the first one whose status is neither Completed nor Skipped.\<close>

lemma FindCurrentStage_None_iff:
  "FindCurrentStage p = Inr None \<longleftrightarrow> list_all stage_done (p_statuses p)"
  by (auto simp: FindCurrentStage_def find_current_loop_eq find_None_iff find_Some_iff list_all_length
      split: option.splits if_splits)

lemma FindCurrentStage_SomeD:
  assumes "FindCurrentStage p = Inr (Some (stage, i))"
  shows "i < length (p_statuses p)" "i < length (p_stages p)" "stage = p_stages p ! i"
    "\<not> stage_done (p_statuses p ! i)" "\<forall>j<i. stage_done (p_statuses p ! j)"
  using assms
  by (auto simp: FindCurrentStage_def find_current_loop_eq find_Some_iff split: option.splits if_splits)

lemma FindCurrentStage_no_panic:
  "length (p_statuses p) \<le> length (p_stages p) \<Longrightarrow> FindCurrentStage p \<noteq> Inl e"
  by (auto simp: FindCurrentStage_def find_current_loop_eq find_Some_iff split: option.splits)

lemma completed_stages_iff:
  "completed_stages m xs n \<longleftrightarrow> m n \<or> (\<exists>ss\<in>set xs. st_Name ss = n \<and> st_Phase ss = StageCompleted)"
  by (induction xs arbitrary: m) auto

lemma all_completed_iff: "all_completed m deps \<longleftrightarrow> (\<forall>d\<in>set deps. m d)"
  by (induction deps) auto

lemma AreDependenciesMet_iff:
  "AreDependenciesMet p stage \<longleftrightarrow>
     (\<forall>d\<in>set (sp_DependsOn stage). \<exists>ss\<in>set (p_statuses p). st_Name ss = d \<and> st_Phase ss = StageCompleted)"
  by (auto simp: AreDependenciesMet_def all_completed_iff completed_stages_iff)

lemma InitStageStatuses_simps [simp]:
  "ap_Meta (InitStageStatuses p) = ap_Meta p" "ap_Spec (InitStageStatuses p) = ap_Spec p"
  "p_phase (InitStageStatuses p) = p_phase p" "p_key (InitStageStatuses p) = p_key p"
  "sts_CurrentStage (ap_Status (InitStageStatuses p)) = sts_CurrentStage (ap_Status p)"
  "sts_StartedAt (ap_Status (InitStageStatuses p)) = sts_StartedAt (ap_Status p)"
  "sts_CompletedAt (ap_Status (InitStageStatuses p)) = sts_CompletedAt (ap_Status p)"
  "sts_Conditions (ap_Status (InitStageStatuses p)) = sts_Conditions (ap_Status p)"
  "p_statuses (InitStageStatuses p) = map (\<lambda>stage.
     zero_StageStatus\<lparr>st_Name := sp_Name stage, st_Phase := StagePending\<rparr>) (p_stages p)"
  by (simp_all add: InitStageStatuses_def)

section \<open>Effects on the world\<close>

text \<open>Reading and storing touch neither the runner nor the call log, nor the events or the clock.\<close>

definition same_run :: "('c,'r) world \<Rightarrow> ('c,'r) world \<Rightarrow> bool" where
  "same_run w w' \<longleftrightarrow> w_runner w' = w_runner w \<and> w_calls w' = w_calls w
     \<and> w_events w' = w_events w \<and> w_clock w' = w_clock w"

lemma same_run_refl [simp]: "same_run w w"
  by (simp add: same_run_def)

lemma same_run_trans: "same_run a b \<Longrightarrow> same_run b c \<Longrightarrow> same_run a c"
  by (simp add: same_run_def)

lemma do_GetConfigMap_same_run [frame]: "do_GetConfigMap R w k = (x, w') \<Longrightarrow> same_run w w'"
  by (auto simp: do_GetConfigMap_def same_run_def split: prod.splits)

lemma readConfigMapOutput_same_run [frame]:
  "readConfigMapOutput R w ns n = (x, w') \<Longrightarrow> same_run w w'"
  by (auto simp: readConfigMapOutput_def split: prod.splits sum.splits dest: do_GetConfigMap_same_run)

lemma build_context_loop_same_run:
  "build_context_loop R w p cur i xs pc = (x, w') \<Longrightarrow> same_run w w'"
proof (induction xs arbitrary: w i pc)
  case (Cons a xs)
  show ?case
  proof (cases "st_Phase a \<noteq> StageCompleted \<or> st_OutputRef a = ''''")
    case True
    with Cons show ?thesis by auto
  next
    case False
    obtain y v where y: "readConfigMapOutput R w (p_ns p) (st_OutputRef a) = (y, v)" by fastforce
    then have "same_run w v" by (rule readConfigMapOutput_same_run)
    moreover have "same_run v w'"
      using Cons False y by (cases y) (auto simp: Let_def)
    ultimately show ?thesis by (rule same_run_trans)
  qed
qed simp

lemma BuildPipelineContext_same_run [frame]:
  "BuildPipelineContext R w p cur = (x, w') \<Longrightarrow> same_run w w'"
  by (simp add: BuildPipelineContext_def build_context_loop_same_run)

lemma StoreOutput_same_run [frame]: "StoreOutput R w p s out = (x, w') \<Longrightarrow> same_run w w'"
  by (auto simp: StoreOutput_def do_CreateOrUpdate_def same_run_def Let_def
      split: sum.splits prod.splits)

section \<open>The interface to stored outputs\<close>

text \<open>
  \<open>holds w ns name out\<close>: the ConfigMap \<open>name\<close> of namespace
  \<open>ns\<close> exists and holds the output \<open>out\<close>.
\<close>

locale output_store =
  fixes store :: "'w \<Rightarrow> AgentPipeline \<Rightarrow> string \<Rightarrow> string \<Rightarrow> (goerror + string \<times> string) \<times> 'w"
    and read :: "'w \<Rightarrow> string \<Rightarrow> string \<Rightarrow> (goerror + string) \<times> 'w"
    and holds :: "'w \<Rightarrow> string \<Rightarrow> string \<Rightarrow> string \<Rightarrow> bool"
    and fresh_reads :: "'w \<Rightarrow> bool"
  assumes store_ok: "store w p s out = (Inr (n, t), w') \<Longrightarrow>
      n = outputConfigMapName (p_name p) s \<and> t = truncateOutput out \<and> holds w' (p_ns p) n out"
    and store_other: "store w p s out = (x, w') \<Longrightarrow>
      (ns, m) \<noteq> (p_ns p, outputConfigMapName (p_name p) s) \<Longrightarrow> holds w' ns m = holds w ns m"
    and store_err: "store w p s out = (Inl e, w') \<Longrightarrow> holds w' = holds w"
    and read_ok: "fresh_reads w \<Longrightarrow> read w ns m = (Inr out, w') \<Longrightarrow> holds w ns m out"
    and read_keeps: "read w ns m = (y, w') \<Longrightarrow> holds w' = holds w"
    and holds_fun: "holds w ns m a \<Longrightarrow> holds w ns m b \<Longrightarrow> a = b"
begin

lemma read_after_store:
  assumes "store w p s out = (Inr (n, t), w')" and "fresh_reads w'" and "read w' (p_ns p) n = (Inr got, w'')"
  shows "got = out"
  using store_ok [OF assms(1)] read_ok [OF assms(2,3)] by (metis holds_fun)

lemma read_after_other_store:
  assumes "holds w (p_ns p) (outputConfigMapName (p_name p) s) out" and "s \<noteq> s'"
    and "store w p s' out' = (x, w')"
  shows "holds w' (p_ns p) (outputConfigMapName (p_name p) s) out"
  using assms store_other [OF assms(3), of "p_ns p" "outputConfigMapName (p_name p) s"]
  by (simp add: outputConfigMapName_def)

end

text \<open>
  Every API server that meets its contract makes the handler an output store, whose reads are fresh
  while the API server is in good order.
\<close>

definition holds_output ::
  "('c \<Rightarrow> NamespacedName \<Rightarrow> ConfigMap option) \<Rightarrow> ('c,'r) world \<Rightarrow> string \<Rightarrow> string \<Rightarrow> string \<Rightarrow> bool" where
  "holds_output cms w ns n out \<longleftrightarrow>
     (case cms (w_cluster w) \<lparr>nn_Namespace = ns, nn_Name = n\<rparr> of
        None \<Rightarrow> False | Some cm \<Rightarrow> cm_output cm = out)"

context k8s_cluster
begin

lemma readConfigMapOutput_cases:
  assumes "readConfigMapOutput R w ns n = (x, w')"
  shows "stored (w_cluster w') = stored (w_cluster w)" "stored_cm (w_cluster w') = stored_cm (w_cluster w)"
  using assms
  by (auto simp: readConfigMapOutput_def do_GetConfigMap_def
      split: prod.splits sum.splits dest: GetConfigMap_frame)

lemma StoreOutput_keeps_pipelines:
  "StoreOutput R w p s out = (x, w') \<Longrightarrow> stored (w_cluster w') = stored (w_cluster w)"
  by (auto simp: StoreOutput_def do_CreateOrUpdate_def Let_def split: sum.splits prod.splits
      dest: CreateOrUpdate_ok CreateOrUpdate_err)

lemma StoreOutput_Inl: "StoreOutput R w p s out = (Inl e, w') \<Longrightarrow> stored_cm (w_cluster w') = stored_cm (w_cluster w)"
  by (auto simp: StoreOutput_def do_CreateOrUpdate_def Let_def split: sum.splits prod.splits
      dest: CreateOrUpdate_err)

lemma StoreOutput_Inr:
  assumes "StoreOutput R w p s out = (Inr (n, t), w')"
  shows "n = outputConfigMapName (p_name p) s" "t = truncateOutput out"
    "\<exists>cm. stored_cm (w_cluster w') = (stored_cm (w_cluster w))(\<lparr>nn_Namespace = p_ns p, nn_Name = n\<rparr> \<mapsto> cm)
       \<and> cm_output cm = out"
proof -
  obtain cm cm' c where n: "n = outputConfigMapName (p_name p) s" and t: "t = truncateOutput out"
    and ref: "ctl_SetControllerReference R p (output_config_map p s out) = Inr cm"
    and cu: "ctl_CreateOrUpdate R (w_cluster w) cm (\<lambda>c. c\<lparr>cm_Data := [(configMapDataKey, out)]\<rparr>) = (Inr cm', c)"
    and w': "w' = w\<lparr>w_cluster := c\<rparr>"
    using assms by (auto simp: StoreOutput_def do_CreateOrUpdate_def Let_def split: sum.splits prod.splits)
  show "n = outputConfigMapName (p_name p) s" "t = truncateOutput out" by (fact n t)+
  have "cm_key cm = \<lparr>nn_Namespace = p_ns p, nn_Name = n\<rparr>"
    using SetControllerReference_ok [OF ref] by (simp add: n output_config_map_def cm_key_def)
  then show "\<exists>cm. stored_cm (w_cluster w') = (stored_cm (w_cluster w))(\<lparr>nn_Namespace = p_ns p, nn_Name = n\<rparr> \<mapsto> cm)
       \<and> cm_output cm = out"
    using CreateOrUpdate_ok [OF cu]
    by (intro exI [where x = cm']) (simp add: w' cm_output_def)
qed

end

text \<open>The output stored as a ConfigMap.\<close>

definition output_at ::
  "('c \<Rightarrow> NamespacedName \<Rightarrow> ConfigMap option) \<Rightarrow> 'c \<Rightarrow> string \<Rightarrow> string \<Rightarrow> string option" where
  "output_at cms c ns n = map_option cm_output (cms c \<lparr>nn_Namespace = ns, nn_Name = n\<rparr>)"

context k8s_reliable
begin

text \<open>A read of an output in good order: it fails exactly when there is no such ConfigMap.\<close>

lemma readConfigMapOutput_reliable:
  assumes "up (w_cluster w)" and "readConfigMapOutput R w ns n = (x, v)"
  shows "case output_at stored_cm (w_cluster w) ns n of None \<Rightarrow> (\<exists>e. x = Inl e) | Some out \<Rightarrow> x = Inr out"
proof -
  obtain y c where y: "client_GetConfigMap R (w_cluster w) \<lparr>nn_Namespace = ns, nn_Name = n\<rparr> = (y, c)" by fastforce
  have "x = (case y of Inl e \<Rightarrow> Inl (ApiErr e) | Inr cm \<Rightarrow> Inr (cm_output cm))"
    using assms(2) y by (auto simp: readConfigMapOutput_def do_GetConfigMap_def split: sum.splits)
  then show ?thesis using conjunct2 [OF up_GetConfigMap [OF assms(1) y]] by (auto simp: output_at_def split: option.splits)
qed

end

sublocale k8s_reliable \<subseteq> outputs: output_store "StoreOutput R" "readConfigMapOutput R" "holds_output stored_cm" "\<lambda>w. up (w_cluster w)"
proof (unfold_locales, goal_cases)
  case (1 w p s out n t w')
  show ?case using StoreOutput_Inr [OF 1] by (auto simp: holds_output_def)
next
  case (2 w p s out x w' ns m)
  then show ?case
  proof (cases x)
    case (Inl e)
    then show ?thesis using StoreOutput_Inl 2 by (fastforce simp: holds_output_def)
  next
    case (Inr nt)
    then obtain n t where "StoreOutput R w p s out = (Inr (n, t), w')" using 2 by (cases nt) auto
    then show ?thesis using StoreOutput_Inr 2(2) by (fastforce simp: holds_output_def)
  qed
next
  case (3 w p s out e w')
  then show ?case using StoreOutput_Inl by (fastforce simp: holds_output_def)
next
  case (4 w ns m out w')
  then show ?case using readConfigMapOutput_reliable [of w ns m] by (auto simp: holds_output_def output_at_def split: option.splits)
next
  case (5 w ns m y w')
  then show ?case using readConfigMapOutput_cases(2) by (fastforce simp: holds_output_def)
next
  case (6 w ns m a b)
  then show ?case by (auto simp: holds_output_def split: option.splits)
qed

end
