(* ===== verification/Reconciler.thy ===== *)
theory Reconciler
  imports Stage_Handler
begin

text \<open>
  The reconciler (\<open>internal/controller/agentpipeline_controller.go\<close>): one definition per
  method, in the order of the file's calls. Every method takes the reconciler, the world and the
  pipeline object in memory and returns its outcome and the world after it. The outcome is
  what \<open>Reconcile\<close> gives controller-runtime: a result with an optional error, or a run-time
  panic. Log lines are not modelled; recorded events are.

  A successful update of the status refreshes the object in memory from the answer. What a method
  reads of it afterwards (the number of stages, the status of the stage it has just set) is the
  same in both by the contract of the API server, so the methods go on with the object they sent.
\<close>

section \<open>Outcomes\<close>

record ctrl_Result =
  ctl_Requeue :: bool
  ctl_RequeueAfter :: duration

datatype outcome = Ret ctrl_Result "goerror option" | Panic string

abbreviation no_requeue :: ctrl_Result where
  "no_requeue \<equiv> \<lparr>ctl_Requeue = False, ctl_RequeueAfter = 0\<rparr>"

abbreviation requeue_now :: ctrl_Result where
  "requeue_now \<equiv> \<lparr>ctl_Requeue = True, ctl_RequeueAfter = 0\<rparr>"

abbreviation requeue_after :: "duration \<Rightarrow> ctrl_Result" where
  "requeue_after d \<equiv> \<lparr>ctl_Requeue = False, ctl_RequeueAfter = d\<rparr>"

definition finalizerName :: string where
  "finalizerName = ''aiops.cluster69.io/pipeline-cleanup''"

definition requeueDelay :: duration where "requeueDelay = 10 * Second"

text \<open>\<open>fmt.Errorf("<msg>: %w", err)\<close> as the error a method returns.\<close>

definition ret_err :: "string \<Rightarrow> api_error \<Rightarrow> outcome" where
  "ret_err msg e = Ret no_requeue (Some (Errorf msg (ApiErr e)))"

text \<open>\<open>meta.SetStatusCondition\<close> with the \<open>Ready\<close> condition, which reads the clock once.\<close>

definition set_ready ::
  "('c,'r) recon \<Rightarrow> ('c,'r) world \<Rightarrow> AgentPipeline \<Rightarrow> string \<Rightarrow> string \<Rightarrow> string
   \<Rightarrow> AgentPipeline \<times> ('c,'r) world" where
  "set_ready R w pipeline status reason msg =
     (let (t, w) = metav1_Now R w
      in (set_status (\<lambda>s. s\<lparr>sts_Conditions := meta_SetStatusCondition R t (sts_Conditions s)
            \<lparr>cond_Type = ''Ready'', cond_Status = status,
             cond_ObservedGeneration = om_Generation (ap_Meta pipeline),
             cond_LastTransitionTime = 0, cond_Reason = reason, cond_Message = msg\<rparr>\<rparr>) pipeline, w))"

section \<open>Ending a pipeline\<close>

definition completePipeline ::
  "('c,'r) recon \<Rightarrow> ('c,'r) world \<Rightarrow> AgentPipeline \<Rightarrow> outcome \<times> ('c,'r) world" where
  "completePipeline R w pipeline =
     (let (now, w) = metav1_Now R w;
          pipeline = set_status (\<lambda>s. s\<lparr>sts_Phase := PhaseCompleted, sts_CompletedAt := Some now,
                       sts_CurrentStage := ''''\<rparr>) pipeline;
          (pipeline, w) = set_ready R w pipeline ''True'' ''PipelineCompleted''
                       ''All stages completed successfully''
      in case do_StatusUpdate R w pipeline of
           (Inl e, w) \<Rightarrow> (ret_err ''updating pipeline to Completed'' e, w)
         | (Inr _, w) \<Rightarrow>
             (Ret no_requeue None,
              Recorder_Event w EventTypeNormal ''PipelineCompleted''
                (''Pipeline completed all '' @ show_int (int (length (p_stages pipeline))) @ '' stages'')))"

definition failPipeline ::
  "('c,'r) recon \<Rightarrow> ('c,'r) world \<Rightarrow> AgentPipeline \<Rightarrow> string \<Rightarrow> outcome \<times> ('c,'r) world" where
  "failPipeline R w pipeline reason =
     (let (now, w) = metav1_Now R w;
          pipeline = set_status (\<lambda>s. s\<lparr>sts_Phase := PhaseFailed, sts_CompletedAt := Some now\<rparr>) pipeline;
          (pipeline, w) = set_ready R w pipeline ''False'' ''PipelineFailed'' reason
      in case do_StatusUpdate R w pipeline of
           (Inl e, w) \<Rightarrow> (ret_err ''updating pipeline to Failed'' e, w)
         | (Inr _, w) \<Rightarrow>
             (Ret no_requeue None, Recorder_Event w EventTypeWarning ''PipelineFailed'' reason))"

section \<open>Ending a stage\<close>

definition failStage ::
  "('c,'r) recon \<Rightarrow> ('c,'r) world \<Rightarrow> AgentPipeline \<Rightarrow> nat \<Rightarrow> string \<Rightarrow> outcome \<times> ('c,'r) world" where
  "failStage R w pipeline i errMsg =
     (let (now, w) = metav1_Now R w;
          pipeline = set_stage i (\<lambda>s. s\<lparr>st_Phase := StageFailed, st_CompletedAt := Some now,
                       st_Error := errMsg\<rparr>) pipeline;
          q = quote (print_table R) (st_Name (p_statuses pipeline ! i))
      in case do_StatusUpdate R w pipeline of
           (Inl e, w) \<Rightarrow> (ret_err (''updating stage '' @ q @ '' to Failed'') e, w)
         | (Inr _, w) \<Rightarrow>
             (Ret requeue_now None,
              Recorder_Event w EventTypeWarning ''StageFailed'' (''Stage '' @ q @ '' failed: '' @ errMsg)))"

definition completeStage ::
  "('c,'r) recon \<Rightarrow> ('c,'r) world \<Rightarrow> AgentPipeline \<Rightarrow> StageSpec \<Rightarrow> nat \<Rightarrow> RunResult
   \<Rightarrow> outcome \<times> ('c,'r) world" where
  "completeStage R w pipeline stageSpec i result =
     (let q = quote (print_table R) (sp_Name stageSpec) in
      case StoreOutput R w pipeline (sp_Name stageSpec) (res_Output result) of
        (Inl e, w) \<Rightarrow> (Ret no_requeue (Some (Errorf (''storing output for stage '' @ q) e)), w)
      | (Inr (configMapName, truncatedOutput), w) \<Rightarrow>
          let (now, w) = metav1_Now R w;
              pipeline = set_stage i (\<lambda>s. s\<lparr>st_Phase := StageCompleted, st_CompletedAt := Some now,
                           st_Output := truncatedOutput, st_OutputRef := configMapName,
                           st_TaskID := res_TaskID result\<rparr>) pipeline
          in case do_StatusUpdate R w pipeline of
               (Inl e, w) \<Rightarrow> (ret_err (''updating stage '' @ q @ '' to Completed'') e, w)
             | (Inr _, w) \<Rightarrow>
                 (Ret requeue_now None,
                  Recorder_Event w EventTypeNormal ''StageCompleted''
                    (''Stage '' @ q @ '' completed in ''
                     @ Duration_String (Duration_Round (res_Duration result) Second))))"

definition completeStageFromOutput ::
  "('c,'r) recon \<Rightarrow> ('c,'r) world \<Rightarrow> AgentPipeline \<Rightarrow> StageSpec \<Rightarrow> nat \<Rightarrow> string
   \<Rightarrow> outcome \<times> ('c,'r) world" where
  "completeStageFromOutput R w pipeline stageSpec i out =
     (let q = quote (print_table R) (sp_Name stageSpec);
          (now, w) = metav1_Now R w;
          pipeline = set_stage i (\<lambda>s. s\<lparr>st_Phase := StageCompleted, st_CompletedAt := Some now,
                       st_Output := truncateOutput out,
                       st_OutputRef := outputConfigMapName (p_name pipeline) (sp_Name stageSpec)\<rparr>) pipeline
      in case do_StatusUpdate R w pipeline of
           (Inl e, w) \<Rightarrow> (ret_err (''recovering stage '' @ q @ '' to Completed'') e, w)
         | (Inr _, w) \<Rightarrow>
             (Ret requeue_now None,
              Recorder_Event w EventTypeNormal ''StageCompleted'' (''Stage '' @ q @ '' completed (recovered)'')))"

definition retryStage ::
  "('c,'r) recon \<Rightarrow> ('c,'r) world \<Rightarrow> AgentPipeline \<Rightarrow> StageSpec \<Rightarrow> nat \<Rightarrow> RetryPolicy
   \<Rightarrow> outcome \<times> ('c,'r) world" where
  "retryStage R w pipeline stageSpec i retryPolicy =
     (let q = quote (print_table R) (sp_Name stageSpec);
          pipeline = set_stage i (\<lambda>s. s\<lparr>st_RetryCount := st_RetryCount s + 1, st_Phase := StagePending,
                       st_Error := '''', st_CompletedAt := None\<rparr>) pipeline
      in case do_StatusUpdate R w pipeline of
           (Inl e, w) \<Rightarrow> (ret_err (''updating stage '' @ q @ '' for retry'') e, w)
         | (Inr _, w) \<Rightarrow>
             let w = Recorder_Event w EventTypeNormal ''StageRetry''
                   (''Retrying stage '' @ q @ '' (attempt ''
                    @ show_int (sint (st_RetryCount (p_statuses pipeline ! i))) @ ''/''
                    @ show_int (sint (rp_MaxRetries retryPolicy)) @ '')'');
                 backoff = (case rp_Backoff retryPolicy of None \<Rightarrow> 30 * Second | Some d \<Rightarrow> d)
             in (Ret (requeue_after backoff) None, w))"

section \<open>Starting a stage\<close>

text \<open>The request \<open>startStage\<close> sends: the agent's namespace and the timeout have defaults.\<close>

definition run_request :: "AgentPipeline \<Rightarrow> StageSpec \<Rightarrow> string \<Rightarrow> RunRequest" where
  "run_request pipeline stageSpec prompt =
     \<lparr>req_AgentName = ref_Name (sp_AgentRef stageSpec),
      req_Namespace = (if ref_Namespace (sp_AgentRef stageSpec) = '''' then p_ns pipeline
                       else ref_Namespace (sp_AgentRef stageSpec)),
      req_Prompt = prompt,
      req_Timeout = (case sp_Timeout stageSpec of None \<Rightarrow> 5 * Minute | Some d \<Rightarrow> d)\<rparr>"

definition finish_run ::
  "('c,'r) recon \<Rightarrow> ('c,'r) world \<Rightarrow> AgentPipeline \<Rightarrow> StageSpec \<Rightarrow> nat \<Rightarrow> goerror + RunResult
   \<Rightarrow> outcome \<times> ('c,'r) world" where
  "finish_run R w pipeline stageSpec i x =
     (case x of
        Inl err \<Rightarrow> failStage R w pipeline i (''invoking agent: '' @ error_text err)
      | Inr result \<Rightarrow>
          if res_Status result = RunStatusCompleted then completeStage R w pipeline stageSpec i result
          else if res_Status result = RunStatusFailed then failStage R w pipeline i (res_Error result)
          else if res_Status result = RunStatusTimedOut then failStage R w pipeline i ''agent execution timed out''
          else failStage R w pipeline i (''unexpected run status: '' @ res_Status result))"

definition startStage ::
  "('c,'r) recon \<Rightarrow> ('c,'r) world \<Rightarrow> AgentPipeline \<Rightarrow> StageSpec \<Rightarrow> nat \<Rightarrow> outcome \<times> ('c,'r) world" where
  "startStage R w pipeline stageSpec i =
     (case readConfigMapOutput R w (p_ns pipeline)
             (outputConfigMapName (p_name pipeline) (sp_Name stageSpec)) of
        (Inr existingOutput, w) \<Rightarrow> completeStageFromOutput R w pipeline stageSpec i existingOutput
      | (Inl _, w) \<Rightarrow>
          let (now, w) = metav1_Now R w;
              pipeline = set_stage i (\<lambda>s. s\<lparr>st_Phase := StageRunning, st_StartedAt := Some now\<rparr>) pipeline;
              pipeline = set_status (\<lambda>s. s\<lparr>sts_CurrentStage := sp_Name stageSpec\<rparr>) pipeline;
              w = Recorder_Event w EventTypeNormal ''StageStarted''
                    (''Stage '' @ quote (print_table R) (sp_Name stageSpec) @ '' started (agent: ''
                     @ ref_Name (sp_AgentRef stageSpec) @ '')'')
          in case BuildPipelineContext R w pipeline stageSpec of
               (Inl err, w) \<Rightarrow>
                 failStage R w pipeline i (''building pipeline context: '' @ error_text err)
             | (Inr pipelineCtx, w) \<Rightarrow>
                 (case RenderPrompt R stageSpec pipelineCtx of
                    Inl err \<Rightarrow> failStage R w pipeline i (''rendering prompt: '' @ error_text err)
                  | Inr prompt \<Rightarrow>
                      (case do_RunAgent R w (run_request pipeline stageSpec prompt) of
                         (x, w) \<Rightarrow> finish_run R w pipeline stageSpec i x)))"

section \<open>The state machine\<close>

definition handleDeletion ::
  "('c,'r) recon \<Rightarrow> ('c,'r) world \<Rightarrow> AgentPipeline \<Rightarrow> outcome \<times> ('c,'r) world" where
  "handleDeletion R w pipeline =
     (if \<not> ctl_ContainsFinalizer R pipeline finalizerName then (Ret no_requeue None, w)
      else
        (case do_Update R w (ctl_RemoveFinalizer R pipeline finalizerName) of
           (Inl e, w) \<Rightarrow> (ret_err ''removing finalizer'' e, w)
         | (Inr _, w) \<Rightarrow> (Ret no_requeue None, w)))"

definition handlePending ::
  "('c,'r) recon \<Rightarrow> ('c,'r) world \<Rightarrow> AgentPipeline \<Rightarrow> outcome \<times> ('c,'r) world" where
  "handlePending R w pipeline =
     (if \<not> ctl_ContainsFinalizer R pipeline finalizerName then
        (case do_Update R w (ctl_AddFinalizer R pipeline finalizerName) of
           (Inl e, w) \<Rightarrow> (ret_err ''adding finalizer'' e, w)
         | (Inr _, w) \<Rightarrow> (Ret requeue_now None, w))
      else if length (p_stages pipeline) = 0 then failPipeline R w pipeline ''no stages defined''
      else
        let (now, w) = metav1_Now R w;
            pipeline = set_status (\<lambda>s. s\<lparr>sts_Phase := PhaseRunning, sts_StartedAt := Some now,
                         sts_CurrentStage := sp_Name (p_stages pipeline ! 0)\<rparr>) pipeline;
            pipeline = InitStageStatuses pipeline;
            (pipeline, w) = set_ready R w pipeline ''False'' ''PipelineStarted'' ''Pipeline execution started''
        in case do_StatusUpdate R w pipeline of
             (Inl e, w) \<Rightarrow> (ret_err ''updating status to Running'' e, w)
           | (Inr _, w) \<Rightarrow>
               (Ret requeue_now None,
                Recorder_Event w EventTypeNormal ''PipelineStarted''
                  (''Pipeline started with '' @ show_int (int (length (p_stages pipeline))) @ '' stages'')))"

definition handleRunning ::
  "('c,'r) recon \<Rightarrow> ('c,'r) world \<Rightarrow> AgentPipeline \<Rightarrow> outcome \<times> ('c,'r) world" where
  "handleRunning R w pipeline =
     (case FindCurrentStage pipeline of
        Inl panic \<Rightarrow> (Panic panic, w)
      | Inr None \<Rightarrow> completePipeline R w pipeline
      | Inr (Some (stageSpec, i)) \<Rightarrow>
          if \<not> AreDependenciesMet pipeline stageSpec then (Ret (requeue_after requeueDelay) None, w)
          else
            let stageStatus = p_statuses pipeline ! i in
            if st_Phase stageStatus = StagePending then startStage R w pipeline stageSpec i
            else if st_Phase stageStatus = StageFailed then
              (let retryPolicy = GetEffectiveRetryPolicy pipeline stageSpec in
               if sint (st_RetryCount stageStatus) < sint (rp_MaxRetries retryPolicy)
               then retryStage R w pipeline stageSpec i retryPolicy
               else failPipeline R w pipeline
                 (''stage '' @ quote (print_table R) (sp_Name stageSpec) @ '' failed after ''
                  @ show_int (sint (st_RetryCount stageStatus)) @ '' retries: '' @ st_Error stageStatus))
            else (Ret (requeue_after requeueDelay) None, w))"

definition Reconcile ::
  "('c,'r) recon \<Rightarrow> ('c,'r) world \<Rightarrow> NamespacedName \<Rightarrow> outcome \<times> ('c,'r) world" where
  "Reconcile R w req =
     (case do_Get R w req of
        (Inl err, w) \<Rightarrow>
          if err_IsNotFound err then (Ret no_requeue None, w)
          else (Ret no_requeue (Some (ApiErr err)), w)
      | (Inr pipeline, w) \<Rightarrow>
          if \<not> Time_IsZero (om_DeletionTimestamp (ap_Meta pipeline)) then handleDeletion R w pipeline
          else if p_phase pipeline = '''' \<or> p_phase pipeline = PhasePending then handlePending R w pipeline
          else if p_phase pipeline = PhaseRunning then handleRunning R w pipeline
          else if p_phase pipeline = PhaseCompleted \<or> p_phase pipeline = PhaseFailed
          then (Ret no_requeue None, w)
          else (Ret no_requeue None, w))"

end
