(* ===== verification/Pipeline_Steps.thy ===== *)
theory Pipeline_Steps
  imports Reconciler
begin

text \<open>
  What one pass of the reconciler does to the stored pipeline. \<open>status_step p s\<close> is a
  relation with one rule per status write in the code: \<open>s\<close> is a status the reconciler
  may store for a pipeline stored as \<open>p\<close>. The main lemma, proved once by going
  through the handlers for every answer the API server and the runner can give, is that a pass
  over a pipeline that is not being deleted either leaves the stored objects alone, or adds the
  finalizer, or performs exactly one such step. Later theories reason about the relation only.
\<close>

section \<open>The step relation\<close>

definition ready_is :: "Condition list \<Rightarrow> string \<Rightarrow> string \<Rightarrow> string \<Rightarrow> bool" where
  "ready_is cs status reason msg \<longleftrightarrow>
     (case find (\<lambda>x. cond_Type x = ''Ready'') cs of
        None \<Rightarrow> False
      | Some x \<Rightarrow> cond_Status x = status \<and> cond_Reason x = reason \<and> cond_Message x = msg)"

text \<open>
  The conditions \<open>cs\<close> are those of \<open>p\<close> with a new \<open>Ready\<close>
  condition for its current generation.
\<close>

definition sets_ready :: "AgentPipeline \<Rightarrow> Condition list \<Rightarrow> string \<Rightarrow> string \<Rightarrow> string \<Rightarrow> bool" where
  "sets_ready p cs status reason msg \<longleftrightarrow> ready_is cs status reason msg \<and>
     (\<forall>c\<in>set cs. c \<in> set (sts_Conditions (ap_Status p)) \<or> cond_Type c = ''Ready'' \<and> cond_Status c = status \<and>
        cond_Reason c = reason \<and> cond_Message c = msg \<and> cond_ObservedGeneration c = om_Generation (ap_Meta p)) \<and>
     (distinct (map cond_Type (sts_Conditions (ap_Status p))) \<longrightarrow> distinct (map cond_Type cs))"

lemma sets_ready_is: "sets_ready p cs status reason msg \<Longrightarrow> ready_is cs status reason msg"
  by (simp add: sets_ready_def)

text \<open>What \<open>handleRunning\<close> gives as the reason when a stage has used up its retries.\<close>

definition failure_text :: "(nat \<Rightarrow> bool) \<Rightarrow> StageSpec \<Rightarrow> StageStatus \<Rightarrow> string" where
  "failure_text tbl stage s = ''stage '' @ quote tbl (sp_Name stage) @ '' failed after ''
     @ show_int (sint (st_RetryCount s)) @ '' retries: '' @ st_Error s"

abbreviation cur_status :: "AgentPipeline \<Rightarrow> nat \<Rightarrow> StageStatus" where
  "cur_status p i \<equiv> p_statuses p ! i"

text \<open>The stage the reconciler works on: the first unfinished one, with its dependencies met.\<close>

definition working_on :: "AgentPipeline \<Rightarrow> StageSpec \<Rightarrow> nat \<Rightarrow> bool" where
  "working_on p stage i \<longleftrightarrow> p_phase p = PhaseRunning \<and> FindCurrentStage p = Inr (Some (stage, i))
     \<and> AreDependenciesMet p stage"

definition retries_left :: "AgentPipeline \<Rightarrow> StageSpec \<Rightarrow> nat \<Rightarrow> bool" where
  "retries_left p stage i \<longleftrightarrow>
     sint (st_RetryCount (cur_status p i)) < sint (rp_MaxRetries (GetEffectiveRetryPolicy p stage))"

inductive status_step :: "AgentPipeline \<Rightarrow> AgentPipelineStatus \<Rightarrow> bool" for p :: AgentPipeline where
  no_stages:
    "p_phase p = '''' \<or> p_phase p = PhasePending \<Longrightarrow> p_stages p = [] \<Longrightarrow>
     sets_ready p cs ''False'' ''PipelineFailed'' ''no stages defined'' \<Longrightarrow>
     status_step p ((ap_Status p)\<lparr>sts_Phase := PhaseFailed, sts_CompletedAt := Some t, sts_Conditions := cs\<rparr>)"
| started:
    "p_phase p = '''' \<or> p_phase p = PhasePending \<Longrightarrow> p_stages p \<noteq> [] \<Longrightarrow>
     sets_ready p cs ''False'' ''PipelineStarted'' ''Pipeline execution started'' \<Longrightarrow>
     status_step p ((ap_Status p)\<lparr>sts_Phase := PhaseRunning, sts_StartedAt := Some t,
       sts_CurrentStage := sp_Name (p_stages p ! 0),
       sts_Stages := map (\<lambda>stage. zero_StageStatus\<lparr>st_Name := sp_Name stage, st_Phase := StagePending\<rparr>) (p_stages p),
       sts_Conditions := cs\<rparr>)"
| stage_failed:
    "working_on p stage i \<Longrightarrow> st_Phase (cur_status p i) = StagePending \<Longrightarrow>
     status_step p ((ap_Status p)\<lparr>sts_CurrentStage := sp_Name stage,
       sts_Stages := (p_statuses p)[i := (cur_status p i)\<lparr>st_StartedAt := Some t0,
         st_Phase := StageFailed, st_CompletedAt := Some t, st_Error := e\<rparr>]\<rparr>)"
| stage_completed:
    "working_on p stage i \<Longrightarrow> st_Phase (cur_status p i) = StagePending \<Longrightarrow>
     status_step p ((ap_Status p)\<lparr>sts_CurrentStage := sp_Name stage,
       sts_Stages := (p_statuses p)[i := (cur_status p i)\<lparr>st_StartedAt := Some t0,
         st_Phase := StageCompleted, st_CompletedAt := Some t, st_Output := truncateOutput out,
         st_OutputRef := outputConfigMapName (p_name p) (sp_Name stage), st_TaskID := tid\<rparr>]\<rparr>)"
| stage_recovered:
    "working_on p stage i \<Longrightarrow> st_Phase (cur_status p i) = StagePending \<Longrightarrow>
     status_step p ((ap_Status p)\<lparr>
       sts_Stages := (p_statuses p)[i := (cur_status p i)\<lparr>st_Phase := StageCompleted,
         st_CompletedAt := Some t, st_Output := truncateOutput out,
         st_OutputRef := outputConfigMapName (p_name p) (sp_Name stage)\<rparr>]\<rparr>)"
| retried:
    "working_on p stage i \<Longrightarrow> st_Phase (cur_status p i) = StageFailed \<Longrightarrow> retries_left p stage i \<Longrightarrow>
     status_step p ((ap_Status p)\<lparr>
       sts_Stages := (p_statuses p)[i := (cur_status p i)\<lparr>
         st_RetryCount := st_RetryCount (cur_status p i) + 1,
         st_Phase := StagePending, st_Error := '''', st_CompletedAt := None\<rparr>]\<rparr>)"
| gave_up:
    "working_on p stage i \<Longrightarrow> st_Phase (cur_status p i) = StageFailed \<Longrightarrow> \<not> retries_left p stage i \<Longrightarrow>
     sets_ready p cs ''False'' ''PipelineFailed'' (failure_text tbl stage (cur_status p i)) \<Longrightarrow>
     status_step p ((ap_Status p)\<lparr>sts_Phase := PhaseFailed, sts_CompletedAt := Some t, sts_Conditions := cs\<rparr>)"
| completed:
    "p_phase p = PhaseRunning \<Longrightarrow> FindCurrentStage p = Inr None \<Longrightarrow>
     sets_ready p cs ''True'' ''PipelineCompleted'' ''All stages completed successfully'' \<Longrightarrow>
     status_step p ((ap_Status p)\<lparr>sts_Phase := PhaseCompleted, sts_CompletedAt := Some t,
       sts_CurrentStage := '''', sts_Conditions := cs\<rparr>)"

section \<open>Writes\<close>

text \<open>\<open>carries p p' s\<close>: \<open>p'\<close> is \<open>p\<close> with status \<open>s\<close>, up to its version.\<close>

definition carries :: "AgentPipeline \<Rightarrow> AgentPipeline \<Rightarrow> AgentPipelineStatus \<Rightarrow> bool" where
  "carries p p' s \<longleftrightarrow> p_key p' = p_key p \<and> ap_Spec p' = ap_Spec p \<and> ap_Status p' = s
     \<and> om_Finalizers (ap_Meta p') = om_Finalizers (ap_Meta p)
     \<and> om_DeletionTimestamp (ap_Meta p') = om_DeletionTimestamp (ap_Meta p)"

text \<open>
  The pass stored nothing for any pipeline, or one status satisfying \<open>S\<close> for the
  pipeline \<open>p\<close> under key \<open>k\<close>.
\<close>

definition writes ::
  "('c \<Rightarrow> NamespacedName \<Rightarrow> AgentPipeline option) \<Rightarrow> 'c \<Rightarrow> 'c \<Rightarrow> NamespacedName \<Rightarrow> AgentPipeline
   \<Rightarrow> (AgentPipelineStatus \<Rightarrow> bool) \<Rightarrow> bool" where
  "writes st c c' k p S \<longleftrightarrow>
     st c' = st c \<or> (\<exists>p' s. st c k = Some p \<and> st c' = (st c)(k \<mapsto> p') \<and> carries p p' s \<and> S s)"

lemma writes_refl [simp]: "writes st c c k p S"
  by (simp add: writes_def)

lemma writes_mono: "writes st c c' k p S \<Longrightarrow> (\<And>s. S s \<Longrightarrow> T s) \<Longrightarrow> writes st c c' k p T"
  by (auto simp: writes_def)

lemma writes_eq_left: "st d = st c \<Longrightarrow> writes st d c' k p S = writes st c c' k p S"
  by (simp add: writes_def)

lemma writes_eq_right: "st d = st c' \<Longrightarrow> writes st c d k p S = writes st c c' k p S"
  by (simp add: writes_def)

section \<open>The handlers, one by one\<close>

lemma set_ready_eq:
  "set_ready R w p status reason msg =
     (set_status (\<lambda>s. s\<lparr>sts_Conditions := meta_SetStatusCondition R (wall_clock R (w_clock w)) (sts_Conditions s)
        \<lparr>cond_Type = ''Ready'', cond_Status = status, cond_ObservedGeneration = om_Generation (ap_Meta p),
         cond_LastTransitionTime = 0, cond_Reason = reason, cond_Message = msg\<rparr>\<rparr>) p,
      w\<lparr>w_clock := Suc (w_clock w)\<rparr>)"
  by (simp add: set_ready_def metav1_Now_def)

context k8s_cluster
begin

lemma do_StatusUpdate_writes:
  assumes "do_StatusUpdate R w q = (x, w')" and "snapshot (stored (w_cluster w)) k p"
    and "ap_Meta q = ap_Meta p" and "S (ap_Status q)" and "p_key p = k"
  shows "writes stored (w_cluster w) (w_cluster w') k p S"
    "stored_cm (w_cluster w') = stored_cm (w_cluster w)"
    "x = Inl e \<Longrightarrow> stored (w_cluster w') = stored (w_cluster w)"
proof -
  obtain c where c: "client_StatusUpdate R (w_cluster w) q = (x, c)" "w' = w\<lparr>w_cluster := c\<rparr>"
    using assms(1) by (auto simp: do_StatusUpdate_def split: prod.splits)
  show "writes stored (w_cluster w) (w_cluster w') k p S"
  proof (cases x)
    case (Inl e)
    then show ?thesis using StatusUpdate_err c by (fastforce simp: writes_def)
  next
    case (Inr p')
    have key: "p_key q = k" using assms(3,5) by (simp add: p_key_def)
    obtain r where r: "stored (w_cluster w) k = Some r" "p_key p' = k" "ap_Spec p' = ap_Spec r"
      "ap_Status p' = ap_Status q" "om_Finalizers (ap_Meta p') = om_Finalizers (ap_Meta r)"
      "om_DeletionTimestamp (ap_Meta p') = om_DeletionTimestamp (ap_Meta r)"
      "stored c = (stored (w_cluster w))(k \<mapsto> p')"
      "om_ResourceVersion (ap_Meta r) = om_ResourceVersion (ap_Meta p)"
      using StatusUpdate_ok [OF c(1) [unfolded Inr]] key assms(3) by auto
    then have "r = p" using snapshotD [OF assms(2)] by blast
    with r show ?thesis using assms c(2)
      by (auto simp: writes_def carries_def intro!: exI [where x = p'])
  qed
  show "stored_cm (w_cluster w') = stored_cm (w_cluster w)"
    using StatusUpdate_err StatusUpdate_ok c by (cases x) fastforce+
  show "x = Inl e \<Longrightarrow> stored (w_cluster w') = stored (w_cluster w)"
    using StatusUpdate_err c by fastforce
qed

lemma sets_ready_set:
  "om_Generation (ap_Meta p) = g \<Longrightarrow> sets_ready p (meta_SetStatusCondition R t (sts_Conditions (ap_Status p))
      \<lparr>cond_Type = ''Ready'', cond_Status = status, cond_ObservedGeneration = g,
       cond_LastTransitionTime = z, cond_Reason = reason, cond_Message = msg\<rparr>) status reason msg"
  (is "_ \<Longrightarrow> sets_ready p (meta_SetStatusCondition R t ?cs ?n) status reason msg")
  using SetStatusCondition [of ?n t ?cs] SetStatusCondition_rest [of _ t ?cs ?n] SetStatusCondition_keys [of ?cs t ?n]
  by (fastforce simp: sets_ready_def ready_is_def)

text \<open>A method that ends in a status update of \<open>q\<close>, whatever it returns and records.\<close>

lemma after_StatusUpdate:
  assumes "(case do_StatusUpdate R w q of (Inl e, v) \<Rightarrow> (f e, v) | (Inr y, v) \<Rightarrow> (g, h v)) = (x, w')"
    and "\<And>v. w_cluster (h v) = w_cluster v \<and> w_calls (h v) = w_calls v"
    and "snapshot (stored (w_cluster w)) k p" and "ap_Meta q = ap_Meta p" and "p_key p = k" and "S (ap_Status q)"
  shows "writes stored (w_cluster w) (w_cluster w') k p S"
    "stored_cm (w_cluster w') = stored_cm (w_cluster w)" "w_calls w' = w_calls w"
proof -
  obtain y v where y: "do_StatusUpdate R w q = (y, v)" by fastforce
  have v: "w_cluster w' = w_cluster v" "w_calls w' = w_calls v"
    using assms(1,2) y by (cases y; auto)+
  show "writes stored (w_cluster w) (w_cluster w') k p S"
    using do_StatusUpdate_writes(1) [where S = S, OF y assms(3,4,6,5)] v by simp
  show "stored_cm (w_cluster w') = stored_cm (w_cluster w)"
    using do_StatusUpdate_writes(2) [where S = S, OF y assms(3,4,6,5)] v by simp
  show "w_calls w' = w_calls w"
    using y v by (auto simp: do_StatusUpdate_def split: prod.splits)
qed

end

context k8s_cluster
begin

text \<open>The effect a method has on what the API server stores, and that it invokes no agent.\<close>

lemma failStage_effect:
  assumes "failStage R w q i e = (x, w')" and "snapshot (stored (w_cluster w)) k p"
    and "ap_Meta q = ap_Meta p" and "p_key p = k"
    and "\<And>t. S (ap_Status (set_stage i (\<lambda>s. s\<lparr>st_Phase := StageFailed, st_CompletedAt := Some t,
               st_Error := e\<rparr>) q))"
  shows "writes stored (w_cluster w) (w_cluster w') k p S"
    "stored_cm (w_cluster w') = stored_cm (w_cluster w)" "w_calls w' = w_calls w"
  using after_StatusUpdate [OF assms(1) [unfolded failStage_def metav1_Now_def Let_def prod.case],
      of k p S] assms(2-) by simp_all

lemma completePipeline_effect:
  assumes "completePipeline R w q = (x, w')" and "snapshot (stored (w_cluster w)) k p"
    and "ap_Meta q = ap_Meta p" and "p_key p = k"
    and "\<And>t cs. sets_ready q cs ''True'' ''PipelineCompleted'' ''All stages completed successfully'' \<Longrightarrow>
          S ((ap_Status q)\<lparr>sts_Phase := PhaseCompleted, sts_CompletedAt := Some t,
               sts_CurrentStage := '''', sts_Conditions := cs\<rparr>)"
  shows "writes stored (w_cluster w) (w_cluster w') k p S"
    "stored_cm (w_cluster w') = stored_cm (w_cluster w)" "w_calls w' = w_calls w"
  using after_StatusUpdate [OF assms(1) [unfolded completePipeline_def metav1_Now_def set_ready_eq Let_def prod.case],
      of k p S] assms(2-) by (simp_all add: sets_ready_set)

lemma failPipeline_effect:
  assumes "failPipeline R w q reason = (x, w')" and "snapshot (stored (w_cluster w)) k p"
    and "ap_Meta q = ap_Meta p" and "p_key p = k"
    and "\<And>t cs. sets_ready q cs ''False'' ''PipelineFailed'' reason \<Longrightarrow>
          S ((ap_Status q)\<lparr>sts_Phase := PhaseFailed, sts_CompletedAt := Some t, sts_Conditions := cs\<rparr>)"
  shows "writes stored (w_cluster w) (w_cluster w') k p S"
    "stored_cm (w_cluster w') = stored_cm (w_cluster w)" "w_calls w' = w_calls w"
  using after_StatusUpdate [OF assms(1) [unfolded failPipeline_def metav1_Now_def set_ready_eq Let_def prod.case],
      of k p S] assms(2-) by (simp_all add: sets_ready_set)

lemma completeStageFromOutput_effect:
  assumes "completeStageFromOutput R w q stage i out = (x, w')" and "snapshot (stored (w_cluster w)) k p"
    and "ap_Meta q = ap_Meta p" and "p_key p = k"
    and "\<And>t. S (ap_Status (set_stage i (\<lambda>s. s\<lparr>st_Phase := StageCompleted, st_CompletedAt := Some t,
               st_Output := truncateOutput out,
               st_OutputRef := outputConfigMapName (p_name q) (sp_Name stage)\<rparr>) q))"
  shows "writes stored (w_cluster w) (w_cluster w') k p S"
    "stored_cm (w_cluster w') = stored_cm (w_cluster w)" "w_calls w' = w_calls w"
  using after_StatusUpdate [OF assms(1) [unfolded completeStageFromOutput_def metav1_Now_def Let_def prod.case],
      of k p S] assms(2-) by simp_all

lemma retryStage_effect:
  assumes "retryStage R w q stage i rp = (x, w')" and "snapshot (stored (w_cluster w)) k p"
    and "ap_Meta q = ap_Meta p" and "p_key p = k"
    and "S (ap_Status (set_stage i (\<lambda>s. s\<lparr>st_RetryCount := st_RetryCount s + 1, st_Phase := StagePending,
               st_Error := '''', st_CompletedAt := None\<rparr>) q))"
  shows "writes stored (w_cluster w) (w_cluster w') k p S"
    "stored_cm (w_cluster w') = stored_cm (w_cluster w)" "w_calls w' = w_calls w"
  using after_StatusUpdate [OF assms(1) [unfolded retryStage_def Let_def], of k p S] assms(2-)
  by simp_all

lemma completeStage_effect:
  assumes "completeStage R w q stage i res = (x, w')" and "snapshot (stored (w_cluster w)) k p"
    and "ap_Meta q = ap_Meta p" and "p_key p = k"
    and "\<And>t. S (ap_Status (set_stage i (\<lambda>s. s\<lparr>st_Phase := StageCompleted, st_CompletedAt := Some t,
               st_Output := truncateOutput (res_Output res),
               st_OutputRef := outputConfigMapName (p_name q) (sp_Name stage), st_TaskID := res_TaskID res\<rparr>) q))"
  shows "writes stored (w_cluster w) (w_cluster w') k p S" "w_calls w' = w_calls w"
    "stored_cm (w_cluster w') = stored_cm (w_cluster w) \<or>
     (\<exists>cm. stored_cm (w_cluster w') = (stored_cm (w_cluster w))
        (\<lparr>nn_Namespace = p_ns q, nn_Name = outputConfigMapName (p_name q) (sp_Name stage)\<rparr> \<mapsto> cm)
        \<and> cm_output cm = res_Output res)"
proof -
  obtain y v where y: "StoreOutput R w q (sp_Name stage) (res_Output res) = (y, v)" by fastforce
  note keep = StoreOutput_keeps_pipelines [OF y] and run = StoreOutput_same_run [OF y]
  have eff: "writes stored (w_cluster w) (w_cluster w') k p S \<and> w_calls w' = w_calls w \<and>
    stored_cm (w_cluster w') = stored_cm (w_cluster v)"
  proof (cases y)
    case (Inl e)
    then show ?thesis using assms(1) y keep run
      by (auto simp: completeStage_def Let_def writes_def same_run_def)
  next
    case (Inr nt)
    then obtain n t where nt: "y = Inr (n, t)" by (cases nt) auto
    note nm = StoreOutput_Inr(1,2) [OF y [unfolded nt]]
    have stv: "snapshot (stored (w_cluster v)) k p" using keep assms(2) by simp
    note eq = assms(1) [unfolded completeStage_def y nt nm metav1_Now_def Let_def prod.case sum.case]
    let ?v = "v\<lparr>w_clock := Suc (w_clock v)\<rparr>"
    note upd = after_StatusUpdate [where S = S and k = k and p = p, OF eq]
    have "writes stored (w_cluster ?v) (w_cluster w') k p S" "w_calls w' = w_calls ?v"
      "stored_cm (w_cluster w') = stored_cm (w_cluster ?v)"
      by (rule upd; use stv assms(3-5) in \<open>force\<close>)+
    then show ?thesis using keep run by (simp add: writes_def same_run_def)
  qed
  then show "writes stored (w_cluster w) (w_cluster w') k p S" "w_calls w' = w_calls w"
    by simp_all
  show "stored_cm (w_cluster w') = stored_cm (w_cluster w) \<or>
     (\<exists>cm. stored_cm (w_cluster w') = (stored_cm (w_cluster w))
        (\<lparr>nn_Namespace = p_ns q, nn_Name = outputConfigMapName (p_name q) (sp_Name stage)\<rparr> \<mapsto> cm)
        \<and> cm_output cm = res_Output res)"
  proof (cases y)
    case (Inl e)
    then show ?thesis using StoreOutput_Inl [OF y [unfolded Inl]] eff by simp
  next
    case (Inr nt)
    then obtain n t where "y = Inr (n, t)" by (cases nt) auto
    then show ?thesis using StoreOutput_Inr(1,3) [of w q "sp_Name stage" "res_Output res" n t v] y eff
      by simp
  qed
qed

end

section \<open>Starting a stage\<close>

text \<open>The pipeline in memory while the agent of stage \<open>i\<close> runs.\<close>

abbreviation running_at :: "AgentPipeline \<Rightarrow> StageSpec \<Rightarrow> nat \<Rightarrow> gotime \<Rightarrow> AgentPipeline" where
  "running_at p stage i t \<equiv> set_status (\<lambda>s. s\<lparr>sts_CurrentStage := sp_Name stage\<rparr>)
     (set_stage i (\<lambda>s. s\<lparr>st_Phase := StageRunning, st_StartedAt := Some t\<rparr>) p)"

abbreviation output_key :: "AgentPipeline \<Rightarrow> StageSpec \<Rightarrow> NamespacedName" where
  "output_key p stage \<equiv>
     \<lparr>nn_Namespace = p_ns p, nn_Name = outputConfigMapName (p_name p) (sp_Name stage)\<rparr>"

text \<open>
  The ConfigMaps after a pass over stage \<open>stage\<close>: unchanged, or one output stored under the
  stage's own name.
\<close>

definition cm_effect ::
  "(NamespacedName \<Rightarrow> ConfigMap option) \<Rightarrow> (NamespacedName \<Rightarrow> ConfigMap option) \<Rightarrow> AgentPipeline \<Rightarrow> StageSpec \<Rightarrow> bool" where
  "cm_effect m m' p stage \<longleftrightarrow> m' = m \<or> (\<exists>cm. m' = m(output_key p stage \<mapsto> cm))"

text \<open>The agent invocations of a pass over stage \<open>stage\<close>: none or one, of that stage's agent.\<close>

definition call_effect :: "RunRequest list \<Rightarrow> RunRequest list \<Rightarrow> AgentPipeline \<Rightarrow> StageSpec \<Rightarrow> bool" where
  "call_effect cs cs' p stage \<longleftrightarrow> cs' = cs \<or> (\<exists>prompt. cs' = cs @ [run_request p stage prompt])"

lemma run_request_running_at [simp]: "run_request (running_at p stage i t) stage' pr = run_request p stage' pr"
  by (simp add: run_request_def)

context k8s_cluster
begin

lemma build_context_loop_keeps:
  "build_context_loop R w p cur i xs pc = (x, w') \<Longrightarrow>
   stored (w_cluster w') = stored (w_cluster w) \<and> stored_cm (w_cluster w') = stored_cm (w_cluster w)"
proof (induction xs arbitrary: w i pc)
  case (Cons a xs)
  show ?case
  proof (cases "st_Phase a \<noteq> StageCompleted \<or> st_OutputRef a = ''''")
    case True
    with Cons show ?thesis by auto
  next
    case False
    obtain y v where y: "readConfigMapOutput R w (p_ns p) (st_OutputRef a) = (y, v)" by fastforce
    show ?thesis
      using Cons False y readConfigMapOutput_cases(1,2) [OF y] by (cases y) (auto simp: Let_def)
  qed
qed simp

lemma BuildPipelineContext_keeps:
  "BuildPipelineContext R w p cur = (x, w') \<Longrightarrow>
   stored (w_cluster w') = stored (w_cluster w) \<and> stored_cm (w_cluster w') = stored_cm (w_cluster w)"
  by (simp add: BuildPipelineContext_def build_context_loop_keeps)

lemma finish_run_effect:
  assumes "finish_run R w (running_at p stage i t0) stage i res = (x, w')"
    and st: "snapshot (stored (w_cluster w)) k p" and k: "p_key p = k"
    and wk: "working_on p stage i" "st_Phase (cur_status p i) = StagePending"
  shows "writes stored (w_cluster w) (w_cluster w') k p (status_step p) \<and> w_calls w' = w_calls w \<and>
    cm_effect (stored_cm (w_cluster w)) (stored_cm (w_cluster w')) p stage"
proof -
  have len: "i < length (p_statuses p)"
    using wk(1) FindCurrentStage_SomeD(1) by (auto simp: working_on_def)
  have fail: "failStage R w (running_at p stage i t0) i e = (x, w') \<Longrightarrow> ?thesis" for e
    using failStage_effect [where S = "status_step p", of w "running_at p stage i t0" i e x w' k p]
      st k wk len
    by (auto simp: ap_Status_set_stage_twice cm_effect_def intro: status_step.stage_failed)
  have comp: "completeStage R w (running_at p stage i t0) stage i r = (x, w') \<Longrightarrow> ?thesis" for r
    using completeStage_effect [where S = "status_step p", of w "running_at p stage i t0" stage i r x w' k p]
      st k wk len
    by (auto simp: ap_Status_set_stage_twice cm_effect_def intro: status_step.stage_completed)
  show ?thesis
    using assms(1) fail comp by (auto simp: finish_run_def split: sum.splits if_splits)
qed

lemma startStage_effect:
  assumes "startStage R w p stage i = (x, w')"
    and st: "snapshot (stored (w_cluster w)) k p" and k: "p_key p = k"
    and wk: "working_on p stage i" "st_Phase (cur_status p i) = StagePending"
  shows "writes stored (w_cluster w) (w_cluster w') k p (status_step p)"
    "call_effect (w_calls w) (w_calls w') p stage"
    "cm_effect (stored_cm (w_cluster w)) (stored_cm (w_cluster w')) p stage"
proof -
  have len: "i < length (p_statuses p)"
    using wk(1) FindCurrentStage_SomeD(1) by (auto simp: working_on_def)
  obtain y v where y: "readConfigMapOutput R w (p_ns p) (outputConfigMapName (p_name p) (sp_Name stage)) = (y, v)"
    by fastforce
  note keep = readConfigMapOutput_cases(1,2) [OF y]
    and run = readConfigMapOutput_same_run [OF y, unfolded same_run_def]
  have "writes stored (w_cluster w) (w_cluster w') k p (status_step p) \<and>
    call_effect (w_calls w) (w_calls w') p stage \<and>
    cm_effect (stored_cm (w_cluster w)) (stored_cm (w_cluster w')) p stage"
  proof (cases y)
    case (Inr out)
    then have "completeStageFromOutput R v p stage i out = (x, w')"
      using assms(1) y by (simp add: startStage_def)
    from completeStageFromOutput_effect [where S = "status_step p", OF this, of k p]
    have "writes stored (w_cluster v) (w_cluster w') k p (status_step p) \<and> w_calls w' = w_calls v
        \<and> stored_cm (w_cluster w') = stored_cm (w_cluster v)"
      using st k wk keep status_step.stage_recovered [OF wk] by (simp add: ap_Status_set_stage)
    then show ?thesis
      using keep run by (simp add: cm_effect_def call_effect_def writes_eq_left [where st = stored, OF keep(1)])
  next
    case (Inl e)
    define t0 where "t0 = wall_clock R (w_clock v)"
    define v1 where "v1 = Recorder_Event (v\<lparr>w_clock := Suc (w_clock v)\<rparr>) EventTypeNormal ''StageStarted''
      (''Stage '' @ quote (print_table R) (sp_Name stage) @ '' started (agent: '' @ ref_Name (sp_AgentRef stage) @ '')'')"
    obtain b u where b: "BuildPipelineContext R v1 (running_at p stage i t0) stage = (b, u)" by fastforce
    have u: "stored (w_cluster u) = stored (w_cluster w)" "stored_cm (w_cluster u) = stored_cm (w_cluster w)"
      "w_calls u = w_calls w"
      using BuildPipelineContext_keeps [OF b] BuildPipelineContext_same_run [OF b] keep run
      by (simp_all add: v1_def same_run_def)
    have fail: "failStage R u (running_at p stage i t0) i e = (x, w') \<Longrightarrow> ?thesis" for e
      using failStage_effect [where S = "status_step p", of u "running_at p stage i t0" i e x w' k p]
        st k wk len u status_step.stage_failed [OF wk]
      by (simp add: ap_Status_set_stage_twice cm_effect_def call_effect_def writes_eq_left [where st = stored, OF u(1)])
    have go: ?thesis if "finish_run R (snd (do_RunAgent R u (run_request p stage prompt)))
        (running_at p stage i t0) stage i (fst (do_RunAgent R u (run_request p stage prompt))) = (x, w')" for prompt
      using finish_run_effect [OF that, of k] st k wk u
      by (auto simp: call_effect_def writes_eq_left [where st = stored, OF u(1)])
    show ?thesis
      using assms(1) y Inl b fail go
      by (auto simp: startStage_def metav1_Now_def Let_def t0_def v1_def
          case_prod_beta split: sum.splits)
  qed
  then show "writes stored (w_cluster w) (w_cluster w') k p (status_step p)"
    "call_effect (w_calls w) (w_calls w') p stage"
    "cm_effect (stored_cm (w_cluster w)) (stored_cm (w_cluster w')) p stage"
    by simp_all
qed

end

section \<open>A pass\<close>

text \<open>
  A pass over the pipeline stored as \<open>p\<close>: the stored pipelines change by at most one
  status step of \<open>p\<close>, or by the addition of the finalizer; at most one agent is
  invoked, and at most one output is stored, both for the stage being worked on.
\<close>

definition adds_finalizer ::
  "(NamespacedName \<Rightarrow> AgentPipeline option) \<Rightarrow> (NamespacedName \<Rightarrow> AgentPipeline option)
   \<Rightarrow> NamespacedName \<Rightarrow> AgentPipeline \<Rightarrow> bool" where
  "adds_finalizer m m' k p \<longleftrightarrow>
     m k = Some p \<and> (p_phase p = '''' \<or> p_phase p = PhasePending) \<and> finalizerName \<notin> set (om_Finalizers (ap_Meta p)) \<and>
     (\<exists>p'. m' = m(k \<mapsto> p') \<and> p_key p' = k \<and> ap_Spec p' = ap_Spec p \<and> ap_Status p' = ap_Status p \<and>
       set (om_Finalizers (ap_Meta p')) = insert finalizerName (set (om_Finalizers (ap_Meta p))) \<and>
       om_DeletionTimestamp (ap_Meta p') = om_DeletionTimestamp (ap_Meta p))"

definition quiet :: "('c \<Rightarrow> NamespacedName \<Rightarrow> ConfigMap option) \<Rightarrow> ('c,'r) world \<Rightarrow> ('c,'r) world \<Rightarrow> bool" where
  "quiet cms w w' \<longleftrightarrow> w_calls w' = w_calls w \<and> cms (w_cluster w') = cms (w_cluster w)"

context k8s_cluster
begin

lemma handleRunning_effect:
  assumes "handleRunning R w p = (x, w')"
    and st: "snapshot (stored (w_cluster w)) k p" and k: "p_key p = k" and ph: "p_phase p = PhaseRunning"
  shows "writes stored (w_cluster w) (w_cluster w') k p (status_step p)"
    "quiet stored_cm w w' \<or> (\<exists>stage i. working_on p stage i \<and> st_Phase (cur_status p i) = StagePending \<and>
       startStage R w p stage i = (x, w'))"
proof -
  have "writes stored (w_cluster w) (w_cluster w') k p (status_step p) \<and>
    (quiet stored_cm w w' \<or> (\<exists>stage i. working_on p stage i \<and> st_Phase (cur_status p i) = StagePending \<and>
       startStage R w p stage i = (x, w')))"
  proof (cases "FindCurrentStage p")
    case (Inl e)
    then show ?thesis using assms(1) by (simp add: handleRunning_def quiet_def)
  next
    case (Inr cur)
    show ?thesis
    proof (cases cur)
      case None
      have "completePipeline R w p = (x, w')" using assms(1) Inr None by (simp add: handleRunning_def)
      from completePipeline_effect [where S = "status_step p", OF this st refl k] show ?thesis
        using status_step.completed [OF ph Inr [unfolded None]] by (simp add: quiet_def)
    next
      case (Some si)
      then obtain stage i where cur: "FindCurrentStage p = Inr (Some (stage, i))"
        using Inr by (cases si) auto
      show ?thesis
      proof (cases "AreDependenciesMet p stage")
        case False
        then show ?thesis using assms(1) cur by (simp add: handleRunning_def quiet_def)
      next
        case True
        have wk: "working_on p stage i" using True cur ph by (simp add: working_on_def)
        consider "st_Phase (cur_status p i) = StagePending"
          | "st_Phase (cur_status p i) = StageFailed" "retries_left p stage i"
          | "st_Phase (cur_status p i) = StageFailed" "\<not> retries_left p stage i"
          | "st_Phase (cur_status p i) \<noteq> StagePending" "st_Phase (cur_status p i) \<noteq> StageFailed"
          by blast
        then show ?thesis
        proof cases
          case 1
          then have "startStage R w p stage i = (x, w')"
            using assms(1) cur True by (simp add: handleRunning_def Let_def)
          then show ?thesis using startStage_effect(1) [OF _ st k wk 1] wk 1 by blast
        next
          case 2
          then have "retryStage R w p stage i (GetEffectiveRetryPolicy p stage) = (x, w')"
            using assms(1) cur True by (simp add: handleRunning_def Let_def retries_left_def)
          from retryStage_effect [where S = "status_step p", OF this st refl k] show ?thesis
            using status_step.retried [OF wk 2] by (simp add: quiet_def ap_Status_set_stage)
        next
          case 3
          then have "failPipeline R w p (failure_text (print_table R) stage (cur_status p i)) = (x, w')"
            using assms(1) cur True by (simp add: handleRunning_def Let_def retries_left_def failure_text_def)
          from failPipeline_effect [where S = "status_step p", OF this st refl k] show ?thesis
            using status_step.gave_up [OF wk 3] by (simp add: quiet_def)
        next
          case 4
          then show ?thesis using assms(1) cur True by (simp add: handleRunning_def Let_def quiet_def)
        qed
      qed
    qed
  qed
  then show "writes stored (w_cluster w) (w_cluster w') k p (status_step p)"
    "quiet stored_cm w w' \<or> (\<exists>stage i. working_on p stage i \<and> st_Phase (cur_status p i) = StagePending \<and>
       startStage R w p stage i = (x, w'))"
    by blast+
qed

lemma snapshot_Update:
  assumes "client_Update R c (p\<lparr>ap_Meta := (ap_Meta p)\<lparr>om_Finalizers := fs\<rparr>\<rparr>) = (Inr p', c')"
    and sn: "snapshot (stored c) k p"
  shows "stored c k = Some p" "p_key p' = k" "ap_Spec p' = ap_Spec p" "ap_Status p' = ap_Status p"
    "om_Finalizers (ap_Meta p') = fs" "om_DeletionTimestamp (ap_Meta p') = om_DeletionTimestamp (ap_Meta p)"
    "stored c' = (stored c)(k := (if om_DeletionTimestamp (ap_Meta p) \<noteq> None \<and> fs = [] then None else Some p'))"
    "stored_cm c' = stored_cm c"
proof -
  have k: "p_key (p\<lparr>ap_Meta := (ap_Meta p)\<lparr>om_Finalizers := fs\<rparr>\<rparr>) = k"
    using snapshot_key [OF sn] by (simp add: p_key_def)
  obtain q where q: "stored c k = Some q" "om_ResourceVersion (ap_Meta q) = om_ResourceVersion (ap_Meta p)"
    and res: "p_key p' = k" "ap_Spec p' = ap_Spec p" "ap_Status p' = ap_Status q"
    "om_Finalizers (ap_Meta p') = fs" "om_DeletionTimestamp (ap_Meta p') = om_DeletionTimestamp (ap_Meta q)"
    "stored c' = (stored c)(k := (if om_DeletionTimestamp (ap_Meta q) \<noteq> None \<and> fs = [] then None else Some p'))"
    "stored_cm c' = stored_cm c"
    using Update_ok [OF assms(1)] unfolding k by auto
  have eq: "q = p" using snapshotD [OF sn q] .
  show "stored c k = Some p" "p_key p' = k" "ap_Spec p' = ap_Spec p" "ap_Status p' = ap_Status p"
    "om_Finalizers (ap_Meta p') = fs" "om_DeletionTimestamp (ap_Meta p') = om_DeletionTimestamp (ap_Meta p)"
    "stored c' = (stored c)(k := (if om_DeletionTimestamp (ap_Meta p) \<noteq> None \<and> fs = [] then None else Some p'))"
    "stored_cm c' = stored_cm c"
    using q(1) res by (simp_all add: eq)
qed

lemma add_finalizer_effect:
  assumes "do_Update R w (ctl_AddFinalizer R p finalizerName) = (y, w')"
    and sn: "snapshot (stored (w_cluster w)) k p"
    and new: "finalizerName \<notin> set (om_Finalizers (ap_Meta p))" and ph: "p_phase p = '''' \<or> p_phase p = PhasePending"
  shows "stored (w_cluster w') = stored (w_cluster w) \<or>
      adds_finalizer (stored (w_cluster w)) (stored (w_cluster w')) k p" "quiet stored_cm w w'"
proof -
  obtain fs where fs: "ctl_AddFinalizer R p finalizerName = p\<lparr>ap_Meta := (ap_Meta p)\<lparr>om_Finalizers := fs\<rparr>\<rparr>"
    "set fs = insert finalizerName (set (om_Finalizers (ap_Meta p)))" using AddFinalizer by blast
  obtain c where y: "client_Update R (w_cluster w) (p\<lparr>ap_Meta := (ap_Meta p)\<lparr>om_Finalizers := fs\<rparr>\<rparr>) = (y, c)"
    and w': "w' = w\<lparr>w_cluster := c\<rparr>"
    using assms(1) fs(1) by (auto simp: do_Update_def split: prod.splits)
  have "(stored (w_cluster w') = stored (w_cluster w) \<or>
      adds_finalizer (stored (w_cluster w)) (stored (w_cluster w')) k p) \<and> quiet stored_cm w w'"
  proof (cases y)
    case (Inl e)
    then show ?thesis using Update_err y w' by (fastforce simp: quiet_def)
  next
    case (Inr p')
    have "fs \<noteq> []" using fs(2) by auto
    then show ?thesis
      using snapshot_Update [OF y [unfolded Inr] sn] w' fs(2) ph new
      by (auto simp: adds_finalizer_def quiet_def)
  qed
  then show "stored (w_cluster w') = stored (w_cluster w) \<or>
      adds_finalizer (stored (w_cluster w)) (stored (w_cluster w')) k p" "quiet stored_cm w w'" by blast+
qed

lemma handlePending_effect:
  assumes "handlePending R w p = (x, w')"
    and st: "snapshot (stored (w_cluster w)) k p" and k: "p_key p = k"
    and ph: "p_phase p = '''' \<or> p_phase p = PhasePending"
  shows "writes stored (w_cluster w) (w_cluster w') k p (status_step p) \<or>
      adds_finalizer (stored (w_cluster w)) (stored (w_cluster w')) k p"
    "quiet stored_cm w w'"
proof -
  have "(writes stored (w_cluster w) (w_cluster w') k p (status_step p) \<or>
      adds_finalizer (stored (w_cluster w)) (stored (w_cluster w')) k p) \<and> quiet stored_cm w w'"
  proof (cases "ctl_ContainsFinalizer R p finalizerName")
    case False
    obtain y v where y: "do_Update R w (ctl_AddFinalizer R p finalizerName) = (y, v)" by fastforce
    have "w' = v" using assms(1) False y by (auto simp: handlePending_def split: sum.splits)
    then show ?thesis
      using add_finalizer_effect [OF y st _ ph] False ContainsFinalizer by (auto simp: writes_def)
  next
    case True
    show ?thesis
    proof (cases "p_stages p = []")
      case empty: True
      then have "failPipeline R w p ''no stages defined'' = (x, w')"
        using assms(1) True by (simp add: handlePending_def)
      from failPipeline_effect [where S = "status_step p", OF this st refl k] show ?thesis
        using status_step.no_stages [OF ph empty] by (simp add: quiet_def)
    next
      case ne: False
      then have ne': "(length (p_stages p) = 0) = False" by simp
      note eq = assms(1) [unfolded handlePending_def metav1_Now_def set_ready_eq Let_def prod.case
          eqTrueI [OF True] ne' not_True_eq_False if_False]
      let ?w = "w\<lparr>w_clock := Suc (w_clock w)\<rparr>"
      let ?w = "?w\<lparr>w_clock := Suc (w_clock ?w)\<rparr>"
      note upd = after_StatusUpdate [where S = "status_step p" and k = k and p = p, OF eq]
      have "writes stored (w_cluster ?w) (w_cluster w') k p (status_step p)" "w_calls w' = w_calls ?w"
        "stored_cm (w_cluster w') = stored_cm (w_cluster ?w)"
        by (rule upd; use st k status_step.started [OF ph ne]
            in \<open>simp add: sets_ready_set InitStageStatuses_def\<close>)+
      then show ?thesis by (simp add: quiet_def)
    qed
  qed
  then show "writes stored (w_cluster w) (w_cluster w') k p (status_step p) \<or>
      adds_finalizer (stored (w_cluster w)) (stored (w_cluster w')) k p" "quiet stored_cm w w'"
    by blast+
qed

end

abbreviation alive :: "AgentPipeline \<Rightarrow> bool" where
  "alive p \<equiv> Time_IsZero (om_DeletionTimestamp (ap_Meta p))"

lemma Time_IsZero_None: "Time_IsZero None"
  by (simp add: Time_IsZero_def)

lemma adds_finalizer_stored: "adds_finalizer m m' k p \<Longrightarrow> m k = Some p"
  by (simp add: adds_finalizer_def)

definition removes_finalizer ::
  "(NamespacedName \<Rightarrow> AgentPipeline option) \<Rightarrow> (NamespacedName \<Rightarrow> AgentPipeline option)
   \<Rightarrow> NamespacedName \<Rightarrow> AgentPipeline \<Rightarrow> bool" where
  "removes_finalizer m m' k p \<longleftrightarrow> m k = Some p \<and> finalizerName \<in> set (om_Finalizers (ap_Meta p)) \<and>
     (if set (om_Finalizers (ap_Meta p)) = {finalizerName} then m' = m(k := None)
      else (\<exists>p'. m' = m(k \<mapsto> p') \<and> p_key p' = k \<and> ap_Spec p' = ap_Spec p \<and> ap_Status p' = ap_Status p \<and>
        set (om_Finalizers (ap_Meta p')) = set (om_Finalizers (ap_Meta p)) - {finalizerName} \<and>
        om_DeletionTimestamp (ap_Meta p') = om_DeletionTimestamp (ap_Meta p)))"

lemma removes_finalizer_stored: "removes_finalizer m m' k p \<Longrightarrow> m k = Some p"
  by (simp add: removes_finalizer_def)

lemma removes_finalizerE:
  assumes "removes_finalizer m m' k p"
  obtains (gone) "set (om_Finalizers (ap_Meta p)) = {finalizerName}" "m' = m(k := None)"
  | (kept) p' where "m' = m(k \<mapsto> p')" "p_key p' = k" "ap_Spec p' = ap_Spec p" "ap_Status p' = ap_Status p"
proof (cases "set (om_Finalizers (ap_Meta p)) = {finalizerName}")
  case True
  then show thesis using assms gone unfolding removes_finalizer_def by simp
next
  case False
  then show thesis using assms kept unfolding removes_finalizer_def if_not_P [OF False] by blast
qed

lemma removes_finalizer_other: "removes_finalizer m m' k p \<Longrightarrow> j \<noteq> k \<Longrightarrow> m' j = m j"
  by (erule removes_finalizerE) simp_all

lemma removes_finalizer_None:
  "removes_finalizer m m' k p \<Longrightarrow> m' k = None \<Longrightarrow> set (om_Finalizers (ap_Meta p)) = {finalizerName}"
  by (erule removes_finalizerE) simp_all

context k8s_cluster
begin

lemma do_Get_cases:
  assumes "do_Get R w k = (x, v)"
  shows "stored (w_cluster v) = stored (w_cluster w)" "stored_cm (w_cluster v) = stored_cm (w_cluster w)"
    "same_run w v" "x = Inr p \<Longrightarrow> snapshot (stored (w_cluster w)) k p"
  using assms Get_frame Get_found
  by (fastforce simp: do_Get_def same_run_def split: prod.splits)+

text \<open>What the pass does, by what its read returned: nothing, an object being deleted, or a live one.\<close>

lemma Reconcile_unread:
  assumes "Reconcile R w k = (x, w')" and g: "do_Get R w k = (Inl e, v)"
  shows "stored (w_cluster w') = stored (w_cluster w)" "quiet stored_cm w w'" "w_events w' = w_events w"
proof -
  have "w' = v" using assms by (auto simp: Reconcile_def split: if_splits)
  then show "stored (w_cluster w') = stored (w_cluster w)" "quiet stored_cm w w'" "w_events w' = w_events w"
    using do_Get_cases [OF g] by (simp_all add: quiet_def same_run_def)
qed

lemma Reconcile_effect:
  assumes "Reconcile R w k = (x, w')" and g: "do_Get R w k = (Inr p, v)" and al: "alive p"
  shows "writes stored (w_cluster w) (w_cluster w') k p (status_step p) \<or>
      adds_finalizer (stored (w_cluster w)) (stored (w_cluster w')) k p"
    "quiet stored_cm w w' \<or> (\<exists>stage i. working_on p stage i \<and>
       st_Phase (cur_status p i) = StagePending \<and> startStage R v p stage i = (x, w'))"
proof -
  note get = do_Get_cases [OF g]
  have stv: "snapshot (stored (w_cluster v)) k p" using get by simp
  then have key: "p_key p = k" by (rule snapshot_key)
  have q: "quiet stored_cm v w' \<Longrightarrow> quiet stored_cm w w'"
    using get(2,3) by (simp add: quiet_def same_run_def)
  have wr: "writes stored (w_cluster v) = writes stored (w_cluster w)"
    using get(1) by (auto simp: writes_def fun_eq_iff)
  consider (pend) "p_phase p = '''' \<or> p_phase p = PhasePending" "handlePending R v p = (x, w')"
    | (run) "p_phase p = PhaseRunning" "handleRunning R v p = (x, w')" | (other) "w' = v"
    using assms(1) g al by (auto simp: Reconcile_def split: if_splits)
  then have "(writes stored (w_cluster w) (w_cluster w') k p (status_step p) \<or>
      adds_finalizer (stored (w_cluster w)) (stored (w_cluster w')) k p) \<and>
    (quiet stored_cm w w' \<or> (\<exists>stage i. working_on p stage i \<and>
       st_Phase (cur_status p i) = StagePending \<and> startStage R v p stage i = (x, w')))"
  proof cases
    case pend
    from handlePending_effect [OF pend(2) stv key pend(1)] show ?thesis
      using q wr get(1) by simp
  next
    case run
    from handleRunning_effect [OF run(2) stv key run(1)] show ?thesis
      using q wr g by auto
  next
    case other
    then show ?thesis using get by (simp add: writes_def quiet_def same_run_def)
  qed
  then show "writes stored (w_cluster w) (w_cluster w') k p (status_step p) \<or>
      adds_finalizer (stored (w_cluster w)) (stored (w_cluster w')) k p"
    "quiet stored_cm w w' \<or> (\<exists>stage i. working_on p stage i \<and>
       st_Phase (cur_status p i) = StagePending \<and> startStage R v p stage i = (x, w'))"
    by blast+
qed

lemma handleDeletion_effect:
  assumes "handleDeletion R v p = (x, w')" and sn: "snapshot (stored (w_cluster v)) k p"
    and dying: "\<not> alive p"
  shows "stored (w_cluster w') = stored (w_cluster v) \<or>
      removes_finalizer (stored (w_cluster v)) (stored (w_cluster w')) k p"
    "quiet stored_cm v w'" "w_events w' = w_events v"
proof -
  have "(stored (w_cluster w') = stored (w_cluster v) \<or>
      removes_finalizer (stored (w_cluster v)) (stored (w_cluster w')) k p) \<and>
    quiet stored_cm v w' \<and> w_events w' = w_events v"
  proof (cases "ctl_ContainsFinalizer R p finalizerName")
    case False
    then show ?thesis using assms(1) by (simp add: handleDeletion_def quiet_def)
  next
    case True
    obtain fs where fs: "ctl_RemoveFinalizer R p finalizerName = p\<lparr>ap_Meta := (ap_Meta p)\<lparr>om_Finalizers := fs\<rparr>\<rparr>"
      "set fs = set (om_Finalizers (ap_Meta p)) - {finalizerName}" using RemoveFinalizer by blast
    obtain y c where y: "client_Update R (w_cluster v) (p\<lparr>ap_Meta := (ap_Meta p)\<lparr>om_Finalizers := fs\<rparr>\<rparr>) = (y, c)"
      by fastforce
    have w': "w' = v\<lparr>w_cluster := c\<rparr>"
      using assms(1) True y fs(1) by (auto simp: handleDeletion_def do_Update_def split: sum.splits)
    have emp: "fs = [] \<longleftrightarrow> set (om_Finalizers (ap_Meta p)) = {finalizerName}"
      using fs(2) True ContainsFinalizer by (auto simp flip: set_empty)
    show ?thesis
    proof (cases y)
      case (Inl e)
      then show ?thesis using Update_err y w' by (fastforce simp: quiet_def)
    next
      case (Inr p')
      have "om_DeletionTimestamp (ap_Meta p) \<noteq> None" using dying by (metis Time_IsZero_None)
      then show ?thesis
        using snapshot_Update [OF y [unfolded Inr] sn] w' fs(2) True emp
        by (auto simp: removes_finalizer_def quiet_def ContainsFinalizer)
    qed
  qed
  then show "stored (w_cluster w') = stored (w_cluster v) \<or>
      removes_finalizer (stored (w_cluster v)) (stored (w_cluster w')) k p"
    "quiet stored_cm v w'" "w_events w' = w_events v"
    by blast+
qed

lemma Reconcile_deletion:
  assumes "Reconcile R w k = (x, w')" and g: "do_Get R w k = (Inr p, v)" and dying: "\<not> alive p"
  shows "stored (w_cluster w') = stored (w_cluster w) \<or>
      removes_finalizer (stored (w_cluster w)) (stored (w_cluster w')) k p"
    "quiet stored_cm w w'" "w_events w' = w_events w"
proof -
  note get = do_Get_cases [OF g]
  have hd: "handleDeletion R v p = (x, w')" using assms(1) g dying by (simp add: Reconcile_def)
  have "snapshot (stored (w_cluster v)) k p" using get by simp
  from handleDeletion_effect [OF hd this dying]
  show "stored (w_cluster w') = stored (w_cluster w) \<or>
      removes_finalizer (stored (w_cluster w)) (stored (w_cluster w')) k p"
    "quiet stored_cm w w'" "w_events w' = w_events w"
    using get by (simp_all add: quiet_def same_run_def)
qed

text \<open>The stored pipelines after a pass, in one statement.\<close>

lemma Reconcile_stored:
  assumes "Reconcile R w k = (x, w')"
  obtains (same) "stored (w_cluster w') = stored (w_cluster w)"
  | (step) p p' s where "stored (w_cluster w) k = Some p" "alive p" "p_key p = k" "status_step p s" "carries p p' s"
      "stored (w_cluster w') = (stored (w_cluster w))(k \<mapsto> p')"
  | (finalizer) p where "stored (w_cluster w) k = Some p" "alive p" "p_key p = k"
      "adds_finalizer (stored (w_cluster w)) (stored (w_cluster w')) k p"
  | (deletion) p where "stored (w_cluster w) k = Some p" "\<not> alive p" "p_key p = k"
      "removes_finalizer (stored (w_cluster w)) (stored (w_cluster w')) k p"
proof -
  obtain g v where g: "do_Get R w k = (g, v)" by fastforce
  show thesis
  proof (cases g)
    case (Inl e)
    then show thesis using Reconcile_unread(1) [OF assms] g that(1) by blast
  next
    case (Inr p)
    note g = g [unfolded Inr]
    have key: "p_key p = k" using do_Get_cases(4) [OF g] by (blast dest: snapshot_key)
    show thesis
    proof (cases "alive p")
      case True
      from Reconcile_effect(1) [OF assms g True] show thesis
        using that(1) that(2) [of p] that(3) [of p] True key adds_finalizer_stored
        unfolding writes_def by blast
    next
      case False
      from Reconcile_deletion(1) [OF assms g False] show thesis
        using that(1) that(4) [of p] False key removes_finalizer_stored by blast
    qed
  qed
qed

end

end
