(* ===== verification/Pipeline_Machine.thy ===== *)
theory Pipeline_Machine
  imports Pipeline_Steps
begin

text \<open>
  The contract of a pipeline as a small abstract machine, and the refinement to it.

  \<open>astep ms\<close> is the machine: a fresh pipeline starts all its stages as
  \<open>Todo\<close> (or is given up when it has none), works on the first stage that is not
  \<open>Done\<close>, retries a \<open>Broken\<close> stage at most as often as its entry of
  \<open>ms\<close> allows, and ends succeeded or given up. \<open>abs_pipeline\<close> reads a
  stored object as a state of the machine.

  \<open>wf_pipeline\<close> is the invariant of the objects the reconciler stores: the statuses
  line up with the spec, stages are done strictly in order, retry counts stay within their budget,
  a completed stage refers to its own output, and the Ready condition agrees with the phase. The
  theory shows that every status step preserves the invariant and is a step of the machine, and
  that the machine stops: \<open>fuel_left\<close> decreases at every step.
\<close>

section \<open>The machine\<close>

datatype astage = Todo nat | Broken nat | Done

datatype amachine = Fresh | Active "astage list" | Succeeded | GaveUp

text \<open>The stage in front: everything before it is done, it is not.\<close>

definition front :: "astage list \<Rightarrow> nat \<Rightarrow> bool" where
  "front xs i \<longleftrightarrow> i < length xs \<and> xs ! i \<noteq> Done \<and> list_all (\<lambda>x. x = Done) (take i xs)"

inductive astep :: "nat list \<Rightarrow> amachine \<Rightarrow> amachine \<Rightarrow> bool" for ms :: "nat list" where
  a_reject: "ms = [] \<Longrightarrow> astep ms Fresh GaveUp"
| a_start: "ms \<noteq> [] \<Longrightarrow> astep ms Fresh (Active (replicate (length ms) (Todo 0)))"
| a_complete: "front xs i \<Longrightarrow> xs ! i = Todo r \<Longrightarrow> astep ms (Active xs) (Active (xs[i := Done]))"
| a_fail: "front xs i \<Longrightarrow> xs ! i = Todo r \<Longrightarrow> astep ms (Active xs) (Active (xs[i := Broken r]))"
| a_retry: "front xs i \<Longrightarrow> xs ! i = Broken r \<Longrightarrow> r < ms ! i \<Longrightarrow>
    astep ms (Active xs) (Active (xs[i := Todo (Suc r)]))"
| a_give_up: "front xs i \<Longrightarrow> xs ! i = Broken r \<Longrightarrow> ms ! i \<le> r \<Longrightarrow> astep ms (Active xs) GaveUp"
| a_finish: "list_all (\<lambda>x. x = Done) xs \<Longrightarrow> astep ms (Active xs) Succeeded"

inductive_cases astep_FreshE: "astep ms Fresh b"
inductive_cases astep_ActiveE: "astep ms (Active xs) b"
inductive_simps astep_Succeeded [simp]: "astep ms Succeeded b"
inductive_simps astep_GaveUp [simp]: "astep ms GaveUp b"

text \<open>A bound on the steps that are left.\<close>

fun stage_fuel :: "nat \<Rightarrow> astage \<Rightarrow> nat" where
  "stage_fuel m (Todo r) = 2 * (m - r) + 2"
| "stage_fuel m (Broken r) = 2 * (m - r) + 1"
| "stage_fuel m Done = 0"

fun stages_fuel :: "nat list \<Rightarrow> astage list \<Rightarrow> nat" where
  "stages_fuel (m # ms) (x # xs) = stage_fuel m x + stages_fuel ms xs"
| "stages_fuel ms xs = 0"

fun fuel_left :: "nat list \<Rightarrow> amachine \<Rightarrow> nat" where
  "fuel_left ms Fresh = stages_fuel ms (replicate (length ms) (Todo 0)) + 2"
| "fuel_left ms (Active xs) = Suc (stages_fuel ms xs)"
| "fuel_left ms Succeeded = 0"
| "fuel_left ms GaveUp = 0"

fun fits :: "nat list \<Rightarrow> amachine \<Rightarrow> bool" where
  "fits ms (Active xs) = (length xs = length ms)"
| "fits ms _ = True"

lemma stages_fuel_update:
  "i < length xs \<Longrightarrow> length ms = length xs \<Longrightarrow>
   stages_fuel ms (xs[i := v]) + stage_fuel (ms ! i) (xs ! i) = stages_fuel ms xs + stage_fuel (ms ! i) v"
proof (induction ms xs arbitrary: i rule: stages_fuel.induct)
  case (1 m ms x xs)
  then show ?case by (cases i) auto
qed auto

lemma stages_fuel_less:
  "i < length xs \<Longrightarrow> length ms = length xs \<Longrightarrow> stage_fuel (ms ! i) v < stage_fuel (ms ! i) (xs ! i) \<Longrightarrow>
   stages_fuel ms (xs[i := v]) < stages_fuel ms xs"
  using stages_fuel_update [of i xs ms v] by linarith

lemma astep_fits: "astep ms a b \<Longrightarrow> fits ms a \<Longrightarrow> fits ms b"
  by (erule astep.cases) auto

lemma astep_fuel:
  assumes "astep ms a b" and "fits ms a"
  shows "fuel_left ms b < fuel_left ms a"
  using assms
proof (induction rule: astep.induct)
  case (a_complete xs i r)
  then have "i < length xs" "length ms = length xs" by (simp_all add: front_def)
  from stages_fuel_less [OF this, of Done] show ?case using a_complete by simp
next
  case (a_fail xs i r)
  then have "i < length xs" "length ms = length xs" by (simp_all add: front_def)
  from stages_fuel_less [OF this, of "Broken r"] show ?case using a_fail by simp
next
  case (a_retry xs i r)
  then have "i < length xs" "length ms = length xs" by (simp_all add: front_def)
  from stages_fuel_less [OF this, of "Todo (Suc r)"] show ?case using a_retry by simp
qed simp_all

lemma astep_progress: "a \<noteq> Succeeded \<Longrightarrow> a \<noteq> GaveUp \<Longrightarrow> \<exists>b. astep ms a b"
proof (cases a)
  case Fresh
  then show ?thesis by (cases "ms = []") (auto intro: astep.intros)
next
  case (Active xs)
  show ?thesis
  proof (cases "list_all (\<lambda>x. x = Done) xs")
    case True
    then show ?thesis using Active by (auto intro: a_finish)
  next
    case False
    then obtain i where "i < length xs" "xs ! i \<noteq> Done" by (auto simp: list_all_length)
    then obtain j where j: "j < length xs" "xs ! j \<noteq> Done" "\<forall>k<j. xs ! k = Done"
      using exists_least_iff [of "\<lambda>j. j < length xs \<and> xs ! j \<noteq> Done"] by (metis order.strict_trans)
    then have f: "front xs j" by (auto simp: front_def list_all_length)
    show ?thesis
    proof (cases "xs ! j")
      case (Todo r)
      then show ?thesis using a_complete [OF f] Active by blast
    next
      case (Broken r)
      then show ?thesis
        using a_retry [OF f Broken] a_give_up [OF f Broken] Active by (meson linorder_not_less)
    qed (use j in simp)
  qed
qed simp_all

lemma fuel_left_Fresh: "fuel_left ms Fresh = (\<Sum>m\<leftarrow>ms. 2 * Suc m) + 2"
  by (induction ms) simp_all

text \<open>A run of the machine has at most \<open>fuel_left\<close> steps.\<close>

inductive asteps :: "nat list \<Rightarrow> nat \<Rightarrow> amachine \<Rightarrow> amachine \<Rightarrow> bool" for ms where
  asteps_0: "asteps ms 0 a a"
| asteps_Suc: "astep ms a b \<Longrightarrow> asteps ms n b c \<Longrightarrow> asteps ms (Suc n) a c"

lemma asteps_bounded: "asteps ms n a b \<Longrightarrow> fits ms a \<Longrightarrow> n + fuel_left ms b \<le> fuel_left ms a"
proof (induction rule: asteps.induct)
  case (asteps_Suc a b n c)
  then show ?case using astep_fuel [OF asteps_Suc.hyps(1)] astep_fits [OF asteps_Suc.hyps(1)] by simp
qed simp

section \<open>Reading a stored pipeline as a state of the machine\<close>

definition max_retries :: "AgentPipeline \<Rightarrow> StageSpec \<Rightarrow> nat" where
  "max_retries p stage = nat (sint (rp_MaxRetries (GetEffectiveRetryPolicy p stage)))"

definition budgets :: "AgentPipeline \<Rightarrow> nat list" where
  "budgets p = map (max_retries p) (p_stages p)"

abbreviation retries_used :: "StageStatus \<Rightarrow> nat" where
  "retries_used ss \<equiv> nat (sint (st_RetryCount ss))"

definition abs_stage :: "StageStatus \<Rightarrow> astage" where
  "abs_stage ss = (if st_Phase ss = StageCompleted then Done
     else if st_Phase ss = StageFailed then Broken (retries_used ss) else Todo (retries_used ss))"

definition fresh :: "AgentPipeline \<Rightarrow> bool" where
  "fresh p \<longleftrightarrow> p_phase p = '''' \<or> p_phase p = PhasePending"

definition terminal :: "AgentPipeline \<Rightarrow> bool" where
  "terminal p \<longleftrightarrow> p_phase p = PhaseCompleted \<or> p_phase p = PhaseFailed"

definition abs_pipeline :: "AgentPipeline \<Rightarrow> amachine" where
  "abs_pipeline p = (if fresh p then Fresh
     else if p_phase p = PhaseRunning then Active (map abs_stage (p_statuses p))
     else if p_phase p = PhaseCompleted then Succeeded else GaveUp)"

section \<open>The invariant\<close>

definition ready_with :: "Condition list \<Rightarrow> string \<Rightarrow> string \<Rightarrow> bool" where
  "ready_with cs status reason \<longleftrightarrow>
     (case find (\<lambda>x. cond_Type x = ''Ready'') cs of
        None \<Rightarrow> False | Some x \<Rightarrow> cond_Status x = status \<and> cond_Reason x = reason)"

definition untouched :: "StageStatus \<Rightarrow> bool" where
  "untouched ss \<longleftrightarrow> ss = zero_StageStatus\<lparr>st_Name := st_Name ss, st_Phase := StagePending\<rparr>"

fun in_order :: "StageStatus list \<Rightarrow> bool" where
  "in_order [] = True"
| "in_order (ss # rest) = (if st_Phase ss = StageCompleted then in_order rest else list_all untouched rest)"

definition phase_ok :: "AgentPipeline \<Rightarrow> StageSpec \<Rightarrow> StageStatus \<Rightarrow> bool" where
  "phase_ok p stage ss \<longleftrightarrow>
     (if st_Phase ss = StageCompleted then
        st_OutputRef ss = outputConfigMapName (p_name p) (sp_Name stage) \<and> st_CompletedAt ss \<noteq> None \<and> st_Error ss = ''''
      else if st_Phase ss = StageFailed then
        st_OutputRef ss = '''' \<and> st_CompletedAt ss \<noteq> None \<and> st_StartedAt ss \<noteq> None
      else st_Phase ss = StagePending \<and> st_OutputRef ss = '''' \<and> st_CompletedAt ss = None \<and> st_Error ss = '''')"

definition stage_ok :: "AgentPipeline \<Rightarrow> StageSpec \<Rightarrow> StageStatus \<Rightarrow> bool" where
  "stage_ok p stage ss \<longleftrightarrow> st_Name ss = sp_Name stage \<and> 0 \<le> sint (st_RetryCount ss) \<and>
     retries_used ss \<le> max_retries p stage \<and> length (st_Output ss) \<le> maxStatusOutputLen \<and> phase_ok p stage ss"

definition aligned :: "AgentPipeline \<Rightarrow> bool" where
  "aligned p \<longleftrightarrow> p_stages p \<noteq> [] \<and> list_all2 (stage_ok p) (p_stages p) (p_statuses p) \<and> in_order (p_statuses p)"

definition exhausted :: "AgentPipeline \<Rightarrow> bool" where
  "exhausted p \<longleftrightarrow> list_ex (\<lambda>(stage, ss). st_Phase ss = StageFailed \<and> retries_used ss = max_retries p stage)
     (zip (p_stages p) (p_statuses p))"

definition wf_pipeline :: "AgentPipeline \<Rightarrow> bool" where
  "wf_pipeline p \<longleftrightarrow>
     (if fresh p then True
      else if p_phase p = PhaseRunning then
        aligned p \<and> sts_StartedAt (ap_Status p) \<noteq> None \<and>
        ready_with (sts_Conditions (ap_Status p)) ''False'' ''PipelineStarted''
      else if p_phase p = PhaseCompleted then
        aligned p \<and> list_all (\<lambda>ss. st_Phase ss = StageCompleted) (p_statuses p) \<and>
        sts_CurrentStage (ap_Status p) = '''' \<and> sts_CompletedAt (ap_Status p) \<noteq> None \<and>
        ready_with (sts_Conditions (ap_Status p)) ''True'' ''PipelineCompleted''
      else
        p_phase p = PhaseFailed \<and> (p_stages p = [] \<or> (aligned p \<and> exhausted p)) \<and>
        sts_CompletedAt (ap_Status p) \<noteq> None \<and>
        ready_with (sts_Conditions (ap_Status p)) ''False'' ''PipelineFailed'')"

lemma ready_is_with: "sets_ready p cs s r m \<Longrightarrow> ready_with cs s r"
  by (auto simp: sets_ready_def ready_is_def ready_with_def split: option.splits)

lemma untouched_phase: "untouched ss \<Longrightarrow> st_Phase ss = StagePending"
  unfolding untouched_def by (erule ssubst) simp

lemma untouched_in_order: "list_all untouched xs \<Longrightarrow> in_order xs"
  by (cases xs) (auto dest: untouched_phase)

lemma in_order_update:
  "in_order xs \<Longrightarrow> i < length xs \<Longrightarrow> \<forall>j<i. st_Phase (xs ! j) = StageCompleted \<Longrightarrow>
   st_Phase (xs ! i) \<noteq> StageCompleted \<Longrightarrow> in_order (xs[i := v])"
proof (induction xs arbitrary: i)
  case (Cons x xs)
  show ?case
  proof (cases i)
    case 0
    then show ?thesis using Cons.prems by (simp add: untouched_in_order)
  next
    case (Suc j)
    have "st_Phase x = StageCompleted" using Cons.prems(3) Suc by (auto dest: spec [of _ 0])
    moreover have "\<forall>k<j. st_Phase (xs ! k) = StageCompleted" using Cons.prems(3) Suc by auto
    ultimately show ?thesis using Cons.IH [of j] Cons.prems Suc by simp
  qed
qed simp

text \<open>The parts of a pipeline that the invariant reads.\<close>

definition same_view :: "AgentPipeline \<Rightarrow> AgentPipeline \<Rightarrow> bool" where
  "same_view p p' \<longleftrightarrow> ap_Spec p' = ap_Spec p \<and> p_name p' = p_name p"

lemma view_cong:
  assumes "same_view p p'"
  shows "max_retries p' stage = max_retries p stage" "stage_ok p' stage ss = stage_ok p stage ss"
    "p_stages p' = p_stages p" "budgets p' = budgets p" "stage_ok p' = stage_ok p"
proof -
  have mr: "max_retries p' = max_retries p"
    using assms
    by (simp add: same_view_def max_retries_def GetEffectiveRetryPolicy_def fun_eq_iff split: option.split)
  then show ok: "stage_ok p' = stage_ok p"
    using assms by (auto simp: same_view_def stage_ok_def phase_ok_def fun_eq_iff)
  show "max_retries p' stage = max_retries p stage" "stage_ok p' stage ss = stage_ok p stage ss"
    "p_stages p' = p_stages p" "budgets p' = budgets p"
    using assms mr ok by (simp_all add: same_view_def budgets_def)
qed

lemma carries_view: "carries p p' s \<Longrightarrow> same_view p p'"
  by (auto simp: carries_def same_view_def p_key_def)

lemma wf_same_status:
  assumes "same_view p p'" and "ap_Status p' = ap_Status p"
  shows "wf_pipeline p' = wf_pipeline p"
  using view_cong [OF assms(1)] assms(2)
  by (simp add: wf_pipeline_def fresh_def aligned_def exhausted_def)

section \<open>Every status step is a step of the machine and keeps the invariant\<close>

lemma wf_running: "p_phase p = PhaseRunning \<Longrightarrow> wf_pipeline p \<Longrightarrow> aligned p"
  by (simp add: wf_pipeline_def fresh_def)

lemma aligned_lengths: "aligned p \<Longrightarrow> length (p_statuses p) = length (p_stages p)"
  by (auto simp: aligned_def dest: list_all2_lengthD)

lemma aligned_nth:
  "aligned p \<Longrightarrow> i < length (p_stages p) \<Longrightarrow> stage_ok p (p_stages p ! i) (cur_status p i)"
  by (auto simp: aligned_def list_all2_conv_all_nth)

lemma stage_ok_done: "stage_ok p stage ss \<Longrightarrow> stage_done ss \<longleftrightarrow> st_Phase ss = StageCompleted"
  by (auto simp: stage_ok_def phase_ok_def stage_done_def split: if_splits)

lemma all_done_completed:
  assumes "aligned p"
  shows "list_all stage_done (p_statuses p) \<longleftrightarrow> list_all (\<lambda>ss. st_Phase ss = StageCompleted) (p_statuses p)"
  using stage_ok_done [OF aligned_nth [OF assms]] aligned_lengths [OF assms] by (simp add: list_all_length)

lemma working_on_facts:
  assumes "working_on p stage i" and "wf_pipeline p"
  shows "aligned p" "i < length (p_stages p)" "i < length (p_statuses p)" "stage = p_stages p ! i"
    "stage_ok p stage (cur_status p i)" "st_Phase (cur_status p i) \<noteq> StageCompleted"
    "\<forall>j<i. st_Phase (cur_status p j) = StageCompleted" "p_phase p = PhaseRunning"
proof -
  have run: "p_phase p = PhaseRunning" and cur: "FindCurrentStage p = Inr (Some (stage, i))"
    using assms(1) by (auto simp: working_on_def)
  note c = FindCurrentStage_SomeD [OF cur]
  show al: "aligned p" using run assms(2) by (rule wf_running)
  show "i < length (p_stages p)" "i < length (p_statuses p)" "stage = p_stages p ! i" "p_phase p = PhaseRunning"
    by (fact c run)+
  show ok: "stage_ok p stage (cur_status p i)" using aligned_nth [OF al c(2)] c(3) by simp
  show "st_Phase (cur_status p i) \<noteq> StageCompleted" using c(4) by (simp add: stage_done_def)
  show "\<forall>j<i. st_Phase (cur_status p j) = StageCompleted"
    using c(2,5) stage_ok_done [OF aligned_nth [OF al]] by (meson less_trans)
qed

lemma working_on_front:
  assumes "working_on p stage i" and "wf_pipeline p"
  shows "front (map abs_stage (p_statuses p)) i"
  using working_on_facts [OF assms] by (auto simp: front_def list_all_length abs_stage_def)

lemma aligned_update:
  assumes "working_on p stage i" and "wf_pipeline p" and "stage_ok p stage v"
    and "same_view p p'" and "p_statuses p' = (p_statuses p)[i := v]"
  shows "aligned p'"
proof -
  note w = working_on_facts [OF assms(1,2)]
  have "in_order ((p_statuses p)[i := v])"
    using w by (intro in_order_update) (auto simp: aligned_def)
  moreover have "list_all2 (stage_ok p) (p_stages p) ((p_statuses p)[i := v])"
    using w assms(3) by (intro list_all2_update) (auto simp: aligned_def)
  ultimately show ?thesis
    using w(1) assms(5) view_cong [OF assms(4)] by (simp add: aligned_def)
qed

lemma stage_write:
  assumes "working_on p stage i" and "wf_pipeline p" and "stage_ok p stage v"
    and c: "carries p p' s" and s: "sts_Phase s = PhaseRunning" "sts_Stages s = (p_statuses p)[i := v]"
      "sts_StartedAt s = sts_StartedAt (ap_Status p)" "sts_Conditions s = sts_Conditions (ap_Status p)"
  shows "wf_pipeline p'" "abs_pipeline p = Active (map abs_stage (p_statuses p))"
    "abs_pipeline p' = Active ((map abs_stage (p_statuses p))[i := abs_stage v])"
proof -
  have st: "ap_Status p' = s" using c by (simp add: carries_def)
  have ph: "p_phase p = PhaseRunning" by (rule working_on_facts [OF assms(1,2)])
  show "abs_pipeline p = Active (map abs_stage (p_statuses p))"
    "abs_pipeline p' = Active ((map abs_stage (p_statuses p))[i := abs_stage v])"
    using s st ph by (simp_all add: abs_pipeline_def fresh_def map_update)
  have "aligned p'" using s st by (intro aligned_update [OF assms(1-3) carries_view [OF c]]) simp
  then show "wf_pipeline p'" using s st ph assms(2) by (simp add: wf_pipeline_def fresh_def)
qed

lemma init_aligned:
  assumes "p_stages p \<noteq> []" "same_view p p'"
    and "p_statuses p' = map (\<lambda>stage. zero_StageStatus\<lparr>st_Name := sp_Name stage, st_Phase := StagePending\<rparr>) (p_stages p)"
  shows "aligned p'"
proof -
  have "list_all untouched (p_statuses p')"
    by (simp add: assms(3) list_all_iff untouched_def zero_StageStatus_def)
  moreover have "list_all2 (stage_ok p) (p_stages p) (p_statuses p')"
    by (simp add: assms(3) list_all2_conv_all_nth stage_ok_def phase_ok_def zero_StageStatus_def)
  ultimately show ?thesis
    using assms(1) untouched_in_order view_cong [OF assms(2)] by (simp add: aligned_def)
qed

text \<open>The stage budget read as an integer, and the retry count that is one larger.\<close>

lemma retries_left_nat:
  assumes "stage_ok p stage (cur_status p i)"
  shows "retries_left p stage i \<longleftrightarrow> retries_used (cur_status p i) < max_retries p stage"
  using assms by (auto simp: retries_left_def max_retries_def stage_ok_def)

lemma retry_count_Suc:
  assumes "stage_ok p stage (cur_status p i)" and "retries_left p stage i"
  shows "sint (st_RetryCount (cur_status p i) + 1) = sint (st_RetryCount (cur_status p i)) + 1"
    "nat (sint (st_RetryCount (cur_status p i) + 1)) = Suc (retries_used (cur_status p i))"
proof -
  show "sint (st_RetryCount (cur_status p i) + 1) = sint (st_RetryCount (cur_status p i)) + 1"
    using assms(2) unfolding retries_left_def by (rule sint_less_add_one)
  then show "nat (sint (st_RetryCount (cur_status p i) + 1)) = Suc (retries_used (cur_status p i))"
    using assms(1) by (simp add: stage_ok_def nat_add_distrib)
qed

lemma status_step_refines:
  assumes "status_step p s" and wf: "wf_pipeline p" and c: "carries p p' s"
  shows "wf_pipeline p' \<and> astep (budgets p) (abs_pipeline p) (abs_pipeline p')"
  using assms(1)
proof cases
  case (no_stages cs t)
  then show ?thesis
    using c carries_view [OF c] astep.a_reject [of "budgets p"] ready_is_with [OF no_stages(4)]
    by (auto simp: carries_def wf_pipeline_def fresh_def abs_pipeline_def budgets_def same_view_def)
next
  case (started cs t)
  have st: "ap_Status p' = s" using c by (simp add: carries_def)
  have "aligned p'" by (rule init_aligned [OF started(3) carries_view [OF c]]) (simp add: st started(1))
  moreover have "abs_pipeline p' = Active (replicate (length (budgets p)) (Todo 0))"
    by (simp add: st started(1) abs_pipeline_def fresh_def budgets_def comp_def abs_stage_def
        zero_StageStatus_def map_replicate_const)
  moreover have "budgets p \<noteq> []" using started(3) by (simp add: budgets_def)
  ultimately show ?thesis
    using started astep.a_start [of "budgets p"] ready_is_with [OF started(4)] st
    by (auto simp: wf_pipeline_def fresh_def abs_pipeline_def)
next
  case (stage_failed stage i e t t0)
  note w = working_on_facts [OF stage_failed(2) wf]
  let ?v = "(cur_status p i)\<lparr>st_StartedAt := Some t0, st_Phase := StageFailed, st_CompletedAt := Some t, st_Error := e\<rparr>"
  have "stage_ok p stage ?v" using w(5) stage_failed(3) by (simp add: stage_ok_def phase_ok_def)
  from stage_write [OF stage_failed(2) wf this c] show ?thesis
    using astep.a_fail [OF working_on_front [OF stage_failed(2) wf]] w stage_failed(1,3)
    by (simp add: abs_stage_def)
next
  case (stage_completed stage i tid out t t0)
  note w = working_on_facts [OF stage_completed(2) wf]
  let ?v = "(cur_status p i)\<lparr>st_StartedAt := Some t0, st_Phase := StageCompleted, st_CompletedAt := Some t,
    st_Output := truncateOutput out, st_OutputRef := outputConfigMapName (p_name p) (sp_Name stage), st_TaskID := tid\<rparr>"
  have "stage_ok p stage ?v"
    using w(5) stage_completed(3) by (simp add: stage_ok_def phase_ok_def truncateOutput_length)
  from stage_write [OF stage_completed(2) wf this c] show ?thesis
    using astep.a_complete [OF working_on_front [OF stage_completed(2) wf]] w stage_completed(1,3)
    by (simp add: abs_stage_def)
next
  case (stage_recovered stage i out t)
  note w = working_on_facts [OF stage_recovered(2) wf]
  let ?v = "(cur_status p i)\<lparr>st_Phase := StageCompleted, st_CompletedAt := Some t,
    st_Output := truncateOutput out, st_OutputRef := outputConfigMapName (p_name p) (sp_Name stage)\<rparr>"
  have "stage_ok p stage ?v"
    using w(5) stage_recovered(3) by (simp add: stage_ok_def phase_ok_def truncateOutput_length)
  from stage_write [OF stage_recovered(2) wf this c] show ?thesis
    using astep.a_complete [OF working_on_front [OF stage_recovered(2) wf]] w stage_recovered(1,3)
    by (simp add: abs_stage_def)
next
  case (retried stage i)
  note w = working_on_facts [OF retried(2) wf]
  note more = retry_count_Suc [OF w(5) retried(4)] and left = retried(4) [unfolded retries_left_nat [OF w(5)]]
  let ?v = "(cur_status p i)\<lparr>st_RetryCount := st_RetryCount (cur_status p i) + 1,
         st_Phase := StagePending, st_Error := '''', st_CompletedAt := None\<rparr>"
  have "stage_ok p stage ?v"
    using w(5) retried(3) more left by (simp add: stage_ok_def phase_ok_def)
  from stage_write [OF retried(2) wf this c] show ?thesis
    using astep.a_retry [OF working_on_front [OF retried(2) wf], of "retries_used (cur_status p i)" "budgets p"]
      w retried(1,3) more left
    by (simp add: abs_stage_def budgets_def)
next
  case (gave_up stage i cs tbl t)
  note w = working_on_facts [OF gave_up(2) wf]
  have full: "retries_used (cur_status p i) = max_retries p stage"
    using w(5) gave_up(4) retries_left_nat [OF w(5)] by (simp add: stage_ok_def)
  have "exhausted p'" "aligned p'"
    using w full gave_up(1,3) c view_cong [OF carries_view [OF c]]
    by (auto simp: exhausted_def list_ex_length carries_def aligned_def intro!: exI [where x = i])
  then show ?thesis
    using astep.a_give_up [OF working_on_front [OF gave_up(2) wf], of "retries_used (cur_status p i)" "budgets p"]
      w gave_up full c ready_is_with [OF gave_up(5)]
    by (auto simp: abs_stage_def budgets_def carries_def wf_pipeline_def fresh_def abs_pipeline_def)
next
  case (completed cs t)
  have al: "aligned p" using completed wf by (intro wf_running) auto
  have fin: "\<forall>ss\<in>set (p_statuses p). st_Phase ss = StageCompleted"
    using completed(3) all_done_completed [OF al] by (simp add: FindCurrentStage_None_iff list_all_iff)
  have "aligned p'" using al completed(1) c view_cong [OF carries_view [OF c]] by (simp add: aligned_def carries_def)
  then show ?thesis
    using astep.a_finish [of "map abs_stage (p_statuses p)" "budgets p"] fin completed c ready_is_with [OF completed(4)]
    by (auto simp: carries_def wf_pipeline_def fresh_def abs_pipeline_def list_all_iff abs_stage_def)
qed

end
