(* ===== verification/Status_Schema.thy ===== *)
theory Status_Schema
  imports Pipeline_Machine
begin

text \<open>
  The statuses the operator writes and the schema of the API server. Every status step of a
  pipeline with a valid status gives a valid status again, with one exception: the step that gives
  up a stage puts the error of the agent into the \<open>Ready\<close> condition, and an error
  that is too long for a condition makes the status invalid (\<open>unreportable\<close>).

  The last section is about the names and labels of the ConfigMaps the operator makes out of the
  names of pipelines and stages.
\<close>

section \<open>Statuses\<close>

lemma valid_phases [simp]:
  "valid_StagePhase StagePending" "valid_StagePhase StageRunning" "valid_StagePhase StageCompleted" "valid_StagePhase StageFailed"
  "valid_PipelinePhase PhaseRunning" "valid_PipelinePhase PhaseCompleted" "valid_PipelinePhase PhaseFailed"
  by (simp_all add: valid_StagePhase_def valid_PipelinePhase_def)

lemma valid_status_stage:
  "valid_AgentPipelineStatus s \<Longrightarrow> valid_StagePhase (st_Phase v) \<Longrightarrow> valid_AgentPipelineStatus (s\<lparr>sts_Stages := (sts_Stages s)[i := v]\<rparr>)"
  by (simp add: valid_AgentPipelineStatus_def valid_StageStatus_def list_all_update)

lemma valid_status_current [simp]: "valid_AgentPipelineStatus (s\<lparr>sts_CurrentStage := c\<rparr>) = valid_AgentPipelineStatus s"
  by (simp add: valid_AgentPipelineStatus_def)

lemma valid_set_stage:
  assumes "valid_AgentPipelineStatus (ap_Status p)" and "\<And>s. valid_StagePhase (st_Phase (f s))"
  shows "valid_AgentPipelineStatus (ap_Status (set_stage i f p))"
  using valid_status_stage [OF assms] by (simp add: ap_Status_set_stage)

lemma initial_valid:
  "list_all valid_StageStatus (map (\<lambda>stage. zero_StageStatus\<lparr>st_Name := sp_Name stage, st_Phase := StagePending\<rparr>) xs)"
  by (simp add: list_all_iff valid_StageStatus_def)

lemma valid_ready:
  assumes "sets_ready p cs status reason msg" and v: "valid_AgentPipelineStatus (ap_Status p)" and g: "0 \<le> om_Generation (ap_Meta p)"
    and new: "status \<in> {''True'', ''False''}" "reason \<in> {''PipelineStarted'', ''PipelineCompleted'', ''PipelineFailed''}"
    and msg: "message_fits msg"
  shows "list_all valid_Condition cs" "distinct (map cond_Type cs)"
proof -
  have r: "reason_pattern reason \<and> rune_count reason \<le> 1024" using new(2) by (elim insertE) simp_all
  have st: "status \<in> {''True'', ''False'', ''Unknown''}" using new(1) by blast
  have "valid_Condition c" if cs: "c \<in> set cs" for c
  proof -
    consider "c \<in> set (sts_Conditions (ap_Status p))" | "cond_Type c = ''Ready''" "cond_Status c = status" "cond_Reason c = reason"
        "cond_Message c = msg" "cond_ObservedGeneration c = om_Generation (ap_Meta p)"
      by (rule disjE [OF bspec [OF conjunct1 [OF conjunct2 [OF assms(1) [unfolded sets_ready_def]]] cs]]) simp_all
    then show ?thesis
    proof cases
      case 1
      then show ?thesis using v by (simp add: valid_AgentPipelineStatus_def list_all_iff)
    next
      case 2
      have "type_pattern ''Ready'' \<and> rune_count ''Ready'' \<le> 316" by simp
      then show ?thesis using st r msg g unfolding valid_Condition_def 2 by blast
    qed
  qed
  then show "list_all valid_Condition cs" by (simp add: list_all_iff)
  show "distinct (map cond_Type cs)" using assms(1) v by (simp add: sets_ready_def valid_AgentPipelineStatus_def)
qed

text \<open>The pipeline is about to be given up with a message that no condition can hold.\<close>

definition unreportable :: "(nat \<Rightarrow> bool) \<Rightarrow> AgentPipeline \<Rightarrow> bool" where
  "unreportable tbl p \<longleftrightarrow> p_phase p = PhaseRunning \<and> (case FindCurrentStage p of
      Inr (Some (stage, i)) \<Rightarrow> AreDependenciesMet p stage \<and> st_Phase (cur_status p i) = StageFailed \<and>
        \<not> retries_left p stage i \<and> \<not> message_fits (failure_text tbl stage (cur_status p i))
    | _ \<Rightarrow> False)"

lemma unreportable_working:
  "working_on p stage i \<Longrightarrow> unreportable tbl p \<longleftrightarrow> st_Phase (cur_status p i) = StageFailed \<and> \<not> retries_left p stage i \<and>
     \<not> message_fits (failure_text tbl stage (cur_status p i))"
  by (auto simp: unreportable_def working_on_def)

lemma failure_text_label: "dns_label (sp_Name stage) \<Longrightarrow> failure_text tbl stage s = failure_text tbl' stage s"
  by (simp add: failure_text_def quote_label)

lemma working_on_label:
  assumes "working_on p stage i" and "valid_AgentPipelineSpec (ap_Spec p)"
  shows "valid_StageSpec stage" "dns_label (sp_Name stage)"
proof -
  have "stage \<in> set (p_stages p)"
    using FindCurrentStage_SomeD(2,3) [of p stage i] assms(1) by (simp add: working_on_def)
  then show "valid_StageSpec stage" using assms(2) by (simp add: valid_AgentPipelineSpec_def list_all_iff)
  then show "dns_label (sp_Name stage)" by (simp add: valid_StageSpec_def)
qed

lemma status_step_valid:
  assumes "status_step p s" and v: "valid_AgentPipelineStatus (ap_Status p)" and g: "0 \<le> om_Generation (ap_Meta p)"
    and spec: "valid_AgentPipelineSpec (ap_Spec p)" and "\<not> unreportable tbl p"
  shows "valid_AgentPipelineStatus s"
  using assms(1)
proof cases
  case (no_stages cs t)
  then show ?thesis using v valid_ready [OF no_stages(4) v g] by (simp add: valid_AgentPipelineStatus_def)
next
  case (started cs t)
  then show ?thesis using v valid_ready [OF started(4) v g]
    by (simp add: valid_AgentPipelineStatus_def initial_valid)
next
  case (gave_up stage i cs tbl' t)
  have "message_fits (failure_text tbl' stage (cur_status p i))"
    using assms(5) gave_up(2-4) failure_text_label [OF working_on_label(2) [OF gave_up(2) spec]]
    by (metis unreportable_working)
  then show ?thesis using gave_up(1) v valid_ready [OF gave_up(5) v g] by (simp add: valid_AgentPipelineStatus_def)
next
  case (completed cs t)
  then show ?thesis using v valid_ready [OF completed(4) v g] by (simp add: valid_AgentPipelineStatus_def)
qed (use v in \<open>simp_all add: valid_AgentPipelineStatus_def valid_StageStatus_def list_all_update\<close>)

section \<open>Output ConfigMaps\<close>

text \<open>The names that fit into labels; Kubernetes admits pipeline names of up to 253 bytes.\<close>

definition names_fit :: "AgentPipeline \<Rightarrow> bool" where
  "names_fit p \<longleftrightarrow> dns_subdomain (p_name p) \<and> length (p_name p) \<le> 63 \<and> list_all (\<lambda>st. length (sp_Name st) \<le> 63) (p_stages p)"

lemma output_labels:
  "om_Name (cm_Meta (output_config_map p s out)) = outputConfigMapName (p_name p) s"
  "om_Labels (cm_Meta (output_config_map p s out)) = [(''app.kubernetes.io/managed-by'', ''agentpipeline-operator''),
     (''aiops.cluster69.io/pipeline'', p_name p), (''aiops.cluster69.io/stage'', s)]"
  by (simp_all add: output_config_map_def)

lemma managed_by_label: "label_value ''agentpipeline-operator''"
  by (simp add: label_value_def name_pattern_def alnum_def lower_alnum_def byte_in_def)

lemma output_valid_iff:
  assumes "dns_subdomain (p_name p)" and "dns_label s"
  shows "valid_meta (output_config_map p s out) \<longleftrightarrow> length (p_name p) \<le> 63 \<and> length s \<le> 63"
proof -
  have "valid_meta (output_config_map p s out) \<longleftrightarrow>
      length (p_name p) + length s \<le> 246 \<and> length (p_name p) \<le> 63 \<and> length s \<le> 63"
    unfolding valid_meta_def output_labels outputConfigMapName_def subdomain_append [OF assms]
    by (simp add: managed_by_label subdomain_label_value [OF assms(1)] dns_label_value [OF assms(2)])
  then show ?thesis by linarith
qed

lemma names_fit_valid:
  assumes "names_fit p" and "valid_AgentPipelineSpec (ap_Spec p)" and "working_on p stage i"
  shows "valid_meta (output_config_map p (sp_Name stage) out)"
proof -
  have "stage \<in> set (p_stages p)"
    using FindCurrentStage_SomeD(2,3) [of p stage i] assms(3) by (simp add: working_on_def)
  then show ?thesis
    using output_valid_iff [OF _ working_on_label(2) [OF assms(3,2)]] assms(1) by (simp add: names_fit_def list_all_iff)
qed

end
