(* ===== verification/Pipeline_Progress.thy ===== *)
theory Pipeline_Progress
  imports Status_Schema
begin

text \<open>
  What one pass achieves when the API server is in good order: it stores a status. The lemmas
  follow the handlers as in \<open>Pipeline_Steps\<close>, with the stronger conclusion that the write
  happened, because what they send is valid. The only ways for a live, unfinished pipeline to stay
  where it is, are then a stage whose dependencies are not met, which dependencies on earlier
  stages exclude, and a failure whose message does not fit into a condition.
\<close>

section \<open>A write that happened\<close>

definition moved ::
  "('c \<Rightarrow> NamespacedName \<Rightarrow> AgentPipeline option) \<Rightarrow> 'c \<Rightarrow> 'c \<Rightarrow> NamespacedName \<Rightarrow> AgentPipeline
   \<Rightarrow> (AgentPipelineStatus \<Rightarrow> bool) \<Rightarrow> bool" where
  "moved st c c' k p S \<longleftrightarrow> (\<exists>p' s. st c' = (st c)(k \<mapsto> p') \<and> carries p p' s \<and> S s)"

lemma moved_eq_left: "st d = st c \<Longrightarrow> moved st d c' k p S = moved st c c' k p S"
  by (simp add: moved_def)

text \<open>
  The phase of the next status, and what a pass that stores it returns: while the pipeline runs it
  asks to be repeated, for a retry after the backoff; at the end it does not.
\<close>

definition next_phase :: "AgentPipeline \<Rightarrow> PipelinePhase" where
  "next_phase p = (if p_phase p \<noteq> PhaseRunning then (if p_stages p = [] then PhaseFailed else PhaseRunning)
     else (case FindCurrentStage p of Inr None \<Rightarrow> PhaseCompleted
       | Inr (Some (stage, i)) \<Rightarrow>
           (if st_Phase (cur_status p i) = StageFailed \<and> \<not> retries_left p stage i then PhaseFailed else PhaseRunning)
       | Inl e \<Rightarrow> PhaseRunning))"

lemma status_step_phase: "status_step p s \<Longrightarrow> sts_Phase s = next_phase p"
  by (cases rule: status_step.cases) (auto simp: next_phase_def working_on_def)

definition retry_delay :: "AgentPipeline \<Rightarrow> StageSpec \<Rightarrow> duration" where
  "retry_delay p stage = (case rp_Backoff (GetEffectiveRetryPolicy p stage) of None \<Rightarrow> 30 * Second | Some d \<Rightarrow> d)"

definition pass_result :: "AgentPipeline \<Rightarrow> outcome \<Rightarrow> bool" where
  "pass_result p x \<longleftrightarrow> (if next_phase p = PhaseRunning
     then x = Ret requeue_now None \<or> (\<exists>stage\<in>set (p_stages p). x = Ret (requeue_after (retry_delay p stage)) None)
     else x = Ret no_requeue None)"

text \<open>The outputs of a runner that the API server can store.\<close>

definition outputs_fit :: "('c,'r) recon \<Rightarrow> nat \<Rightarrow> bool" where
  "outputs_fit R limit \<longleftrightarrow> (\<forall>r req res. fst (Runner_RunAgent R r req) = Inr res \<longrightarrow>
     length configMapDataKey + length (res_Output res) \<le> limit)"

context k8s_reliable
begin

lemma after_StatusUpdate_up:
  assumes "(case do_StatusUpdate R w q of (Inl e, v) \<Rightarrow> (f e, v) | (Inr y, v) \<Rightarrow> (g, h v)) = (x, w')"
    and "\<And>v. w_cluster (h v) = w_cluster v"
    and up: "up (w_cluster w)" and st: "stored (w_cluster w) k = Some p" and q: "ap_Meta q = ap_Meta p"
    and k: "p_key p = k" and "S (ap_Status q)" and valid: "valid_AgentPipelineStatus (ap_Status q)"
  shows "moved stored (w_cluster w) (w_cluster w') k p S" "up (w_cluster w')" "x = g"
proof -
  have kq: "p_key q = k" using q k by (simp add: p_key_def)
  obtain p' c where c: "client_StatusUpdate R (w_cluster w) q = (Inr p', c)" and up': "up c"
    using up_StatusUpdate [OF up, of q p] up_StatusUpdate_kept [OF up, of q] st q kq valid by fastforce
  have w': "w_cluster w' = c" and x: "x = g"
    using assms(1,2) c by (auto simp: do_StatusUpdate_def)
  show "up (w_cluster w')" "x = g" using up' w' x by simp_all
  have "carries p p' (ap_Status q) \<and> stored c = (stored (w_cluster w))(k \<mapsto> p')"
    using StatusUpdate_ok [OF c] kq st k by (auto simp: carries_def)
  then show "moved stored (w_cluster w) (w_cluster w') k p S"
    using assms(7) w' by (auto simp: moved_def)
qed

lemma failStage_up:
  assumes "failStage R w q i e = (x, w')" and "up (w_cluster w)" and "stored (w_cluster w) k = Some p"
    and "ap_Meta q = ap_Meta p" and "p_key p = k"
    and "\<And>t. S (ap_Status (set_stage i (\<lambda>s. s\<lparr>st_Phase := StageFailed, st_CompletedAt := Some t,
               st_Error := e\<rparr>) q))"
    and valid: "valid_AgentPipelineStatus (ap_Status q)"
  shows "moved stored (w_cluster w) (w_cluster w') k p S" "up (w_cluster w')" "x = Ret requeue_now None"
  using after_StatusUpdate_up [OF assms(1) [unfolded failStage_def metav1_Now_def Let_def prod.case],
      of k p S] assms(2-) valid_set_stage [OF valid] by simp_all

lemma completePipeline_up:
  assumes "completePipeline R w q = (x, w')" and "up (w_cluster w)" and "stored (w_cluster w) k = Some p"
    and "ap_Meta q = ap_Meta p" and "p_key p = k"
    and "\<And>t cs. sets_ready q cs ''True'' ''PipelineCompleted'' ''All stages completed successfully'' \<Longrightarrow>
          S ((ap_Status q)\<lparr>sts_Phase := PhaseCompleted, sts_CompletedAt := Some t,
               sts_CurrentStage := '''', sts_Conditions := cs\<rparr>)"
    and valid: "valid_AgentPipelineStatus (ap_Status q)"
  shows "moved stored (w_cluster w) (w_cluster w') k p S" "up (w_cluster w')" "x = Ret no_requeue None"
  using after_StatusUpdate_up [OF assms(1) [unfolded completePipeline_def metav1_Now_def set_ready_eq Let_def prod.case],
      of k p S] assms(2-) valid_ready [OF sets_ready_set valid] up_valid [OF assms(2,3)] valid
  by (simp_all add: sets_ready_set valid_AgentPipelineStatus_def)

lemma failPipeline_up:
  assumes "failPipeline R w q reason = (x, w')" and "up (w_cluster w)" and "stored (w_cluster w) k = Some p"
    and "ap_Meta q = ap_Meta p" and "p_key p = k"
    and "\<And>t cs. sets_ready q cs ''False'' ''PipelineFailed'' reason \<Longrightarrow>
          S ((ap_Status q)\<lparr>sts_Phase := PhaseFailed, sts_CompletedAt := Some t, sts_Conditions := cs\<rparr>)"
    and valid: "valid_AgentPipelineStatus (ap_Status q)" "message_fits reason"
  shows "moved stored (w_cluster w) (w_cluster w') k p S" "up (w_cluster w')" "x = Ret no_requeue None"
  using after_StatusUpdate_up [OF assms(1) [unfolded failPipeline_def metav1_Now_def set_ready_eq Let_def prod.case],
      of k p S] assms(2-) valid_ready [OF sets_ready_set valid(1)] up_valid [OF assms(2,3)] valid
  by (simp_all add: sets_ready_set valid_AgentPipelineStatus_def)

lemma completeStageFromOutput_up:
  assumes "completeStageFromOutput R w q stage i out = (x, w')" and "up (w_cluster w)"
    and "stored (w_cluster w) k = Some p" and "ap_Meta q = ap_Meta p" and "p_key p = k"
    and "\<And>t. S (ap_Status (set_stage i (\<lambda>s. s\<lparr>st_Phase := StageCompleted, st_CompletedAt := Some t,
               st_Output := truncateOutput out,
               st_OutputRef := outputConfigMapName (p_name q) (sp_Name stage)\<rparr>) q))"
    and valid: "valid_AgentPipelineStatus (ap_Status q)"
  shows "moved stored (w_cluster w) (w_cluster w') k p S" "up (w_cluster w')" "x = Ret requeue_now None"
  using after_StatusUpdate_up [OF assms(1) [unfolded completeStageFromOutput_def metav1_Now_def Let_def prod.case],
      of k p S] assms(2-) valid_set_stage [OF valid] by simp_all

lemma retryStage_up:
  assumes "retryStage R w q stage i rp = (x, w')" and "up (w_cluster w)" and "stored (w_cluster w) k = Some p"
    and "ap_Meta q = ap_Meta p" and "p_key p = k"
    and "S (ap_Status (set_stage i (\<lambda>s. s\<lparr>st_RetryCount := st_RetryCount s + 1, st_Phase := StagePending,
               st_Error := '''', st_CompletedAt := None\<rparr>) q))"
    and valid: "valid_AgentPipelineStatus (ap_Status q)"
  shows "moved stored (w_cluster w) (w_cluster w') k p S" "up (w_cluster w')"
    "x = Ret (requeue_after (case rp_Backoff rp of None \<Rightarrow> 30 * Second | Some d \<Rightarrow> d)) None"
  using after_StatusUpdate_up [OF assms(1) [unfolded retryStage_def Let_def], of k p S] assms(2-) valid_set_stage [OF valid]
  by simp_all

lemma StoreOutput_up:
  assumes "up (w_cluster w)" and "length configMapDataKey + length out \<le> limit" and meta: "valid_meta (output_config_map q s out)"
  shows "\<exists>v. StoreOutput R w q s out = (Inr (outputConfigMapName (p_name q) s, truncateOutput out), v) \<and> up (w_cluster v)"
proof -
  obtain cm where cm: "ctl_SetControllerReference R q (output_config_map q s out) = Inr cm"
    using up_SetControllerReference [of "output_config_map q s out" q]
    by (auto simp: output_config_map_def zero_ObjectMeta_def)
  obtain cm' c where c: "ctl_CreateOrUpdate R (w_cluster w) cm (\<lambda>c. c\<lparr>cm_Data := [(configMapDataKey, out)]\<rparr>) = (Inr cm', c)"
    "up c"
    using up_CreateOrUpdate [OF assms(1), of cm "\<lambda>c. c\<lparr>cm_Data := [(configMapDataKey, out)]\<rparr>"] assms(2)
      SetControllerReference_ok [OF cm] meta
    by (auto simp: cm_size_def valid_meta_def cm_key_def)
  show ?thesis using cm c by (simp add: StoreOutput_def do_CreateOrUpdate_def)
qed

lemma completeStage_up:
  assumes "completeStage R w q stage i res = (x, w')" and up: "up (w_cluster w)"
    and st: "stored (w_cluster w) k = Some p" and "ap_Meta q = ap_Meta p" and "p_key p = k"
    and fit: "length configMapDataKey + length (res_Output res) \<le> limit"
    and "\<And>t. S (ap_Status (set_stage i (\<lambda>s. s\<lparr>st_Phase := StageCompleted, st_CompletedAt := Some t,
               st_Output := truncateOutput (res_Output res),
               st_OutputRef := outputConfigMapName (p_name q) (sp_Name stage), st_TaskID := res_TaskID res\<rparr>) q))"
    and meta: "valid_meta (output_config_map q (sp_Name stage) (res_Output res))"
    and valid: "valid_AgentPipelineStatus (ap_Status q)"
  shows "moved stored (w_cluster w) (w_cluster w') k p S" "up (w_cluster w')" "x = Ret requeue_now None"
proof -
  obtain v where v: "StoreOutput R w q (sp_Name stage) (res_Output res) =
      (Inr (outputConfigMapName (p_name q) (sp_Name stage), truncateOutput (res_Output res)), v)" "up (w_cluster v)"
    using StoreOutput_up [OF up fit meta] by blast
  note keep = StoreOutput_keeps_pipelines [OF v(1)]
  have stv: "stored (w_cluster v) k = Some p" using keep st by simp
  note eq = assms(1) [unfolded completeStage_def v(1) metav1_Now_def Let_def prod.case sum.case]
  let ?v = "v\<lparr>w_clock := Suc (w_clock v)\<rparr>"
  note upd = after_StatusUpdate_up [where S = S and k = k and p = p, OF eq]
  have "moved stored (w_cluster ?v) (w_cluster w') k p S" "up (w_cluster w')" "x = Ret requeue_now None"
    by (rule upd; use stv v(2) assms(4,5,7) valid_set_stage [OF valid] in \<open>force\<close>)+
  then show "moved stored (w_cluster w) (w_cluster w') k p S" "up (w_cluster w')" "x = Ret requeue_now None"
    using keep by (simp_all add: moved_def)
qed

end

lemma valid_running_at:
  "valid_AgentPipelineStatus (ap_Status p) \<Longrightarrow> valid_AgentPipelineStatus (ap_Status (running_at p stage i t))"
  using valid_set_stage [of p "\<lambda>s. s\<lparr>st_Phase := StageRunning, st_StartedAt := Some t\<rparr>" i] by simp

lemma output_config_map_cong:
  "ap_Meta q = ap_Meta p \<Longrightarrow> output_config_map q s out = output_config_map p s out"
  by (simp add: output_config_map_def)

context k8s_reliable
begin

lemma readConfigMapOutput_up: "up (w_cluster w) \<Longrightarrow> readConfigMapOutput R w ns n = (y, v) \<Longrightarrow> up (w_cluster v)"
  by (auto simp: readConfigMapOutput_def do_GetConfigMap_def split: prod.splits sum.splits dest: up_GetConfigMap)

lemma build_context_loop_up:
  "build_context_loop R w p cur i xs pc = (x, w') \<Longrightarrow> up (w_cluster w) \<Longrightarrow> up (w_cluster w')"
proof (induction xs arbitrary: w i pc)
  case (Cons a xs)
  show ?case
  proof (cases "st_Phase a \<noteq> StageCompleted \<or> st_OutputRef a = ''''")
    case True
    with Cons show ?thesis by auto
  next
    case False
    obtain y v where y: "readConfigMapOutput R w (p_ns p) (st_OutputRef a) = (y, v)" by fastforce
    show ?thesis
      using Cons False y readConfigMapOutput_up [OF Cons.prems(2) y] by (cases y) (auto simp: Let_def)
  qed
qed simp

lemma finish_run_up:
  assumes "finish_run R w (running_at p stage i t0) stage i res = (x, w')"
    and up: "up (w_cluster w)" and st: "stored (w_cluster w) k = Some p" and k: "p_key p = k"
    and wk: "working_on p stage i" "st_Phase (cur_status p i) = StagePending"
    and fit: "\<And>r. res = Inr r \<Longrightarrow> length configMapDataKey + length (res_Output r) \<le> limit"
    and meta: "\<And>out. valid_meta (output_config_map p (sp_Name stage) out)"
  shows "moved stored (w_cluster w) (w_cluster w') k p (status_step p) \<and> up (w_cluster w') \<and> x = Ret requeue_now None"
proof -
  note valid = conjunct1 [OF up_valid [OF up st]]
  have len: "i < length (p_statuses p)"
    using wk(1) FindCurrentStage_SomeD(1) by (auto simp: working_on_def)
  have fail: "failStage R w (running_at p stage i t0) i e = (x, w') \<Longrightarrow> ?thesis" for e
    using failStage_up [where S = "status_step p", of w "running_at p stage i t0" i e x w' k p]
      up st k wk len valid_running_at [OF valid]
    by (auto simp: ap_Status_set_stage_twice intro: status_step.stage_failed)
  have comp: "completeStage R w (running_at p stage i t0) stage i r = (x, w') \<Longrightarrow> res = Inr r \<Longrightarrow> ?thesis" for r
    using completeStage_up [where S = "status_step p", of w "running_at p stage i t0" stage i r x w' k p]
      up st k wk len fit meta valid_running_at [OF valid] output_config_map_cong [of "running_at p stage i t0" p]
    by (auto simp: ap_Status_set_stage_twice intro: status_step.stage_completed)
  show ?thesis
    using assms(1) fail comp by (auto simp: finish_run_def split: sum.splits if_splits)
qed

lemma startStage_up:
  assumes "startStage R w p stage i = (x, w')"
    and up: "up (w_cluster w)" and st: "stored (w_cluster w) k = Some p" and k: "p_key p = k"
    and wk: "working_on p stage i" "st_Phase (cur_status p i) = StagePending"
    and fit: "outputs_fit R limit"
    and meta: "\<And>out. valid_meta (output_config_map p (sp_Name stage) out)"
  shows "moved stored (w_cluster w) (w_cluster w') k p (status_step p) \<and> up (w_cluster w') \<and> x = Ret requeue_now None"
proof -
  note valid = conjunct1 [OF up_valid [OF up st]]
  have len: "i < length (p_statuses p)"
    using wk(1) FindCurrentStage_SomeD(1) by (auto simp: working_on_def)
  obtain y v where y: "readConfigMapOutput R w (p_ns p) (outputConfigMapName (p_name p) (sp_Name stage)) = (y, v)"
    by fastforce
  note keep = readConfigMapOutput_cases(1,2) [OF y] and upv = readConfigMapOutput_up [OF up y]
  show ?thesis
  proof (cases y)
    case (Inr out)
    then have "completeStageFromOutput R v p stage i out = (x, w')"
      using assms(1) y by (simp add: startStage_def)
    from completeStageFromOutput_up [where S = "status_step p", OF this upv, of k p] show ?thesis
      using st k keep valid status_step.stage_recovered [OF wk]
      by (simp add: ap_Status_set_stage moved_eq_left [where st = stored, OF keep(1)])
  next
    case (Inl e)
    define t0 where "t0 = wall_clock R (w_clock v)"
    define v1 where "v1 = Recorder_Event (v\<lparr>w_clock := Suc (w_clock v)\<rparr>) EventTypeNormal ''StageStarted''
      (''Stage '' @ quote (print_table R) (sp_Name stage) @ '' started (agent: '' @ ref_Name (sp_AgentRef stage) @ '')'')"
    obtain b u where b: "BuildPipelineContext R v1 (running_at p stage i t0) stage = (b, u)" by fastforce
    have u: "stored (w_cluster u) = stored (w_cluster w)" "up (w_cluster u)"
      using BuildPipelineContext_keeps [OF b] build_context_loop_up [OF b [unfolded BuildPipelineContext_def]] keep upv
      by (simp_all add: v1_def)
    have fail: "failStage R u (running_at p stage i t0) i e = (x, w') \<Longrightarrow> ?thesis" for e
      using failStage_up [where S = "status_step p", of u "running_at p stage i t0" i e x w' k p]
        st k len u valid_running_at [OF valid] status_step.stage_failed [OF wk]
      by (simp add: ap_Status_set_stage_twice moved_eq_left [where st = stored, OF u(1)])
    have go: ?thesis if "finish_run R (snd (do_RunAgent R u (run_request p stage prompt)))
        (running_at p stage i t0) stage i (fst (do_RunAgent R u (run_request p stage prompt))) = (x, w')" for prompt
      using finish_run_up [OF that, of k] st k wk u fit meta
      by (auto simp: moved_eq_left [where st = stored, OF u(1)] outputs_fit_def do_RunAgent_def case_prod_beta)
    show ?thesis
      using assms(1) y Inl b fail go
      by (auto simp: startStage_def metav1_Now_def Let_def t0_def v1_def
          case_prod_beta split: sum.splits)
  qed
qed

lemma handleRunning_up:
  assumes "handleRunning R w p = (x, w')" and up: "up (w_cluster w)"
    and st: "stored (w_cluster w) k = Some p" and k: "p_key p = k" and ph: "p_phase p = PhaseRunning"
    and cur: "FindCurrentStage p = Inr None \<or> (\<exists>stage i. working_on p stage i \<and>
        (st_Phase (cur_status p i) = StagePending \<or> st_Phase (cur_status p i) = StageFailed))"
    and fit: "outputs_fit R limit"
    and meta: "\<And>stage i out. working_on p stage i \<Longrightarrow> valid_meta (output_config_map p (sp_Name stage) out)"
    and rep: "\<not> unreportable (print_table R) p"
  shows "moved stored (w_cluster w) (w_cluster w') k p (status_step p) \<and> up (w_cluster w') \<and> pass_result p x"
  using cur
proof (elim disjE exE conjE)
  assume none: "FindCurrentStage p = Inr None"
  then have "completePipeline R w p = (x, w')" using assms(1) by (simp add: handleRunning_def)
  from completePipeline_up [where S = "status_step p", OF this up st refl k] show ?thesis
    using status_step.completed [OF ph none] up_valid [OF up st] ph none by (simp add: pass_result_def next_phase_def)
next
  fix stage i assume wk: "working_on p stage i" and pend: "st_Phase (cur_status p i) = StagePending"
  then have "startStage R w p stage i = (x, w')"
    using assms(1) by (simp add: handleRunning_def working_on_def Let_def)
  from startStage_up [OF this up st k wk pend fit meta [OF wk]] show ?thesis
    using ph wk pend by (simp add: pass_result_def next_phase_def working_on_def)
next
  fix stage i assume wk: "working_on p stage i" and failed: "st_Phase (cur_status p i) = StageFailed"
  have in_stages: "stage \<in> set (p_stages p)"
    using FindCurrentStage_SomeD(2,3) [of p stage i] wk by (simp add: working_on_def)
  show ?thesis
  proof (cases "retries_left p stage i")
    case True
    then have "retryStage R w p stage i (GetEffectiveRetryPolicy p stage) = (x, w')"
      using assms(1) wk failed by (simp add: handleRunning_def working_on_def Let_def retries_left_def)
    from retryStage_up [where S = "status_step p", OF this up st refl k] show ?thesis
      using status_step.retried [OF wk failed True] up_valid [OF up st] ph wk failed True in_stages
      by (auto simp: ap_Status_set_stage pass_result_def next_phase_def working_on_def retry_delay_def)
  next
    case False
    then have "failPipeline R w p (failure_text (print_table R) stage (cur_status p i)) = (x, w')"
      using assms(1) wk failed by (simp add: handleRunning_def working_on_def Let_def retries_left_def failure_text_def)
    from failPipeline_up [where S = "status_step p", OF this up st refl k] show ?thesis
      using status_step.gave_up [OF wk failed False] up_valid [OF up st] rep unreportable_working [OF wk] failed False ph wk
      by (simp add: pass_result_def next_phase_def working_on_def)
  qed
qed

lemma add_finalizer_up:
  assumes "do_Update R w (ctl_AddFinalizer R p finalizerName) = (y, w')" and up: "up (w_cluster w)"
    and st: "stored (w_cluster w) k = Some p" and k: "p_key p = k"
    and new: "finalizerName \<notin> set (om_Finalizers (ap_Meta p))" and ph: "p_phase p = '''' \<or> p_phase p = PhasePending"
  shows "adds_finalizer (stored (w_cluster w)) (stored (w_cluster w')) k p" "up (w_cluster w')" "\<exists>q. y = Inr q"
proof -
  obtain fs where fs: "ctl_AddFinalizer R p finalizerName = p\<lparr>ap_Meta := (ap_Meta p)\<lparr>om_Finalizers := fs\<rparr>\<rparr>"
    "set fs = insert finalizerName (set (om_Finalizers (ap_Meta p)))" using AddFinalizer by blast
  have kq: "p_key (p\<lparr>ap_Meta := (ap_Meta p)\<lparr>om_Finalizers := fs\<rparr>\<rparr>) = k" using k by (simp add: p_key_def)
  obtain p' c where c: "client_Update R (w_cluster w) (p\<lparr>ap_Meta := (ap_Meta p)\<lparr>om_Finalizers := fs\<rparr>\<rparr>) = (Inr p', c)" "up c"
    using up_Update [OF up, of "p\<lparr>ap_Meta := (ap_Meta p)\<lparr>om_Finalizers := fs\<rparr>\<rparr>" p] st kq by auto
  have w': "w' = w\<lparr>w_cluster := c\<rparr>" and y: "y = Inr p'" using assms(1) fs(1) c by (auto simp: do_Update_def)
  show "up (w_cluster w')" "\<exists>q. y = Inr q" using w' y c by simp_all
  have "fs \<noteq> []" using fs(2) by auto
  then show "adds_finalizer (stored (w_cluster w)) (stored (w_cluster w')) k p"
    using snapshot_Update [OF c(1) snapshot_stored [of "stored (w_cluster w)", OF st k]] w' fs(2) ph new by (auto simp: adds_finalizer_def)
qed

lemma handlePending_up:
  assumes "handlePending R w p = (x, w')" and up: "up (w_cluster w)"
    and st: "stored (w_cluster w) k = Some p" and k: "p_key p = k"
    and ph: "p_phase p = '''' \<or> p_phase p = PhasePending"
  shows "(if finalizerName \<in> set (om_Finalizers (ap_Meta p))
      then moved stored (w_cluster w) (w_cluster w') k p (status_step p)
      else adds_finalizer (stored (w_cluster w)) (stored (w_cluster w')) k p) \<and>
    up (w_cluster w') \<and> (if finalizerName \<in> set (om_Finalizers (ap_Meta p)) then pass_result p x else x = Ret requeue_now None)"
proof (cases "finalizerName \<in> set (om_Finalizers (ap_Meta p))")
  case False
  obtain y v where y: "do_Update R w (ctl_AddFinalizer R p finalizerName) = (y, v)" by fastforce
  note eff = add_finalizer_up [OF y up st k False ph]
  then have "w' = v" "x = Ret requeue_now None"
    using assms(1) False y ContainsFinalizer by (auto simp: handlePending_def split: sum.splits)
  then show ?thesis using eff False by simp
next
  case fin: True
  then have True: "ctl_ContainsFinalizer R p finalizerName" by (simp add: ContainsFinalizer)
  show ?thesis
  proof (cases "p_stages p = []")
    case empty: True
    then have "failPipeline R w p ''no stages defined'' = (x, w')"
      using assms(1) True by (simp add: handlePending_def)
    from failPipeline_up [where S = "status_step p", OF this up st refl k] show ?thesis
      using status_step.no_stages [OF ph empty] fin up_valid [OF up st] empty ph
      by (auto simp: pass_result_def next_phase_def)
  next
    case ne: False
    then have ne': "(length (p_stages p) = 0) = False" by simp
    note eq = assms(1) [unfolded handlePending_def metav1_Now_def set_ready_eq Let_def prod.case
        eqTrueI [OF True] ne' not_True_eq_False if_False]
    note valid = up_valid [OF up st]
    let ?w = "w\<lparr>w_clock := Suc (w_clock w)\<rparr>"
    let ?w = "?w\<lparr>w_clock := Suc (w_clock ?w)\<rparr>"
    note upd = after_StatusUpdate_up [where S = "status_step p" and k = k and p = p, OF eq]
    have "moved stored (w_cluster ?w) (w_cluster w') k p (status_step p)" "up (w_cluster w')"
      "x = Ret requeue_now None"
      by (rule upd; use up st k status_step.started [OF ph ne] valid valid_ready [OF sets_ready_set, of p]
          in \<open>simp add: sets_ready_set InitStageStatuses_def valid_AgentPipelineStatus_def initial_valid\<close>)+
    then show ?thesis using fin ne ph by (auto simp: pass_result_def next_phase_def)
  qed
qed

end

section \<open>Dependencies on earlier stages\<close>

text \<open>Every stage depends on stages that come before it in the list.\<close>

fun deps_before :: "string list \<Rightarrow> StageSpec list \<Rightarrow> bool" where
  "deps_before seen [] = True"
| "deps_before seen (stage # rest) =
     (list_all (\<lambda>d. d \<in> set seen) (sp_DependsOn stage) \<and> deps_before (sp_Name stage # seen) rest)"

definition deps_earlier :: "AgentPipeline \<Rightarrow> bool" where
  "deps_earlier p \<longleftrightarrow> deps_before [] (p_stages p)"

lemma deps_before_nth:
  "deps_before seen xs \<Longrightarrow> i < length xs \<Longrightarrow> d \<in> set (sp_DependsOn (xs ! i)) \<Longrightarrow>
   d \<in> set seen \<or> (\<exists>j<i. sp_Name (xs ! j) = d)"
proof (induction xs arbitrary: seen i)
  case (Cons x xs)
  show ?case
  proof (cases i)
    case 0
    then show ?thesis using Cons.prems by (auto simp: list_all_iff)
  next
    case (Suc j)
    have "d \<in> set (sp_Name x # seen) \<or> (\<exists>l<j. sp_Name (xs ! l) = d)"
      using Cons.IH [of "sp_Name x # seen" j] Cons.prems Suc by simp
    then show ?thesis
    proof
      assume "\<exists>l<j. sp_Name (xs ! l) = d"
      then obtain l where "l < j" "sp_Name (xs ! l) = d" by blast
      then show ?thesis using Suc by (intro disjI2 exI [of _ "Suc l"]) simp
    qed (use Suc in auto)
  qed
qed simp

lemma deps_earlier_met:
  assumes wf: "wf_pipeline p" and ph: "p_phase p = PhaseRunning" and deps: "deps_earlier p"
    and cur: "FindCurrentStage p = Inr (Some (stage, i))"
  shows "working_on p stage i"
proof -
  note c = FindCurrentStage_SomeD [OF cur]
  have al: "aligned p" by (rule wf_running [OF ph wf])
  have ex: "\<exists>ss\<in>set (p_statuses p). st_Name ss = d \<and> st_Phase ss = StageCompleted"
    if dd: "d \<in> set (sp_DependsOn stage)" for d
  proof -
    obtain j where j: "j < i" "sp_Name (p_stages p ! j) = d"
      using deps_before_nth [of "[]" "p_stages p" i d] deps c(2) dd [unfolded c(3)] by (auto simp: deps_earlier_def)
    have ok: "stage_ok p (p_stages p ! j) (cur_status p j)" using aligned_nth [OF al] j(1) c(2) by simp
    have "st_Name (cur_status p j) = d" using ok j(2) by (simp add: stage_ok_def)
    moreover have "st_Phase (cur_status p j) = StageCompleted" using c(5) j(1) stage_ok_done [OF ok] by simp
    moreover have "cur_status p j \<in> set (p_statuses p)" using j(1) c(1) by simp
    ultimately show ?thesis by blast
  qed
  then show ?thesis using ph cur by (simp add: working_on_def AreDependenciesMet_iff)
qed

lemma current_phase:
  assumes "working_on p stage i" and "wf_pipeline p"
  shows "st_Phase (cur_status p i) = StagePending \<or> st_Phase (cur_status p i) = StageFailed"
  using working_on_facts(5,6) [OF assms] by (auto simp: stage_ok_def phase_ok_def split: if_splits)

lemma running_has_work:
  assumes wf: "wf_pipeline p" and ph: "p_phase p = PhaseRunning" and deps: "deps_earlier p"
  shows "FindCurrentStage p = Inr None \<or> (\<exists>stage i. working_on p stage i \<and>
        (st_Phase (cur_status p i) = StagePending \<or> st_Phase (cur_status p i) = StageFailed))"
proof (cases "FindCurrentStage p")
  case (Inl e)
  then show ?thesis
    using FindCurrentStage_no_panic [of p e] aligned_lengths [OF wf_running [OF ph wf]] by simp
next
  case (Inr cur)
  show ?thesis
  proof (cases cur)
    case (Some si)
    then obtain stage i where "FindCurrentStage p = Inr (Some (stage, i))" using Inr by (cases si) auto
    from deps_earlier_met [OF wf ph deps this] show ?thesis using current_phase [OF _ wf] by blast
  qed (use Inr in simp)
qed

section \<open>A pass makes progress\<close>

definition has_finalizer :: "AgentPipeline \<Rightarrow> bool" where
  "has_finalizer p \<longleftrightarrow> finalizerName \<in> set (om_Finalizers (ap_Meta p))"

text \<open>The number of passes that are enough to end the pipeline.\<close>

definition passes_left :: "AgentPipeline \<Rightarrow> nat" where
  "passes_left p = fuel_left (budgets p) (abs_pipeline p) + (if fresh p \<and> \<not> has_finalizer p then 1 else 0)"

lemma wf_not_terminal: "wf_pipeline p \<Longrightarrow> \<not> terminal p \<Longrightarrow> fresh p \<or> p_phase p = PhaseRunning"
  by (auto simp: wf_pipeline_def terminal_def split: if_splits)

lemma wf_fits: "wf_pipeline p \<Longrightarrow> fits (budgets p) (abs_pipeline p)"
  using aligned_lengths wf_running by (auto simp: abs_pipeline_def budgets_def)

lemma passes_left_terminal: "wf_pipeline p \<Longrightarrow> passes_left p = 0 \<longleftrightarrow> terminal p"
  by (auto simp: passes_left_def abs_pipeline_def terminal_def fresh_def wf_pipeline_def split: if_splits)

lemma step_passes_left:
  assumes wf: "wf_pipeline p" and "status_step p s" and c: "carries p p' s"
  shows "wf_pipeline p'" "passes_left p' < passes_left p" "budgets p' = budgets p" "deps_earlier p' = deps_earlier p"
proof -
  note ref = status_step_refines [OF assms(2,1,3)]
  show "wf_pipeline p'" using ref by simp
  show b: "budgets p' = budgets p" by (rule view_cong [OF carries_view [OF c]])
  show "deps_earlier p' = deps_earlier p" using c by (simp add: deps_earlier_def carries_def)
  have "\<not> fresh p'" using assms(2) c by cases (auto simp: carries_def fresh_def working_on_def)
  then show "passes_left p' < passes_left p"
    using astep_fuel [OF conjunct2 [OF ref] wf_fits [OF wf]] b by (simp add: passes_left_def)
qed

lemma finalizer_passes_left:
  assumes "adds_finalizer m m' k p" and "m' k = Some p'" and wf: "wf_pipeline p" and "p_key p = k"
  shows "wf_pipeline p'" "passes_left p' < passes_left p" "budgets p' = budgets p" "deps_earlier p' = deps_earlier p"
    "alive p' = alive p" "abs_pipeline p' = abs_pipeline p"
proof -
  have p': "ap_Spec p' = ap_Spec p" "ap_Status p' = ap_Status p" "p_key p' = k"
    "om_DeletionTimestamp (ap_Meta p') = om_DeletionTimestamp (ap_Meta p)" "fresh p" "has_finalizer p'" "\<not> has_finalizer p"
    using assms(1,2) by (auto simp: adds_finalizer_def fresh_def has_finalizer_def)
  have v: "same_view p p'" using p' assms(4) by (auto simp: same_view_def p_key_def)
  show "wf_pipeline p'" using wf_same_status [OF v p'(2)] wf by simp
  show b: "budgets p' = budgets p" by (rule view_cong [OF v])
  show "deps_earlier p' = deps_earlier p" "alive p' = alive p" using p' by (simp_all add: deps_earlier_def)
  show a: "abs_pipeline p' = abs_pipeline p" using p' by (simp add: abs_pipeline_def fresh_def)
  have "fresh p'" using p'(2,5) by (simp add: fresh_def)
  then show "passes_left p' < passes_left p" using p' a b by (simp add: passes_left_def)
qed

text \<open>What the pass from \<open>p\<close> to \<open>p'\<close> asks of the work queue.\<close>

definition asked :: "AgentPipeline \<Rightarrow> AgentPipeline \<Rightarrow> outcome \<Rightarrow> bool" where
  "asked p p' x \<longleftrightarrow> x = Ret requeue_now None \<or> (\<exists>stage\<in>set (p_stages p). x = Ret (requeue_after (retry_delay p stage)) None) \<or>
     terminal p' \<and> x = Ret no_requeue None"

lemma asked_step: "status_step p s \<Longrightarrow> carries p p' s \<Longrightarrow> pass_result p x \<Longrightarrow> asked p p' x"
  using status_step_phase [of p s]
  by (auto simp: asked_def pass_result_def carries_def terminal_def next_phase_def split: if_splits sum.splits option.splits)

context k8s_reliable
begin

text \<open>One pass over a live pipeline that is not finished.\<close>

lemma Reconcile_up:
  assumes "Reconcile R w k = (x, w')" and up: "up (w_cluster w)" and st: "stored (w_cluster w) k = Some p"
    and al: "alive p" and wf: "wf_pipeline p" and deps: "deps_earlier p" and fit: "outputs_fit R limit"
    and key: "p_key p = k" and live: "\<not> terminal p"
    and spec: "valid_AgentPipelineSpec (ap_Spec p)" and names: "names_fit p" and rep: "\<not> unreportable (print_table R) p"
  shows "\<exists>p'. stored (w_cluster w') = (stored (w_cluster w))(k \<mapsto> p') \<and> p_key p' = k \<and> alive p' \<and>
      wf_pipeline p' \<and> deps_earlier p' \<and> passes_left p' < passes_left p \<and> budgets p' = budgets p \<and> ap_Spec p' = ap_Spec p \<and>
      asked p p' x"
    "up (w_cluster w')"
proof -
  obtain c where c: "client_Get R (w_cluster w) k = (Inr p, c)" "up c" using up_Get [OF up st] by blast
  define v where "v = w\<lparr>w_cluster := c\<rparr>"
  have g: "do_Get R w k = (Inr p, v)" using c by (simp add: do_Get_def v_def)
  have stv: "stored (w_cluster v) k = Some p" and upv: "up (w_cluster v)" and same: "stored (w_cluster v) = stored (w_cluster w)"
    using do_Get_cases(1) [OF g] st c(2) by (simp_all add: v_def)
  have "(moved stored (w_cluster v) (w_cluster w') k p (status_step p) \<and> pass_result p x \<or>
      adds_finalizer (stored (w_cluster v)) (stored (w_cluster w')) k p \<and> x = Ret requeue_now None) \<and> up (w_cluster w')"
  proof (cases "fresh p")
    case True
    then have "handlePending R v p = (x, w')" using assms(1) g al by (simp add: Reconcile_def fresh_def)
    from handlePending_up [OF this upv stv key] True show ?thesis by (auto simp: fresh_def split: if_splits)
  next
    case False
    then have ph: "p_phase p = PhaseRunning" using wf_not_terminal [OF wf live] by blast
    then have "handleRunning R v p = (x, w')" using assms(1) g al False by (simp add: Reconcile_def)
    from handleRunning_up [OF this upv stv key ph running_has_work [OF wf ph deps] fit _ rep] names_fit_valid [OF names spec] show ?thesis by blast
  qed
  then have eff: "moved stored (w_cluster w) (w_cluster w') k p (status_step p) \<and> pass_result p x \<or>
      adds_finalizer (stored (w_cluster w)) (stored (w_cluster w')) k p \<and> x = Ret requeue_now None"
    and up': "up (w_cluster w')"
    using same by (auto simp: moved_def)
  show "up (w_cluster w')" by (fact up')
  from eff show "\<exists>p'. stored (w_cluster w') = (stored (w_cluster w))(k \<mapsto> p') \<and> p_key p' = k \<and> alive p' \<and>
      wf_pipeline p' \<and> deps_earlier p' \<and> passes_left p' < passes_left p \<and> budgets p' = budgets p \<and> ap_Spec p' = ap_Spec p \<and>
      asked p p' x"
  proof (elim disjE conjE)
    assume res: "pass_result p x" and "moved stored (w_cluster w) (w_cluster w') k p (status_step p)"
    then obtain p' s where *: "status_step p s" "carries p p' s" "stored (w_cluster w') = (stored (w_cluster w))(k \<mapsto> p')"
      by (auto simp: moved_def)
    show ?thesis
      using step_passes_left [OF wf *(1,2)] * key al deps asked_step [OF *(1,2) res] by (intro exI [of _ p']) (simp add: carries_def)
  next
    assume x: "x = Ret requeue_now None" and fin: "adds_finalizer (stored (w_cluster w)) (stored (w_cluster w')) k p"
    then obtain p' where p': "stored (w_cluster w') = (stored (w_cluster w))(k \<mapsto> p')" "p_key p' = k" "ap_Spec p' = ap_Spec p"
      by (auto simp: adds_finalizer_def)
    show ?thesis
      using finalizer_passes_left [OF fin _ wf key, of p'] p' al deps x by (intro exI [of _ p']) (simp add: asked_def)
  qed
qed

text \<open>
  A pipeline that is to be given up with too long a message: a pass invokes no agent, and it either
  changes nothing or fails the pipeline.
\<close>

lemma after_StatusUpdate_kept:
  assumes "(case do_StatusUpdate R w q of (Inl e, v) \<Rightarrow> (f e, v) | (Inr y, v) \<Rightarrow> (g, h v)) = (x, w')"
    and "\<And>v. w_cluster (h v) = w_cluster v" and "up (w_cluster w)"
  shows "up (w_cluster w')"
proof -
  obtain y c where c: "client_StatusUpdate R (w_cluster w) q = (y, c)" by fastforce
  have "w_cluster w' = c" using assms(1,2) c by (cases y) (auto simp: do_StatusUpdate_def)
  then show ?thesis using up_StatusUpdate_kept [OF assms(3) c] by simp
qed

lemma failPipeline_kept:
  assumes "failPipeline R w q reason = (x, w')" and "up (w_cluster w)"
  shows "up (w_cluster w')"
  using after_StatusUpdate_kept [OF assms(1) [unfolded failPipeline_def metav1_Now_def set_ready_eq Let_def prod.case]] assms(2)
  by simp

lemma unreportable_Reconcile:
  assumes "unreportable tbl p" and "alive p" and "do_Get R w k = (Inr p, v)"
  obtains stage i where "working_on p stage i" "st_Phase (cur_status p i) = StageFailed"
    "\<not> message_fits (failure_text tbl stage (cur_status p i))"
    "Reconcile R w k = failPipeline R v p (failure_text (print_table R) stage (cur_status p i))"
proof -
  obtain stage i where cur: "FindCurrentStage p = Inr (Some (stage, i))"
    using assms(1) by (auto simp: unreportable_def split: sum.splits option.splits)
  then have un: "p_phase p = PhaseRunning" "AreDependenciesMet p stage" "st_Phase (cur_status p i) = StageFailed"
    "\<not> retries_left p stage i" "\<not> message_fits (failure_text tbl stage (cur_status p i))"
    using assms(1) by (simp_all add: unreportable_def)
  have "Reconcile R w k = failPipeline R v p (failure_text (print_table R) stage (cur_status p i))"
    using assms(2,3) un cur by (simp add: Reconcile_def handleRunning_def Let_def retries_left_def failure_text_def)
  then show thesis using that [of stage i] un cur by (simp add: working_on_def)
qed

lemma Reconcile_unreportable:
  assumes "Reconcile R w k = (x, w')" and up: "up (w_cluster w)" and st: "stored (w_cluster w) k = Some p"
    and key: "p_key p = k" and al: "alive p" and un: "unreportable tbl p"
  shows "writes stored (w_cluster w) (w_cluster w') k p (\<lambda>s. status_step p s \<and> sts_Phase s = PhaseFailed)"
    "quiet stored_cm w w'" "up (w_cluster w')"
proof -
  obtain c where c: "client_Get R (w_cluster w) k = (Inr p, c)" "up c" using up_Get [OF up st] by blast
  define v where "v = w\<lparr>w_cluster := c\<rparr>"
  have g: "do_Get R w k = (Inr p, v)" using c by (simp add: do_Get_def v_def)
  note get = do_Get_cases(1-3) [OF g]
  obtain stage i where wk: "working_on p stage i" "st_Phase (cur_status p i) = StageFailed"
    and eq: "failPipeline R v p (failure_text (print_table R) stage (cur_status p i)) = (x, w')"
    using unreportable_Reconcile [OF un al g] assms(1) by metis
  have "\<not> retries_left p stage i" using un unreportable_working [OF wk(1)] by simp
  note step = status_step.gave_up [OF wk this]
  have "snapshot (stored (w_cluster v)) k p" using st key get(1) by (simp add: snapshot_stored)
  from failPipeline_effect [where S = "\<lambda>s. status_step p s \<and> sts_Phase s = PhaseFailed", OF eq this refl key]
  show "writes stored (w_cluster w) (w_cluster w') k p (\<lambda>s. status_step p s \<and> sts_Phase s = PhaseFailed)" "quiet stored_cm w w'"
    using step get by (simp_all add: quiet_def same_run_def writes_eq_left [where st = stored, OF get(1)])
  show "up (w_cluster w')" using failPipeline_kept [OF eq] c(2) by (simp add: v_def)
qed

end

end
