(* ===== verification/Status_Invariant.thy ===== *)
theory Status_Invariant
  imports Pipeline_Machine
begin

text \<open>
  What a stored status guarantees on its own. \<open>wf_pipeline\<close> relates the status to the
  spec, so an edit of the spec of a running pipeline can break it: the code indexes the spec by
  the position of a status. \<open>sound_pipeline\<close> is the part of the invariant that reads
  the status only. No edit of a spec affects it, and every status step keeps it, whatever the spec
  has become.
\<close>

definition status_ok :: "string \<Rightarrow> StageStatus \<Rightarrow> bool" where
  "status_ok pipelineName ss \<longleftrightarrow> 0 \<le> sint (st_RetryCount ss) \<and> length (st_Output ss) \<le> maxStatusOutputLen \<and>
     (if st_Phase ss = StageCompleted then
        HasPrefix (st_OutputRef ss) (outputConfigMapName pipelineName []) \<and> st_CompletedAt ss \<noteq> None \<and> st_Error ss = ''''
      else if st_Phase ss = StageFailed then
        st_OutputRef ss = '''' \<and> st_CompletedAt ss \<noteq> None \<and> st_StartedAt ss \<noteq> None
      else st_Phase ss = StagePending \<and> st_OutputRef ss = '''' \<and> st_CompletedAt ss = None \<and> st_Error ss = '''')"

definition sound_stages :: "AgentPipeline \<Rightarrow> bool" where
  "sound_stages p \<longleftrightarrow> p_statuses p \<noteq> [] \<and> list_all (status_ok (p_name p)) (p_statuses p) \<and> in_order (p_statuses p)"

definition sound_pipeline :: "AgentPipeline \<Rightarrow> bool" where
  "sound_pipeline p \<longleftrightarrow>
     (if fresh p then True
      else if p_phase p = PhaseRunning then
        sound_stages p \<and> sts_StartedAt (ap_Status p) \<noteq> None \<and>
        ready_with (sts_Conditions (ap_Status p)) ''False'' ''PipelineStarted''
      else if p_phase p = PhaseCompleted then
        sound_stages p \<and> list_all (\<lambda>ss. st_Phase ss = StageCompleted) (p_statuses p) \<and>
        sts_CurrentStage (ap_Status p) = '''' \<and> sts_CompletedAt (ap_Status p) \<noteq> None \<and>
        ready_with (sts_Conditions (ap_Status p)) ''True'' ''PipelineCompleted''
      else
        p_phase p = PhaseFailed \<and> sts_CompletedAt (ap_Status p) \<noteq> None \<and>
        ready_with (sts_Conditions (ap_Status p)) ''False'' ''PipelineFailed'' \<and>
        (ready_is (sts_Conditions (ap_Status p)) ''False'' ''PipelineFailed'' ''no stages defined'' \<or>
         sound_stages p \<and> list_ex (\<lambda>ss. st_Phase ss = StageFailed) (p_statuses p)))"

lemma sound_same_status:
  "p_name p' = p_name p \<Longrightarrow> ap_Status p' = ap_Status p \<Longrightarrow> sound_pipeline p' = sound_pipeline p"
  by (simp add: sound_pipeline_def sound_stages_def fresh_def)

lemma fresh_sound: "fresh p \<Longrightarrow> sound_pipeline p"
  by (simp add: sound_pipeline_def)

lemma status_ok_done: "status_ok n ss \<Longrightarrow> stage_done ss \<longleftrightarrow> st_Phase ss = StageCompleted"
  by (auto simp: status_ok_def stage_done_def split: if_splits)

lemma sound_running: "p_phase p = PhaseRunning \<Longrightarrow> sound_pipeline p \<Longrightarrow> sound_stages p"
  by (simp add: sound_pipeline_def fresh_def)

lemma sound_working_on:
  assumes "working_on p stage i" and "sound_pipeline p"
  shows "p_phase p = PhaseRunning" "sound_stages p" "i < length (p_statuses p)" "status_ok (p_name p) (cur_status p i)"
    "st_Phase (cur_status p i) \<noteq> StageCompleted" "\<forall>j<i. st_Phase (cur_status p j) = StageCompleted"
proof -
  show ph: "p_phase p = PhaseRunning" using assms(1) by (simp add: working_on_def)
  show so: "sound_stages p" by (rule sound_running [OF ph assms(2)])
  have c: "i < length (p_statuses p)" "\<not> stage_done (cur_status p i)" "\<forall>j<i. stage_done (cur_status p j)"
    using assms(1) FindCurrentStage_SomeD by (auto simp: working_on_def)
  show "i < length (p_statuses p)" by (rule c(1))
  have ok: "status_ok (p_name p) (cur_status p j)" if "j < length (p_statuses p)" for j
    using so that by (simp add: sound_stages_def list_all_length)
  show "status_ok (p_name p) (cur_status p i)" "st_Phase (cur_status p i) \<noteq> StageCompleted"
    "\<forall>j<i. st_Phase (cur_status p j) = StageCompleted"
    using ok status_ok_done c by (blast, blast, meson less_trans)
qed

lemma sound_write:
  assumes "working_on p stage i" and "sound_pipeline p" and "status_ok (p_name p) v"
    and "carries p p' s" and "sts_Phase s = PhaseRunning" "sts_Stages s = (p_statuses p)[i := v]"
      "sts_StartedAt s = sts_StartedAt (ap_Status p)" "sts_Conditions s = sts_Conditions (ap_Status p)"
  shows "sound_pipeline p'"
proof -
  note w = sound_working_on [OF assms(1,2)]
  have "in_order ((p_statuses p)[i := v])"
    using w by (intro in_order_update) (auto simp: sound_stages_def)
  moreover have "list_all (status_ok (p_name p)) ((p_statuses p)[i := v])"
    using w(2) assms(3) by (simp add: sound_stages_def list_all_update)
  moreover have "p_name p' = p_name p" "ap_Status p' = s" using assms(4) by (auto simp: carries_def p_key_def)
  ultimately show ?thesis
    using assms(2,5-8) w(1,2) by (simp add: sound_pipeline_def sound_stages_def fresh_def)
qed

lemma sound_end:
  assumes "carries p p' s" and "sts_Stages s = p_statuses p"
  shows "sound_stages p' = sound_stages p" "ap_Status p' = s"
proof -
  show s: "ap_Status p' = s" using assms(1) by (simp add: carries_def)
  have "p_name p' = p_name p" using assms(1) by (auto simp: carries_def p_key_def)
  then show "sound_stages p' = sound_stages p" using s assms(2) by (simp add: sound_stages_def)
qed

lemma status_step_sound:
  assumes "status_step p s" and so: "sound_pipeline p" and c: "carries p p' s"
  shows "sound_pipeline p'"
  using assms(1)
proof cases
  case (no_stages cs t)
  then show ?thesis
    using c sets_ready_is [OF no_stages(4)] ready_is_with [OF no_stages(4)] by (simp add: sound_pipeline_def fresh_def carries_def)
next
  case (started cs t)
  have st: "ap_Status p' = s" using c by (simp add: carries_def)
  have u: "list_all untouched (p_statuses p')" by (simp add: st started(1) list_all_iff untouched_def zero_StageStatus_def)
  have "list_all (status_ok (p_name p')) (p_statuses p')"
    by (simp add: st started(1) list_all_iff status_ok_def zero_StageStatus_def)
  then show ?thesis
    using started untouched_in_order [OF u] ready_is_with [OF started(4)] st
    by (simp add: sound_pipeline_def sound_stages_def fresh_def)
next
  case (stage_failed stage i e t t0)
  note w = sound_working_on [OF stage_failed(2) so]
  show ?thesis
    using w(4) stage_failed(3) w(1)
    by (intro sound_write [OF stage_failed(2) so _ c, of "(cur_status p i)\<lparr>st_StartedAt := Some t0, st_Phase := StageFailed,
          st_CompletedAt := Some t, st_Error := e\<rparr>"]) (simp_all add: stage_failed(1) status_ok_def)
next
  case (stage_completed stage i tid out t t0)
  note w = sound_working_on [OF stage_completed(2) so]
  show ?thesis
    using w(4) stage_completed(3) w(1)
    by (intro sound_write [OF stage_completed(2) so _ c, of "(cur_status p i)\<lparr>st_StartedAt := Some t0, st_Phase := StageCompleted,
          st_CompletedAt := Some t, st_Output := truncateOutput out,
          st_OutputRef := outputConfigMapName (p_name p) (sp_Name stage), st_TaskID := tid\<rparr>"])
      (simp_all add: stage_completed(1) status_ok_def truncateOutput_length HasPrefix_iff outputConfigMapName_def)
next
  case (stage_recovered stage i out t)
  note w = sound_working_on [OF stage_recovered(2) so]
  show ?thesis
    using w(4) stage_recovered(3) w(1)
    by (intro sound_write [OF stage_recovered(2) so _ c, of "(cur_status p i)\<lparr>st_Phase := StageCompleted,
          st_CompletedAt := Some t, st_Output := truncateOutput out,
          st_OutputRef := outputConfigMapName (p_name p) (sp_Name stage)\<rparr>"])
      (simp_all add: stage_recovered(1) status_ok_def truncateOutput_length HasPrefix_iff outputConfigMapName_def)
next
  case (retried stage i)
  note w = sound_working_on [OF retried(2) so]
  have "sint (st_RetryCount (cur_status p i) + 1) = sint (st_RetryCount (cur_status p i)) + 1"
    using retried(4) unfolding retries_left_def by (rule sint_less_add_one)
  then show ?thesis
    using w(4) retried(3) w(1)
    by (intro sound_write [OF retried(2) so _ c, of "(cur_status p i)\<lparr>st_RetryCount := st_RetryCount (cur_status p i) + 1,
         st_Phase := StagePending, st_Error := '''', st_CompletedAt := None\<rparr>"]) (simp_all add: retried(1) status_ok_def)
next
  case (gave_up stage i cs tbl t)
  note w = sound_working_on [OF gave_up(2) so]
  have "list_ex (\<lambda>ss. st_Phase ss = StageFailed) (p_statuses p)" using w(3) gave_up(3) by (auto simp: list_ex_length)
  then show ?thesis
    using gave_up(1) sound_end [OF c] w(2) ready_is_with [OF gave_up(5)] by (simp add: sound_pipeline_def fresh_def)
next
  case (completed cs t)
  have s: "sound_stages p" using completed so by (intro sound_running) auto
  then have "list_all (\<lambda>ss. st_Phase ss = StageCompleted) (p_statuses p)"
    using completed(3) status_ok_done [of "p_name p"] by (auto simp: FindCurrentStage_None_iff list_all_iff sound_stages_def)
  then show ?thesis
    using completed(1) sound_end [OF c] s ready_is_with [OF completed(4)] by (simp add: sound_pipeline_def fresh_def)
qed

end
