(* ===== verification/Operator_Runs.thy ===== *)
theory Operator_Runs
  imports Pipeline_Progress Status_Invariant
begin

text \<open>
  The operator over time. \<open>passes\<close> runs one reconciler over a sequence of keys, the
  work queue as controller-runtime hands it out. \<open>reachable\<close> is the system: in any
  order, passes of any reconciler whose environment meets the contract (so restarts, changes of
  leader and calls that fail at any point are included) and what users may do to the stored
  pipelines, edits of the spec of a running one included.
\<close>

section \<open>Sequences of passes\<close>

fun passes :: "('c,'r) recon \<Rightarrow> ('c,'r) world \<Rightarrow> NamespacedName list \<Rightarrow> ('c,'r) world" where
  "passes R w [] = w"
| "passes R w (k # ks) = passes R (snd (Reconcile R w k)) ks"

lemma passes_append: "passes R w (ks @ ls) = passes R (passes R w ks) ls"
  by (induction ks arbitrary: w) simp_all

context k8s_cluster
begin

text \<open>What a pass over \<open>k\<close> does to the pipeline stored under any key \<open>j\<close>.\<close>

lemma Reconcile_pointwise:
  assumes "Reconcile R w k = (x, w')" and st: "stored (w_cluster w) j = Some p" and wf: "wf_pipeline p"
    and st': "stored (w_cluster w') j = Some p'"
  shows "wf_pipeline p' \<and> budgets p' = budgets p \<and> ap_Spec p' = ap_Spec p \<and>
    (ap_Status p' = ap_Status p \<and> abs_pipeline p' = abs_pipeline p \<or>
     j = k \<and> alive p \<and> astep (budgets p) (abs_pipeline p) (abs_pipeline p'))"
  using assms(1)
proof (cases rule: Reconcile_stored)
  case same
  then show ?thesis using st st' wf by simp
next
  case (step q q' s)
  show ?thesis
  proof (cases "j = k")
    case True
    then have eq: "q = p" "q' = p'" using step(1,6) st st' by simp_all
    note c = step(5) [unfolded eq]
    note ref = status_step_refines [OF step(4) [unfolded eq] wf c]
    show ?thesis
      using ref True step(2) [unfolded eq] view_cong(4) [OF carries_view [OF c]] c [unfolded carries_def] by blast
  qed (use step(6) st st' wf in simp)
next
  case (finalizer q)
  show ?thesis
  proof (cases "j = k")
    case True
    then have eq: "q = p" using finalizer(1) st by simp
    have "p_key p = k" "adds_finalizer (stored (w_cluster w)) (stored (w_cluster w')) k p"
      using finalizer(3,4) eq by simp_all
    from finalizer_passes_left [OF this(2) st' [unfolded True] wf this(1)] show ?thesis
      using finalizer(4) st' True eq by (auto simp: adds_finalizer_def)
  qed (use finalizer(4) st st' wf in \<open>auto simp: adds_finalizer_def\<close>)
next
  case (deletion q)
  show ?thesis
  proof (cases "j = k")
    case True
    then have eq: "q = p" using deletion(1) st by simp
    have p': "p_key p' = k" "ap_Spec p' = ap_Spec p" "ap_Status p' = ap_Status p"
      using deletion(4) st' unfolding True eq by (auto elim: removes_finalizerE)
    then have v: "same_view p p'" using deletion(3) eq by (auto simp: same_view_def p_key_def)
    show ?thesis
      using wf_same_status [OF v p'(3)] view_cong(4) [OF v] wf p' by (simp add: abs_pipeline_def fresh_def)
  qed (use removes_finalizer_other [OF deletion(4), of j] st st' wf in simp)
qed

lemma Reconcile_sound:
  assumes "Reconcile R w k = (x, w')" and st: "stored (w_cluster w) j = Some p" and so: "sound_pipeline p"
    and st': "stored (w_cluster w') j = Some p'"
  shows "sound_pipeline p'"
  using assms(1)
proof (cases rule: Reconcile_stored)
  case same
  then show ?thesis using st st' so by simp
next
  case (step q q' s)
  then show ?thesis using st st' so status_step_sound [OF step(4) _ step(5)] by (cases "j = k") auto
next
  case (finalizer q)
  then show ?thesis using st st' so sound_same_status [of q p'] by (cases "j = k") (auto simp: adds_finalizer_def p_key_def)
next
  case (deletion q)
  show ?thesis
  proof (cases "j = k")
    case True
    then have "q = p" "p_key p' = k" "ap_Status p' = ap_Status p"
      using deletion(1,4) st st' by (auto elim: removes_finalizerE)
    then show ?thesis using so sound_same_status [of p' p] deletion(3) by (auto simp: p_key_def)
  qed (use removes_finalizer_other [OF deletion(4), of j] st st' so in simp)
qed

lemma Reconcile_domain:
  assumes "Reconcile R w k = (x, w')"
  shows "stored (w_cluster w) j = None \<Longrightarrow> stored (w_cluster w') j = None"
    "stored (w_cluster w) j = Some p \<Longrightarrow> stored (w_cluster w') j = None \<Longrightarrow>
       j = k \<and> \<not> alive p \<and> set (om_Finalizers (ap_Meta p)) = {finalizerName}"
proof -
  have "(stored (w_cluster w) j = None \<longrightarrow> stored (w_cluster w') j = None) \<and>
    (stored (w_cluster w) j = Some p \<longrightarrow> stored (w_cluster w') j = None \<longrightarrow>
       j = k \<and> \<not> alive p \<and> set (om_Finalizers (ap_Meta p)) = {finalizerName})"
    using assms
  proof (cases rule: Reconcile_stored)
    case (finalizer q)
    then show ?thesis by (cases "j = k") (auto simp: adds_finalizer_def)
  next
    case (deletion q)
    then show ?thesis
      using removes_finalizer_None [OF deletion(4)] removes_finalizer_other [OF deletion(4), of j]
      by (cases "j = k") auto
  next
    case (step q q' s)
    then show ?thesis by (cases "j = k") auto
  qed simp
  then show "stored (w_cluster w) j = None \<Longrightarrow> stored (w_cluster w') j = None"
    "stored (w_cluster w) j = Some p \<Longrightarrow> stored (w_cluster w') j = None \<Longrightarrow>
       j = k \<and> \<not> alive p \<and> set (om_Finalizers (ap_Meta p)) = {finalizerName}" by blast+
qed

lemma passes_domain: "stored (w_cluster w) j = None \<Longrightarrow> stored (w_cluster (passes R w ks)) j = None"
proof (induction ks arbitrary: w)
  case (Cons l ks)
  then show ?case using Reconcile_domain(1) by (cases "Reconcile R w l") auto
qed simp

end

text \<open>
  A whole run of the operator is a run of the machine, for every pipeline, with as many steps as
  passes of the run change the status.
\<close>

fun status_changes ::
  "('c,'r) recon \<Rightarrow> ('c \<Rightarrow> NamespacedName \<Rightarrow> AgentPipeline option) \<Rightarrow> ('c,'r) world \<Rightarrow> NamespacedName list \<Rightarrow> NamespacedName \<Rightarrow> nat" where
  "status_changes R st w [] j = 0"
| "status_changes R st w (k # ks) j =
     (let w' = snd (Reconcile R w k) in
      (if map_option ap_Status (st (w_cluster w') j) \<noteq> map_option ap_Status (st (w_cluster w) j) then 1 else 0)
      + status_changes R st w' ks j)"

context k8s_cluster
begin

lemma passes_counted:
  "stored (w_cluster w) j = Some p \<Longrightarrow> wf_pipeline p \<Longrightarrow> stored (w_cluster (passes R w ks)) j = Some p' \<Longrightarrow>
   asteps (budgets p) (status_changes R stored w ks j) (abs_pipeline p) (abs_pipeline p')"
proof (induction ks arbitrary: w p)
  case Nil
  then show ?case using asteps_0 by auto
next
  case (Cons k ks)
  obtain x v where v: "Reconcile R w k = (x, v)" by fastforce
  obtain q where q: "stored (w_cluster v) j = Some q"
    using Cons.prems(3) passes_domain [of v] v by (cases "stored (w_cluster v) j") auto
  note one = Reconcile_pointwise [OF v Cons.prems(1,2) q]
  have rest: "asteps (budgets p) (status_changes R stored v ks j) (abs_pipeline q) (abs_pipeline p')"
    using Cons.IH [OF q] one Cons.prems(3) v by simp
  show ?case
  proof (cases "ap_Status q = ap_Status p")
    case True
    then have "abs_pipeline q = abs_pipeline p" by (simp add: abs_pipeline_def fresh_def)
    then show ?thesis using rest True q Cons.prems(1) v by (simp add: Let_def)
  next
    case False
    then have "astep (budgets p) (abs_pipeline p) (abs_pipeline q)" using one by blast
    from asteps_Suc [OF this rest] show ?thesis using False q Cons.prems(1) v by (simp add: Let_def)
  qed
qed

end

section \<open>The system\<close>

text \<open>
  Users may create a pipeline with a fresh status, delete one, and change one in every way that
  does not touch its status or its name, the spec of a running pipeline included. A state of the
  system is a world with the keys of the pipelines whose spec was edited after they had started
  (\<open>spec_edited\<close>).
\<close>

definition user_may :: "AgentPipeline option \<Rightarrow> AgentPipeline option \<Rightarrow> bool" where
  "user_may old new = (case new of None \<Rightarrow> True
     | Some p' \<Rightarrow> (case old of None \<Rightarrow> fresh p'
         | Some p \<Rightarrow> p_name p' = p_name p \<and> ap_Status p' = ap_Status p))"

definition spec_edited :: "AgentPipeline option \<Rightarrow> AgentPipeline option \<Rightarrow> bool" where
  "spec_edited old new = (case (old, new) of
      (Some p, Some p') \<Rightarrow> \<not> fresh p \<and> ap_Spec p' \<noteq> ap_Spec p
    | _ \<Rightarrow> False)"

definition edited_after ::
  "NamespacedName set \<Rightarrow> NamespacedName \<Rightarrow> AgentPipeline option \<Rightarrow> AgentPipeline option \<Rightarrow> NamespacedName set" where
  "edited_after ed k old new =
     (if spec_edited old new then insert k ed else if old = None \<or> new = None then ed - {k} else ed)"

type_synonym ('c, 'r) sys_state = "('c, 'r) world \<times> NamespacedName set"

inductive op_step ::
  "('c \<Rightarrow> NamespacedName \<Rightarrow> AgentPipeline option) \<Rightarrow> ('c \<Rightarrow> NamespacedName \<Rightarrow> ConfigMap option)
   \<Rightarrow> ('c,'r) sys_state \<Rightarrow> ('c,'r) sys_state \<Rightarrow> bool" for stored stored_cm where
  op_pass: "k8s_cluster R stored stored_cm \<Longrightarrow> Reconcile R w k = (x, w') \<Longrightarrow> op_step stored stored_cm (w, ed) (w', ed)"
| op_user: "stored c' = (stored (w_cluster w))(k := v) \<Longrightarrow> user_may (stored (w_cluster w) k) v \<Longrightarrow>
    op_step stored stored_cm (w, ed) (w\<lparr>w_cluster := c'\<rparr>, edited_after ed k (stored (w_cluster w) k) v)"

inductive reachable ::
  "('c \<Rightarrow> NamespacedName \<Rightarrow> AgentPipeline option) \<Rightarrow> ('c \<Rightarrow> NamespacedName \<Rightarrow> ConfigMap option)
   \<Rightarrow> ('c,'r) sys_state \<Rightarrow> bool" for stored stored_cm where
  reach_init: "(\<And>k p. stored (w_cluster w) k = Some p \<Longrightarrow> fresh p) \<Longrightarrow> reachable stored stored_cm (w, {})"
| reach_step: "reachable stored stored_cm s \<Longrightarrow> op_step stored stored_cm s s' \<Longrightarrow> reachable stored stored_cm s'"

text \<open>The invariant of the system: the status is sound, and fits the spec unless that was edited.\<close>

definition sys_inv :: "('c \<Rightarrow> NamespacedName \<Rightarrow> AgentPipeline option) \<Rightarrow> ('c,'r) sys_state \<Rightarrow> bool" where
  "sys_inv stored s \<longleftrightarrow> (\<forall>k p. stored (w_cluster (fst s)) k = Some p \<longrightarrow>
     sound_pipeline p \<and> (k \<notin> snd s \<longrightarrow> wf_pipeline p))"

lemma sys_invD:
  "sys_inv stored (w, ed) \<Longrightarrow> stored (w_cluster w) k = Some p \<Longrightarrow> sound_pipeline p \<and> (k \<notin> ed \<longrightarrow> wf_pipeline p)"
  by (simp add: sys_inv_def)

lemma fresh_wf: "fresh p \<Longrightarrow> wf_pipeline p"
  by (simp add: wf_pipeline_def)

lemma user_may_keeps:
  assumes may: "user_may old (Some p')"
    and inv: "\<And>p. old = Some p \<Longrightarrow> sound_pipeline p \<and> (k \<notin> ed \<longrightarrow> wf_pipeline p)"
  shows "sound_pipeline p' \<and> (k \<notin> edited_after ed k old (Some p') \<longrightarrow> wf_pipeline p')"
proof (cases old)
  case None
  then show ?thesis using may by (simp add: user_may_def fresh_wf fresh_sound)
next
  case (Some p)
  then have p': "p_name p' = p_name p" "ap_Status p' = ap_Status p" using may by (simp_all add: user_may_def)
  have "wf_pipeline p'" if not: "k \<notin> edited_after ed k old (Some p')"
  proof (cases "fresh p")
    case True
    then show ?thesis using p'(2) by (simp add: fresh_wf fresh_def)
  next
    case False
    then have "ap_Spec p' = ap_Spec p" "k \<notin> ed" using not Some by (auto simp: edited_after_def spec_edited_def split: if_splits)
    then show ?thesis using wf_same_status [of p p'] inv [OF Some] p' by (simp add: same_view_def)
  qed
  then show ?thesis using sound_same_status [OF p'] inv [OF Some] by blast
qed

lemma edited_after_other: "j \<noteq> k \<Longrightarrow> j \<in> edited_after ed k old new \<longleftrightarrow> j \<in> ed"
  by (simp add: edited_after_def)

lemma op_step_inv:
  assumes "op_step stored stored_cm s s'" and "sys_inv stored s"
  shows "sys_inv stored s'"
  using assms(1)
proof cases
  case (op_pass R w k x w' ed)
  note inv = sys_invD [OF assms(2) [unfolded op_pass(1)]]
  show ?thesis
    unfolding sys_inv_def op_pass(2) fst_conv snd_conv
  proof (intro allI impI)
    fix j p' assume p': "stored (w_cluster w') j = Some p'"
    obtain p where p: "stored (w_cluster w) j = Some p"
      using k8s_cluster.Reconcile_domain(1) [OF op_pass(3,4), of j] p' by (cases "stored (w_cluster w) j") auto
    have "wf_pipeline p'" if "j \<notin> ed"
      using k8s_cluster.Reconcile_pointwise [OF op_pass(3,4) p _ p'] inv [OF p] that by blast
    then show "sound_pipeline p' \<and> (j \<notin> ed \<longrightarrow> wf_pipeline p')"
      using k8s_cluster.Reconcile_sound [OF op_pass(3,4) p _ p'] inv [OF p] by blast
  qed
next
  case (op_user c' w k v ed)
  note inv = sys_invD [OF assms(2) [unfolded op_user(1)]]
  show ?thesis
    unfolding sys_inv_def op_user(2) fst_conv snd_conv
  proof (intro allI impI)
    fix j p' assume p': "stored (w_cluster (w\<lparr>w_cluster := c'\<rparr>)) j = Some p'"
    show "sound_pipeline p' \<and> (j \<notin> edited_after ed k (stored (w_cluster w) k) v \<longrightarrow> wf_pipeline p')"
    proof (cases "j = k")
      case True
      then have v: "v = Some p'" using p' op_user(3) by simp
      show ?thesis unfolding True v by (rule user_may_keeps) (use op_user(4) v inv in auto)
    next
      case False
      then show ?thesis using p' op_user(3) inv edited_after_other [of j k] by simp
    qed
  qed
qed

lemma reachable_inv: "reachable stored stored_cm s \<Longrightarrow> sys_inv stored s"
proof (induction rule: reachable.induct)
  case (reach_init w)
  then show ?case by (auto simp: sys_inv_def fresh_wf fresh_sound)
next
  case (reach_step s s')
  then show ?case using op_step_inv by blast
qed

section \<open>Runs that end\<close>

context k8s_reliable
begin

lemma Reconcile_terminal:
  assumes "Reconcile R w k = (x, w')" and up: "up (w_cluster w)" and st: "stored (w_cluster w) k = Some p"
    and "alive p" and "terminal p"
  shows "up (w_cluster w')" "stored (w_cluster w') = stored (w_cluster w)" "x = Ret no_requeue None"
proof -
  obtain c where c: "client_Get R (w_cluster w) k = (Inr p, c)" "up c" using up_Get [OF up st] by blast
  show "x = Ret no_requeue None" using assms(1,4,5) c by (auto simp: Reconcile_def do_Get_def terminal_def)
  have "w' = w\<lparr>w_cluster := c\<rparr>" using assms(1,4,5) c by (auto simp: Reconcile_def do_Get_def terminal_def)
  moreover have "stored c = stored (w_cluster w)" using Get_frame c(1) by blast
  ultimately show "up (w_cluster w')" "stored (w_cluster w') = stored (w_cluster w)" using c(2) by simp_all
qed

text \<open>One pass over an admitted pipeline, whatever is left to do.\<close>

lemma Reconcile_nears_end:
  assumes "Reconcile R w k = (x, v)" and up: "up (w_cluster w)" and st: "stored (w_cluster w) k = Some p"
    and key: "p_key p = k" and al: "alive p" and wf: "wf_pipeline p" and deps: "deps_earlier p"
    and ad: "valid_AgentPipelineSpec (ap_Spec p)" "names_fit p" and fit: "outputs_fit R limit"
    and n: "passes_left p \<le> Suc n \<or> unreportable (print_table R) p"
  obtains p' where "up (w_cluster v)" "stored (w_cluster v) k = Some p'" "p_key p' = k" "alive p'" "wf_pipeline p'"
    "deps_earlier p'" "ap_Spec p' = ap_Spec p" "passes_left p' \<le> n \<or> unreportable (print_table R) p'"
proof -
  consider (over) "terminal p" | (stuck) "unreportable (print_table R) p" | (work) "\<not> terminal p" "\<not> unreportable (print_table R) p"
    by blast
  then show thesis
  proof cases
    case over
    have "passes_left p = 0" using passes_left_terminal [OF wf] over by simp
    then show thesis using Reconcile_terminal [OF assms(1) up st al over] that [of p] st key al wf deps by simp
  next
    case stuck
    note r = Reconcile_unreportable [OF assms(1) up st key al stuck]
    from r(1) consider "stored (w_cluster v) = stored (w_cluster w)"
      | p' s where "stored (w_cluster v) k = Some p'" "carries p p' s" "status_step p s" "sts_Phase s = PhaseFailed"
      by (auto simp: writes_def)
    then show thesis
    proof cases
      case 1
      then show thesis using that [of p] r(3) st key al wf deps stuck by simp
    next
      case 2
      note s = step_passes_left [OF wf 2(3,2)]
      have "terminal p'" using 2(2,4) by (simp add: terminal_def carries_def)
      then have "passes_left p' = 0" using passes_left_terminal [OF s(1)] by simp
      then show thesis using that [of p'] r(3) 2(1,2) key al s deps by (simp add: carries_def)
    qed
  next
    case work
    obtain p' where p': "stored (w_cluster v) k = Some p'" "p_key p' = k" "alive p'" "wf_pipeline p'"
      "deps_earlier p'" "passes_left p' < passes_left p" "ap_Spec p' = ap_Spec p" and "up (w_cluster v)"
      using Reconcile_up [OF assms(1) up st al wf deps fit key work(1) ad work(2)] by auto
    moreover have "passes_left p' \<le> n" using p'(6) n work by linarith
    ultimately show thesis using that [of p'] by blast
  qed
qed

lemma passes_end:
  assumes fit: "outputs_fit R limit"
  shows "up (w_cluster w) \<Longrightarrow> stored (w_cluster w) k = Some p \<Longrightarrow> p_key p = k \<Longrightarrow> alive p \<Longrightarrow> wf_pipeline p \<Longrightarrow>
   deps_earlier p \<Longrightarrow> valid_AgentPipelineSpec (ap_Spec p) \<Longrightarrow> names_fit p \<Longrightarrow>
   passes_left p \<le> n \<or> unreportable (print_table R) p \<Longrightarrow>
   \<exists>p'. stored (w_cluster (passes R w (replicate n k))) k = Some p' \<and> (terminal p' \<or> unreportable (print_table R) p')"
proof (induction n arbitrary: w p)
  case 0
  then show ?case using passes_left_terminal by auto
next
  case (Suc n)
  obtain x v where v: "Reconcile R w k = (x, v)" by fastforce
  obtain p' where p': "up (w_cluster v)" "stored (w_cluster v) k = Some p'" "p_key p' = k" "alive p'" "wf_pipeline p'"
    "deps_earlier p'" "ap_Spec p' = ap_Spec p" "passes_left p' \<le> n \<or> unreportable (print_table R) p'"
    by (rule Reconcile_nears_end [OF v Suc.prems(1-8) fit Suc.prems(9)])
  have "p_name p' = p_name p" using p'(3) Suc.prems(3) by (auto simp: p_key_def)
  then have "valid_AgentPipelineSpec (ap_Spec p')" "names_fit p'" using Suc.prems(7,8) p'(7) by (simp_all add: names_fit_def)
  from Suc.IH [OF p'(1-6) this p'(8)] show ?case using v by simp
qed

end

end
