(* ===== verification/Operator_Examples.thy ===== *)
theory Operator_Examples
  imports Operator_Runs
begin

text \<open>
  Concrete pipelines, clusters and runners on which the properties are instantiated. The cluster
  is the in-memory API server of \<open>Operator_Env\<close>; \<open>flaky_run n\<close> is a
  runner whose first \<open>n\<close> calls fail and whose later calls answer with the beginning
  of the prompt.
\<close>

definition flaky_run :: "nat \<Rightarrow> nat \<Rightarrow> RunRequest \<Rightarrow> (goerror + RunResult) \<times> nat" where
  "flaky_run n r req =
     (if r < n then Inr (zero_RunResult\<lparr>res_Status := RunStatusFailed, res_Error := ''boom''\<rparr>)
      else Inr (zero_RunResult\<lparr>res_Status := RunStatusCompleted, res_Output := take 20 (req_Prompt req)\<rparr>), Suc r)"

definition demo_stage :: "string \<Rightarrow> string list \<Rightarrow> string \<Rightarrow> StageSpec" where
  "demo_stage n deps prompt =
     \<lparr>sp_Name = n, sp_AgentRef = \<lparr>ref_Name = n @ ''-agent'', ref_Namespace = ''''\<rparr>, sp_Timeout = None,
      sp_DependsOn = deps, sp_Prompt = prompt, sp_Inputs = [], sp_Config = None, sp_RetryPolicy = None\<rparr>"

definition demo_pipeline :: "StageSpec list \<Rightarrow> int32 \<Rightarrow> AgentPipeline" where
  "demo_pipeline stages retries =
     \<lparr>ap_Meta = zero_ObjectMeta\<lparr>om_Name := ''p'', om_Namespace := ''ns'', om_ResourceVersion := 1\<rparr>,
      ap_Spec = \<lparr>spec_Trigger = \<lparr>trg_Type = TriggerManual, trg_Alertmanager = None\<rparr>, spec_Stages = stages,
        spec_RetryPolicy = Some \<lparr>rp_MaxRetries = retries, rp_Backoff = None\<rparr>\<rparr>,
      ap_Status = \<lparr>sts_Phase = '''', sts_CurrentStage = '''', sts_StartedAt = None, sts_CompletedAt = None,
        sts_Stages = [], sts_Conditions = []\<rparr>\<rparr>"

abbreviation demo_key :: NamespacedName where
  "demo_key \<equiv> \<lparr>nn_Namespace = ''ns'', nn_Name = ''p''\<rparr>"

definition demo_cluster :: "AgentPipeline \<Rightarrow> mem" where
  "demo_cluster p = \<lparr>mem_pipes = [demo_key \<mapsto> p], mem_cms = Map.empty, mem_version = 1, mem_reject = []\<rparr>"

definition demo_world :: "mem \<Rightarrow> 'r \<Rightarrow> (mem, 'r) world" where
  "demo_world c r = \<lparr>w_cluster = c, w_runner = r, w_events = [], w_calls = [], w_clock = 0\<rparr>"

definition two_stages :: AgentPipeline where
  "two_stages = demo_pipeline [demo_stage ''scan'' [] ''find it'', demo_stage ''fix'' [''scan''] ''fix {{.PreviousOutput}}''] 1"

text \<open>A pipeline in the middle of its run: \<open>scan\<close> is done, \<open>fix\<close> waits for its agent.\<close>

definition ready_cond :: "string \<Rightarrow> string \<Rightarrow> Condition" where
  "ready_cond s r = \<lparr>cond_Type = ''Ready'', cond_Status = s, cond_ObservedGeneration = 0,
     cond_LastTransitionTime = 1, cond_Reason = r, cond_Message = ''''\<rparr>"

definition done_stage :: "string \<Rightarrow> string \<Rightarrow> StageStatus" where
  "done_stage n out = zero_StageStatus\<lparr>st_Name := n, st_Phase := StageCompleted, st_StartedAt := Some 2,
     st_CompletedAt := Some 3, st_Output := out, st_OutputRef := outputConfigMapName ''p'' n\<rparr>"

definition half_way :: AgentPipeline where
  "half_way = two_stages\<lparr>
     ap_Meta := (ap_Meta two_stages)\<lparr>om_Finalizers := [finalizerName]\<rparr>,
     ap_Status := (ap_Status two_stages)\<lparr>sts_Phase := PhaseRunning, sts_StartedAt := Some 1,
       sts_CurrentStage := ''scan'',
       sts_Stages := [done_stage ''scan'' ''found'', zero_StageStatus\<lparr>st_Name := ''fix'', st_Phase := StagePending\<rparr>],
       sts_Conditions := [ready_cond ''False'' ''PipelineStarted'']\<rparr>\<rparr>"

definition output_cm :: "string \<Rightarrow> string \<Rightarrow> ConfigMap" where
  "output_cm n out = output_config_map half_way n out"

definition half_cluster :: mem where
  "half_cluster = (demo_cluster half_way)\<lparr>mem_cms :=
     [\<lparr>nn_Namespace = ''ns'', nn_Name = ''p-stage-scan''\<rparr> \<mapsto> output_cm ''scan'' ''found'']\<rparr>"

lemmas demo_defs = demo_pipeline_def demo_stage_def two_stages_def half_way_def done_stage_def ready_cond_def
  demo_cluster_def demo_world_def half_cluster_def zero_StageStatus_def zero_ObjectMeta_def

lemma p_key_demo [simp]: "p_key two_stages = demo_key" "p_key half_way = demo_key"
  by (simp_all add: p_key_def demo_defs)

lemma two_stages_facts [simp]:
  "fresh two_stages" "alive two_stages" "wf_pipeline two_stages" "deps_earlier two_stages"
  by (simp_all add: fresh_def wf_pipeline_def Time_IsZero_def deps_earlier_def demo_defs)

lemma half_way_view:
  "max_retries half_way st = (case sp_RetryPolicy st of None \<Rightarrow> 1 | Some rp \<Rightarrow> nat (sint (rp_MaxRetries rp)))"
  "p_stages half_way = [demo_stage ''scan'' [] ''find it'', demo_stage ''fix'' [''scan''] ''fix {{.PreviousOutput}}'']"
  "p_statuses half_way = [done_stage ''scan'' ''found'', zero_StageStatus\<lparr>st_Name := ''fix'', st_Phase := StagePending\<rparr>]"
  "p_name half_way = ''p''" "p_ns half_way = ''ns''" "p_phase half_way = PhaseRunning"
  "sts_StartedAt (ap_Status half_way) = Some 1"
  "sts_Conditions (ap_Status half_way) = [ready_cond ''False'' ''PipelineStarted'']"
  by (simp_all add: max_retries_def GetEffectiveRetryPolicy_def half_way_def two_stages_def demo_pipeline_def
      zero_ObjectMeta_def split: option.split)

lemma half_way_aligned: "aligned half_way"
  by (simp add: aligned_def half_way_view stage_ok_def phase_ok_def done_stage_def zero_StageStatus_def
      demo_stage_def untouched_def maxStatusOutputLen_def)

lemma half_way_facts [simp]:
  "alive half_way" "wf_pipeline half_way" "deps_earlier half_way" "p_phase half_way = PhaseRunning"
proof -
  show "alive half_way" "deps_earlier half_way" by code_simp+
  show "p_phase half_way = PhaseRunning" by (rule half_way_view)
  show "wf_pipeline half_way"
    by (simp add: wf_pipeline_def fresh_def ready_with_def half_way_aligned half_way_view ready_cond_def)
qed

lemma stored_demo [simp]:
  "mem_pipes (demo_cluster p) demo_key = Some p" "mem_pipes half_cluster demo_key = Some half_way"
  "w_cluster (demo_world c r) = c"
  by (simp_all add: demo_cluster_def half_cluster_def demo_world_def)

lemma demo_valid [simp]:
  "valid_AgentPipelineSpec (ap_Spec two_stages)" "names_fit two_stages"
  "valid_AgentPipelineStatus (ap_Status two_stages)" "0 \<le> om_Generation (ap_Meta two_stages)"
  "valid_AgentPipelineSpec (ap_Spec half_way)" "names_fit half_way"
  "valid_AgentPipelineStatus (ap_Status half_way)" "0 \<le> om_Generation (ap_Meta half_way)"
proof -
  note str = dns_label_def lower_alnum_def byte_in_def rune_count.simps Let_def
  have spec: "ap_Spec half_way = ap_Spec two_stages" "p_name half_way = p_name two_stages" "p_stages half_way = p_stages two_stages"
    by (simp_all add: half_way_def)
  show a: "valid_AgentPipelineSpec (ap_Spec two_stages)"
    by (simp add: valid_AgentPipelineSpec_def valid_TriggerSpec_def valid_TriggerType_def valid_StageSpec_def
        valid_AgentReference_def valid_RetryPolicy_def demo_defs str)
  show b: "names_fit two_stages" by (simp add: names_fit_def dns_subdomain_def demo_defs str)
  show "valid_AgentPipelineSpec (ap_Spec half_way)" "names_fit half_way" using a b by (simp_all add: spec names_fit_def)
  show "valid_AgentPipelineStatus (ap_Status two_stages)" "0 \<le> om_Generation (ap_Meta two_stages)" "0 \<le> om_Generation (ap_Meta half_way)"
    by (simp_all add: valid_AgentPipelineStatus_def demo_defs)
  show "valid_AgentPipelineStatus (ap_Status half_way)"
    by (simp add: valid_AgentPipelineStatus_def valid_StageStatus_def valid_Condition_def message_fits_def rune_count.simps(1) demo_defs)
qed

lemma demo_labels [simp]: "dns_label ''scan''" "dns_label ''fix''"
  by (simp_all add: dns_label_def lower_alnum_def byte_in_def)

lemma mem_up_output: "mem_up c \<Longrightarrow> valid_meta cm \<Longrightarrow> mem_up (c\<lparr>mem_cms := (mem_cms c)(k \<mapsto> cm)\<rparr>)"
  by (simp add: mem_up_def)

lemma demo_outputs_valid [simp]: "dns_label n \<Longrightarrow> length n \<le> 63 \<Longrightarrow> valid_meta (output_config_map half_way n out)"
  using output_valid_iff [of half_way n out] demo_valid(6) by (simp add: names_fit_def)

lemma mem_up_demo [simp]:
  "p_key p = demo_key \<Longrightarrow> valid_AgentPipelineStatus (ap_Status p) \<Longrightarrow> 0 \<le> om_Generation (ap_Meta p) \<Longrightarrow> mem_up (demo_cluster p)"
  "mem_up half_cluster"
proof -
  show "p_key p = demo_key \<Longrightarrow> valid_AgentPipelineStatus (ap_Status p) \<Longrightarrow> 0 \<le> om_Generation (ap_Meta p) \<Longrightarrow> mem_up (demo_cluster p)" for p
    by (simp add: mem_up_def demo_cluster_def)
  show "mem_up half_cluster" by (simp add: mem_up_def half_cluster_def demo_cluster_def output_cm_def)
qed

lemma flaky_fits: "28 \<le> limit \<Longrightarrow> outputs_fit (mem_env limit (flaky_run n)) limit"
  by (auto simp: outputs_fit_def mem_env_def flaky_run_def zero_RunResult_def configMapDataKey_def)

lemma mem_cluster: "k8s_cluster (mem_env limit run) mem_pipes mem_cms"
  by (rule mem.k8s_cluster_axioms)

lemma mem_still_stored:
  assumes "mem_pipes (w_cluster w) k = Some p" and "alive p"
  obtains p' where "mem_pipes (w_cluster (snd (Reconcile (mem_env limit run) w k))) k = Some p'"
  using assms k8s_cluster.Reconcile_domain(2) [OF mem_cluster prod.collapse [symmetric]] by blast

lemma mem_reliable: "k8s_reliable (mem_env limit run) mem_pipes mem_cms mem_up limit"
  by (rule mem.k8s_reliable_axioms)

end
