(* ===== verification/Stage_Context.thy ===== *)
theory Stage_Context
  imports Operator_Examples
begin

text \<open>
  What a stage is given and what is kept of its output: the current stage and its dependencies,
  the context and the prompt of its agent, the name of its output ConfigMap and the truncated copy
  in the status. \<open>stage_context\<close> says which outputs a prompt can refer to; the lemmas
  show that the loop of \<open>BuildPipelineContext\<close> collects exactly them, and that the
  one agent invocation of a pass carries the prompt rendered from them.
\<close>

section \<open>Truncation and names\<close>

lemma truncateOutput_longer:
  assumes "maxStatusOutputLen < length s"
  shows "truncateOutput s = ''...'' @ drop (length s - 1021) s"
  using assms by (simp add: truncateOutput_def maxStatusOutputLen_def)

text \<open>
  C29. The output kept in the status is at most 1024 bytes long, the output itself exactly when
  it is no longer than that, otherwise three dots and as much of its end as fits; truncating
  again changes nothing.
\<close>

theorem truncateOutput_bounds:
  "length (truncateOutput s) = min (length s) maxStatusOutputLen \<and>
   (truncateOutput s = s \<longleftrightarrow> length s \<le> maxStatusOutputLen) \<and>
   take 3 (truncateOutput s) = (if length s \<le> maxStatusOutputLen then take 3 s else ''...'') \<and>
   s = take (length s - length (drop 3 (truncateOutput s))) s @ drop 3 (truncateOutput s) \<and>
   truncateOutput (truncateOutput s) = truncateOutput s"
proof (cases "length s \<le> maxStatusOutputLen")
  case True
  then show ?thesis by (simp add: truncateOutput_def) (metis append_take_drop_id diff_diff_cancel diff_le_self drop_all length_drop linear take_all)
next
  case False
  note eq = truncateOutput_longer [OF False [unfolded not_le]]
  have len: "length (truncateOutput s) = maxStatusOutputLen"
    using False by (simp add: eq maxStatusOutputLen_def)
  have "truncateOutput s \<noteq> s" using len False by auto
  moreover have "truncateOutput (truncateOutput s) = truncateOutput s"
    by (subst truncateOutput_def) (simp add: len)
  moreover have "drop 3 (truncateOutput s) = drop (length s - 1021) s" "take 3 (truncateOutput s) = ''...''" by (simp_all add: eq)
  ultimately show ?thesis using False len by (simp add: maxStatusOutputLen_def)
qed

section \<open>The context of a stage\<close>

definition visible :: "StageStatus \<Rightarrow> bool" where
  "visible ss \<longleftrightarrow> st_Phase ss = StageCompleted \<and> st_OutputRef ss \<noteq> ''''"

text \<open>The output a template reads as \<open>.StageOutput n\<close>: that of the last completed stage of this name.\<close>

definition named_output :: "(string \<Rightarrow> string option) \<Rightarrow> StageStatus list \<Rightarrow> string \<Rightarrow> string option" where
  "named_output out xs n =
     (case find (\<lambda>ss. visible ss \<and> st_Name ss = n) (rev xs) of
        None \<Rightarrow> None | Some ss \<Rightarrow> out (st_OutputRef ss))"

lemma find_append: "find P (xs @ ys) = (case find P xs of None \<Rightarrow> find P ys | Some x \<Rightarrow> Some x)"
  by (induction xs) simp_all

lemma find_SomeD: "find P xs = Some x \<Longrightarrow> x \<in> set xs \<and> P x"
  by (induction xs) (auto split: if_splits)

lemma named_output_hidden: "\<not> visible ss \<Longrightarrow> named_output out (ss # xs) = named_output out xs"
  by (auto simp: named_output_def find_append fun_eq_iff split: option.splits)

lemma named_output_visible:
  assumes "visible ss" and "out (st_OutputRef ss) = Some o1"
    and "list_all (\<lambda>ss. visible ss \<longrightarrow> out (st_OutputRef ss) \<noteq> None) xs"
  shows "m(st_Name ss \<mapsto> o1) ++ named_output out xs = m ++ named_output out (ss # xs)"
proof
  fix n
  show "(m(st_Name ss \<mapsto> o1) ++ named_output out xs) n = (m ++ named_output out (ss # xs)) n"
  proof (cases "find (\<lambda>ss. visible ss \<and> st_Name ss = n) (rev xs)")
    case None
    then show ?thesis using assms by (simp add: map_add_def named_output_def find_append)
  next
    case (Some y)
    then have "y \<in> set xs" "visible y" using find_SomeD by fastforce+
    then show ?thesis using Some assms(3) by (auto simp: map_add_def named_output_def find_append list_all_iff)
  qed
qed

context k8s_reliable
begin

lemma readConfigMapOutput_output_at:
  "up (w_cluster w) \<Longrightarrow> readConfigMapOutput R w ns n = (Inr out, w') \<Longrightarrow> output_at stored_cm (w_cluster w) ns n = Some out"
  using readConfigMapOutput_reliable [of w ns n] by (auto split: option.splits)

text \<open>
  What the loop of \<open>BuildPipelineContext\<close> collects: the named outputs, and as
  previous output the one of the stage in front of position \<open>c\<close>, where the current
  stage stands.
\<close>

lemma build_context_loop_collects:
  assumes "build_context_loop R w p cur i xs pc = (Inr pc', w')" and "pc_stageOutputs pc = Some m" and "up (w_cluster w)"
    and pos: "\<And>j. Suc j < length (p_stages p) \<Longrightarrow> sp_Name (p_stages p ! Suc j) = sp_Name cur \<longleftrightarrow> Suc j = c"
    and c: "c < length (p_stages p)"
  defines "out \<equiv> output_at stored_cm (w_cluster w) (p_ns p)"
  shows "pc_Inputs pc' = pc_Inputs pc \<and> list_all (\<lambda>ss. visible ss \<longrightarrow> out (st_OutputRef ss) \<noteq> None) xs \<and>
    pc_stageOutputs pc' = Some (m ++ named_output out xs) \<and>
    pc_PreviousOutput pc' = (if i < c \<and> c \<le> i + length xs \<and> visible (xs ! (c - Suc i))
       then the (out (st_OutputRef (xs ! (c - Suc i)))) else pc_PreviousOutput pc)"
  using assms(1-3) unfolding out_def
proof (induction xs arbitrary: w i pc m)
  case Nil
  then show ?case by (auto simp: named_output_def map_add_def)
next
  case (Cons a xs)
  let ?out = "output_at stored_cm (w_cluster w) (p_ns p)"
  have idx: "i < c \<Longrightarrow> (a # xs) ! (c - Suc i) = (if c = Suc i then a else xs ! (c - Suc (Suc i)))"
    by (auto simp: nth_Cons')
  show ?case
  proof (cases "visible a")
    case False
    then have "build_context_loop R w p cur (Suc i) xs pc = (Inr pc', w')"
      using Cons.prems by (auto simp: visible_def split: if_splits)
    from Cons.IH [OF this Cons.prems(2,3)] show ?thesis
      using False by (auto simp: named_output_hidden idx)
  next
    case True
    then obtain o1 v where r: "readConfigMapOutput R w (p_ns p) (st_OutputRef a) = (Inr o1, v)"
      using Cons.prems by (auto simp: visible_def Let_def split: prod.splits sum.splits if_splits)
    let ?pc = "pc\<lparr>pc_stageOutputs := Some (m(st_Name a \<mapsto> o1))\<rparr>"
    let ?pc = "if Suc i = c then ?pc\<lparr>pc_PreviousOutput := o1\<rparr> else ?pc"
    have loop: "build_context_loop R v p cur (Suc i) xs ?pc = (Inr pc', w')"
      using Cons.prems True r pos [of i] c by (auto simp: visible_def Let_def split: if_splits)
    have o1: "?out (st_OutputRef a) = Some o1" using readConfigMapOutput_output_at [OF Cons.prems(3) r] .
    have same: "output_at stored_cm (w_cluster v) (p_ns p) = ?out"
      using readConfigMapOutput_cases(2) [OF r] by (simp add: output_at_def fun_eq_iff)
    have m: "pc_stageOutputs ?pc = Some (m(st_Name a \<mapsto> o1))" by simp
    note IH = Cons.IH [OF loop m readConfigMapOutput_up [OF Cons.prems(3) r], unfolded same]
    have "list_all (\<lambda>ss. visible ss \<longrightarrow> ?out (st_OutputRef ss) \<noteq> None) xs" using IH by blast
    note named = named_output_visible [OF True o1 this, of m]
    show ?thesis using IH [unfolded named] True o1 by (auto simp: idx)
  qed
qed

lemma BuildPipelineContext_collects:
  assumes "BuildPipelineContext R w p cur = (Inr pc, w')" and up: "up (w_cluster w)"
    and c: "c < length (p_stages p)" "cur = p_stages p ! c" and names: "distinct (map sp_Name (p_stages p))"
  defines "out \<equiv> output_at stored_cm (w_cluster w) (p_ns p)"
  shows "pc = \<lparr>pc_PreviousOutput = (if 0 < c \<and> c \<le> length (p_statuses p) \<and> visible (p_statuses p ! (c - 1))
         then the (out (st_OutputRef (p_statuses p ! (c - 1)))) else ''''),
       pc_Inputs = sp_Inputs cur, pc_stageOutputs = Some (named_output out (p_statuses p))\<rparr>"
    "list_all (\<lambda>ss. visible ss \<longrightarrow> out (st_OutputRef ss) \<noteq> None) (p_statuses p)"
proof -
  have pos: "sp_Name (p_stages p ! Suc j) = sp_Name cur \<longleftrightarrow> Suc j = c" if "Suc j < length (p_stages p)" for j
    using nth_eq_iff_index_eq [OF names, of "Suc j" c] that c by simp
  note r = build_context_loop_collects [OF assms(1) [unfolded BuildPipelineContext_def] _ up, of Map.empty c]
  show "pc = \<lparr>pc_PreviousOutput = (if 0 < c \<and> c \<le> length (p_statuses p) \<and> visible (p_statuses p ! (c - 1))
         then the (out (st_OutputRef (p_statuses p ! (c - 1)))) else ''''),
       pc_Inputs = sp_Inputs cur, pc_stageOutputs = Some (named_output out (p_statuses p))\<rparr>"
    "list_all (\<lambda>ss. visible ss \<longrightarrow> out (st_OutputRef ss) \<noteq> None) (p_statuses p)"
    using r pos c(1) by (simp_all add: out_def)
qed

end

context k8s_reliable
begin

lemma build_context_loop_total:
  "up (w_cluster w) \<Longrightarrow>
   list_all (\<lambda>ss. visible ss \<longrightarrow> output_at stored_cm (w_cluster w) (p_ns p) (st_OutputRef ss) \<noteq> None) xs \<Longrightarrow>
   \<exists>pc' w'. build_context_loop R w p cur i xs pc = (Inr pc', w')"
proof (induction xs arbitrary: w i pc)
  case (Cons a xs)
  show ?case
  proof (cases "visible a")
    case False
    then show ?thesis using Cons by (auto simp: visible_def)
  next
    case True
    obtain y v where y: "readConfigMapOutput R w (p_ns p) (st_OutputRef a) = (y, v)" by fastforce
    obtain out where "y = Inr out"
      using readConfigMapOutput_reliable [OF Cons.prems(1) y] Cons.prems(2) True by (auto split: option.splits)
    moreover have "output_at stored_cm (w_cluster v) = output_at stored_cm (w_cluster w)"
      using readConfigMapOutput_cases(2) [OF y] by (simp add: output_at_def fun_eq_iff)
    ultimately show ?thesis
      using Cons.IH [OF readConfigMapOutput_up [OF Cons.prems(1) y]] Cons.prems(2) True y
      by (simp add: visible_def Let_def)
  qed
qed simp

end

text \<open>The context the agent of stage \<open>i\<close> is prompted with, read off the stored objects.\<close>

definition stage_context :: "(string \<Rightarrow> string option) \<Rightarrow> AgentPipeline \<Rightarrow> nat \<Rightarrow> PipelineContext" where
  "stage_context out p i =
     \<lparr>pc_PreviousOutput = (if 0 < i \<and> visible (p_statuses p ! (i - 1))
         then the (out (st_OutputRef (p_statuses p ! (i - 1)))) else ''''),
      pc_Inputs = sp_Inputs (p_stages p ! i), pc_stageOutputs = Some (named_output out (p_statuses p))\<rparr>"

lemma find_conj: "find (\<lambda>x. P x \<and> Q x) xs = find Q (filter P xs)"
  by (induction xs) auto

lemma named_output_update:
  assumes "i < length xs" "\<not> visible (xs ! i)" "\<not> visible v"
  shows "named_output out (xs[i := v]) = named_output out xs"
proof -
  have "filter visible (xs[i := v]) = filter visible xs"
    using assms id_take_nth_drop [of i xs] by (simp add: upd_conv_take_nth_drop)
      (metis filter.simps(2) filter_append)
  then show ?thesis by (simp add: named_output_def fun_eq_iff find_conj rev_filter [symmetric])
qed

context k8s_reliable
begin

text \<open>
  A stage with no stored output whose predecessors' outputs can be read: what is left of
  \<open>startStage\<close> once the context is built.
\<close>

lemma startStage_invokes:
  assumes up: "up (w_cluster w)" and wk: "working_on p stage i" and pend: "st_Phase (cur_status p i) = StagePending"
    and names: "distinct (map sp_Name (p_stages p))"
    and new: "stored_cm (w_cluster w) (output_key p stage) = None"
    and avail: "list_all (\<lambda>ss. visible ss \<longrightarrow> output_at stored_cm (w_cluster w) (p_ns p) (st_OutputRef ss) \<noteq> None) (p_statuses p)"
  obtains t0 u where "up (w_cluster u)" "stored (w_cluster u) = stored (w_cluster w)"
    "stored_cm (w_cluster u) = stored_cm (w_cluster w)" "w_calls u = w_calls w" "w_runner u = w_runner w"
    "startStage R w p stage i =
      (case RenderPrompt R stage (stage_context (output_at stored_cm (w_cluster w) (p_ns p)) p i) of
         Inl err \<Rightarrow> failStage R u (running_at p stage i t0) i (''rendering prompt: '' @ error_text err)
       | Inr prompt \<Rightarrow> finish_run R (snd (do_RunAgent R u (run_request p stage prompt)))
           (running_at p stage i t0) stage i (fst (do_RunAgent R u (run_request p stage prompt))))"
proof -
  have cur: "i < length (p_statuses p)" "i < length (p_stages p)" "stage = p_stages p ! i"
    using wk FindCurrentStage_SomeD by (auto simp: working_on_def)
  obtain y v where y: "readConfigMapOutput R w (p_ns p) (outputConfigMapName (p_name p) (sp_Name stage)) = (y, v)"
    by fastforce
  note keep = readConfigMapOutput_cases(1,2) [OF y] and upv = readConfigMapOutput_up [OF up y]
    and run = readConfigMapOutput_same_run [OF y, unfolded same_run_def]
  obtain e where e: "y = Inl e" using readConfigMapOutput_reliable [OF up y] new by (auto simp: output_at_def)
  define t0 where "t0 = wall_clock R (w_clock v)"
  define v1 where "v1 = Recorder_Event (v\<lparr>w_clock := Suc (w_clock v)\<rparr>) EventTypeNormal ''StageStarted''
    (''Stage '' @ quote (print_table R) (sp_Name stage) @ '' started (agent: '' @ ref_Name (sp_AgentRef stage) @ '')'')"
  let ?p = "running_at p stage i t0" and ?out = "output_at stored_cm (w_cluster w) (p_ns p)"
  let ?ss = "(cur_status p i)\<lparr>st_Phase := StageRunning, st_StartedAt := Some t0\<rparr>"
  have ss: "p_statuses ?p = (p_statuses p)[i := ?ss]" by simp
  have hidden: "\<not> visible (cur_status p i)" "\<not> visible ?ss" using pend by (simp_all add: visible_def)
  have out: "output_at stored_cm (w_cluster v1) = output_at stored_cm (w_cluster w)" and up1: "up (w_cluster v1)"
    using keep upv by (simp_all add: v1_def output_at_def fun_eq_iff)
  have avail1: "list_all (\<lambda>ss. visible ss \<longrightarrow> ?out (st_OutputRef ss) \<noteq> None) (p_statuses ?p)"
    using avail hidden(2) cur(1) unfolding ss list_all_length by (simp add: nth_list_update)
  obtain pc u where b: "BuildPipelineContext R v1 ?p stage = (Inr pc, u)"
    using build_context_loop_total [OF up1, of ?p "p_statuses ?p" stage 0
        "\<lparr>pc_PreviousOutput = '''', pc_Inputs = sp_Inputs stage, pc_stageOutputs = Some Map.empty\<rparr>"] avail1 out
    by (auto simp: BuildPipelineContext_def)
  have pc: "pc = stage_context ?out p i"
    using BuildPipelineContext_collects(1) [OF b up1, of i] cur names named_output_update [OF cur(1) hidden, of ?out]
    by (cases i) (simp_all add: stage_context_def out ss)
  show thesis
  proof (rule that [of u t0])
    show "up (w_cluster u)" using build_context_loop_up [OF b [unfolded BuildPipelineContext_def] up1] .
    show "stored (w_cluster u) = stored (w_cluster w)" "stored_cm (w_cluster u) = stored_cm (w_cluster w)"
      "w_calls u = w_calls w" "w_runner u = w_runner w"
      using BuildPipelineContext_keeps [OF b] BuildPipelineContext_same_run [OF b] keep run
      by (simp_all add: v1_def same_run_def)
    show "startStage R w p stage i = (case RenderPrompt R stage (stage_context ?out p i) of
         Inl err \<Rightarrow> failStage R u ?p i (''rendering prompt: '' @ error_text err)
       | Inr prompt \<Rightarrow> finish_run R (snd (do_RunAgent R u (run_request p stage prompt))) ?p stage i
           (fst (do_RunAgent R u (run_request p stage prompt))))"
      using y e b by (simp add: pc [symmetric] startStage_def metav1_Now_def Let_def t0_def v1_def case_prod_beta split: sum.splits)
  qed
qed

lemma startStage_calls:
  assumes eq: "startStage R w p stage i = (x, w')" and up: "up (w_cluster w)"
    and st: "stored (w_cluster w) k = Some p" and k: "p_key p = k"
    and wk: "working_on p stage i" and pend: "st_Phase (cur_status p i) = StagePending"
    and rest: "distinct (map sp_Name (p_stages p))" "stored_cm (w_cluster w) (output_key p stage) = None"
      "list_all (\<lambda>ss. visible ss \<longrightarrow> output_at stored_cm (w_cluster w) (p_ns p) (st_OutputRef ss) \<noteq> None) (p_statuses p)"
  shows "w_calls w' = w_calls w @
    (case RenderPrompt R stage (stage_context (output_at stored_cm (w_cluster w) (p_ns p)) p i) of
       Inl e \<Rightarrow> [] | Inr prompt \<Rightarrow> [run_request p stage prompt])"
proof -
  let ?pc = "stage_context (output_at stored_cm (w_cluster w) (p_ns p)) p i"
  obtain t0 u where u: "stored (w_cluster u) = stored (w_cluster w)" "w_calls u = w_calls w"
    and run: "startStage R w p stage i = (case RenderPrompt R stage ?pc of
         Inl err \<Rightarrow> failStage R u (running_at p stage i t0) i (''rendering prompt: '' @ error_text err)
       | Inr prompt \<Rightarrow> finish_run R (snd (do_RunAgent R u (run_request p stage prompt)))
           (running_at p stage i t0) stage i (fst (do_RunAgent R u (run_request p stage prompt))))"
    by (rule startStage_invokes [OF up wk pend rest])
  have sn: "snapshot (stored (w_cluster u)) k p" using u st k by (simp add: snapshot_stored)
  show ?thesis
  proof (cases "RenderPrompt R stage ?pc")
    case (Inl e)
    then show ?thesis
      using failStage_effect(3) [where S = "\<lambda>_. True", of u "running_at p stage i t0" i _ x w' k p] eq run sn u k by auto
  next
    case (Inr prompt)
    let ?r = "do_RunAgent R u (run_request p stage prompt)"
    have fin: "finish_run R (snd ?r) (running_at p stage i t0) stage i (fst ?r) = (x, w')" using eq run Inr by simp
    have "snapshot (stored (w_cluster (snd ?r))) k p" using sn by simp
    from finish_run_effect [OF fin this k wk pend] show ?thesis using u Inr by simp
  qed
qed

end

text \<open>The outputs of the completed stages are stored, and the status has their truncated copy.\<close>

definition outputs_kept :: "(string \<Rightarrow> string option) \<Rightarrow> AgentPipeline \<Rightarrow> bool" where
  "outputs_kept out p \<longleftrightarrow> list_all (\<lambda>ss. if visible ss
     then (case out (st_OutputRef ss) of None \<Rightarrow> False | Some s \<Rightarrow> st_Output ss = truncateOutput s) else True) (p_statuses p)"

lemma outputs_kept_avail:
  "outputs_kept out p \<Longrightarrow> list_all (\<lambda>ss. visible ss \<longrightarrow> out (st_OutputRef ss) \<noteq> None) (p_statuses p)"
  by (fastforce simp: outputs_kept_def list_all_iff split: option.splits)

section \<open>What a pass reads when the API server is in good order\<close>

context k8s_reliable
begin

lemma Get_up:
  assumes "up (w_cluster w)" and "stored (w_cluster w) k = Some p"
  obtains v where "do_Get R w k = (Inr p, v)" "up (w_cluster v)" "stored (w_cluster v) = stored (w_cluster w)"
    "stored_cm (w_cluster v) = stored_cm (w_cluster w)" "same_run w v"
proof -
  obtain c where c: "client_Get R (w_cluster w) k = (Inr p, c)" "up c" using up_Get [OF assms] by blast
  then have g: "do_Get R w k = (Inr p, w\<lparr>w_cluster := c\<rparr>)" by (simp add: do_Get_def)
  show thesis using that [OF g] do_Get_cases [OF g] c by simp
qed

text \<open>A pass over a live pipeline whose current stage is pending is a call of \<open>startStage\<close>.\<close>

lemma Reconcile_starts:
  assumes "up (w_cluster w)" and "stored (w_cluster w) k = Some p" and "alive p"
    and "working_on p stage i" and "st_Phase (cur_status p i) = StagePending"
  obtains v where "Reconcile R w k = startStage R v p stage i" "up (w_cluster v)"
    "stored (w_cluster v) = stored (w_cluster w)" "stored_cm (w_cluster v) = stored_cm (w_cluster w)" "same_run w v"
proof -
  obtain v where v: "do_Get R w k = (Inr p, v)" "up (w_cluster v)" "stored (w_cluster v) = stored (w_cluster w)"
    "stored_cm (w_cluster v) = stored_cm (w_cluster w)" "same_run w v" by (rule Get_up [OF assms(1,2)])
  have "Reconcile R w k = startStage R v p stage i"
    using assms(3-5) v(1) by (simp add: Reconcile_def working_on_def handleRunning_def Let_def)
  then show thesis using that v by blast
qed

lemma Reconcile_calls:
  assumes "up (w_cluster w)" and "stored (w_cluster w) k = Some p" and "p_key p = k" and "alive p"
    and "working_on p stage i" and "st_Phase (cur_status p i) = StagePending"
    and "distinct (map sp_Name (p_stages p))"
    and "stored_cm (w_cluster w) (output_key p stage) = None"
    and "outputs_kept (output_at stored_cm (w_cluster w) (p_ns p)) p"
  shows "w_calls (snd (Reconcile R w k)) = w_calls w @
    (case RenderPrompt R stage (stage_context (output_at stored_cm (w_cluster w) (p_ns p)) p i) of
       Inl e \<Rightarrow> [] | Inr prompt \<Rightarrow> [run_request p stage prompt])"
proof -
  obtain v where v: "Reconcile R w k = startStage R v p stage i" "up (w_cluster v)"
    "stored (w_cluster v) = stored (w_cluster w)" "stored_cm (w_cluster v) = stored_cm (w_cluster w)" "same_run w v"
    by (rule Reconcile_starts [OF assms(1,2,4-6)])
  have out: "output_at stored_cm (w_cluster v) = output_at stored_cm (w_cluster w)"
    using v(4) by (simp add: output_at_def fun_eq_iff)
  show ?thesis
    using startStage_calls [OF prod.collapse [symmetric] v(2) _ assms(3,5,6,7)] assms(2,8) v
      outputs_kept_avail [OF assms(9)] out
    by (simp add: same_run_def)
qed

end

section \<open>Properties\<close>

text \<open>
  C11. A pass over a live pipeline whose current stage waits for its agent and has no stored
  output invokes exactly one agent, that of the stage, with the prompt rendered from the
  stored outputs of the completed stages; it invokes none if the prompt cannot be rendered.
\<close>

theorem agent_call_determined:
  assumes "k8s_reliable R stored stored_cm up limit" and "up (w_cluster w)"
    and "stored (w_cluster w) k = Some p" and "p_key p = k" and "alive p"
    and "working_on p stage i" and "st_Phase (cur_status p i) = StagePending"
    and "distinct (map sp_Name (p_stages p))"
    and "stored_cm (w_cluster w) (output_key p stage) = None"
    and "outputs_kept (output_at stored_cm (w_cluster w) (p_ns p)) p"
  shows "w_calls (snd (Reconcile R w k)) = w_calls w @
    (case RenderPrompt R stage (stage_context (output_at stored_cm (w_cluster w) (p_ns p)) p i) of
       Inl e \<Rightarrow> [] | Inr prompt \<Rightarrow> [run_request p stage prompt])"
  by (rule k8s_reliable.Reconcile_calls [OF assms])

lemma half_way_working: "working_on half_way (demo_stage ''fix'' [''scan''] ''fix {{.PreviousOutput}}'') 1"
  by (simp add: working_on_def FindCurrentStage_def AreDependenciesMet_def half_way_view done_stage_def
      demo_stage_def zero_StageStatus_def)

lemma half_cluster_outputs:
  "mem_cms half_cluster \<lparr>nn_Namespace = ''ns'', nn_Name = ''p-stage-scan''\<rparr> = Some (output_cm ''scan'' ''found'')"
  "mem_cms half_cluster \<lparr>nn_Namespace = ''ns'', nn_Name = ''p-stage-fix''\<rparr> = None"
  "cm_output (output_cm s out) = out"
  by (simp_all add: half_cluster_def output_cm_def cm_output_def output_config_map_def)

lemma half_way_kept: "outputs_kept (output_at mem_cms half_cluster ''ns'') half_way"
  by (simp add: outputs_kept_def half_way_view visible_def done_stage_def zero_StageStatus_def output_at_def
      outputConfigMapName_def half_cluster_outputs truncateOutput_def maxStatusOutputLen_def)

lemma half_way_context:
  "stage_context (output_at mem_cms half_cluster ''ns'') half_way 1 =
     \<lparr>pc_PreviousOutput = ''found'', pc_Inputs = [], pc_stageOutputs = Some [''scan'' \<mapsto> ''found'']\<rparr>"
  by (simp add: stage_context_def half_way_view visible_def done_stage_def zero_StageStatus_def output_at_def
      outputConfigMapName_def half_cluster_outputs named_output_def demo_stage_def fun_eq_iff)

lemma half_way_pending:
  "distinct (map sp_Name (p_stages half_way))" "st_Phase (cur_status half_way 1) = StagePending"
  "p_name half_way = ''p''" "p_ns half_way = ''ns''"
  by (simp_all add: half_way_view demo_stage_def zero_StageStatus_def)

theorem agent_call_determined_witness:
  "w_calls (snd (Reconcile (mem_env 100 (flaky_run 0)) (demo_world half_cluster 0) demo_key)) =
     [\<lparr>req_AgentName = ''fix-agent'', req_Namespace = ''ns'', req_Prompt = ''fix found'', req_Timeout = 5 * Minute\<rparr>]"
proof -
  let ?stage = "demo_stage ''fix'' [''scan''] ''fix {{.PreviousOutput}}''" and ?R = "mem_env 100 (flaky_run 0)"
  have "RenderPrompt ?R ?stage \<lparr>pc_PreviousOutput = ''found'', pc_Inputs = [], pc_stageOutputs = Some [''scan'' \<mapsto> ''found'']\<rparr>
      = Inr ''fix found''"
    using frag.run_PreviousOutput [of "''fix ''" "''''"] by (simp add: RenderPrompt_def demo_stage_def mem_env_def HasPrefix_def)
  then show ?thesis
    using agent_call_determined [OF mem_reliable _ _ _ _ half_way_working half_way_pending(2,1), of "demo_world half_cluster 0" demo_key 100 "flaky_run 0"]
      half_way_kept half_way_context half_cluster_outputs
    by (simp add: half_way_pending outputConfigMapName_def demo_stage_def run_request_def demo_world_def)
qed

text \<open>
  C10. The text of \<open>{{.PreviousOutput}}\<close> in the prompt of a stage is the whole stored
  output of the stage before it, not the truncated copy in the status, whatever that output
  contains.
\<close>

theorem previous_output_reaches_agent:
  assumes "k8s_reliable R stored stored_cm up limit" and "template_engine (tmpl_Run R)" and "up (w_cluster w)"
    and "stored (w_cluster w) k = Some p" and "p_key p = k" and "alive p" and "wf_pipeline p"
    and "working_on p stage (Suc i)" and "st_Phase (cur_status p (Suc i)) = StagePending"
    and "distinct (map sp_Name (p_stages p))"
    and "stored_cm (w_cluster w) (output_key p stage) = None"
    and "outputs_kept (output_at stored_cm (w_cluster w) (p_ns p)) p"
    and "output_at stored_cm (w_cluster w) (p_ns p) (outputConfigMapName (p_name p) (sp_Name (p_stages p ! i))) = Some out"
    and "sp_Prompt stage = pre @ ''{{.PreviousOutput}}'' @ post" and "plain (pre @ ''{'')" and "plain post"
  shows "w_calls (snd (Reconcile R w k)) = w_calls w @ [run_request p stage (pre @ out @ post)]"
proof -
  let ?pc = "stage_context (output_at stored_cm (w_cluster w) (p_ns p)) p (Suc i)"
  note wk = working_on_facts [OF assms(8,7)]
  have "visible (cur_status p i)" "st_OutputRef (cur_status p i) = outputConfigMapName (p_name p) (sp_Name (p_stages p ! i))"
    using aligned_nth [OF wk(1), of i] wk(2,7)
    by (auto simp: visible_def stage_ok_def phase_ok_def outputConfigMapName_def)
  then have pc: "pc_PreviousOutput ?pc = out" using assms(13) by (simp add: stage_context_def)
  have "RenderPrompt R stage ?pc = Inr (pre @ out @ post)"
    using template_engine.run_PreviousOutput [OF assms(2,15,16), of ?pc] assms(14) pc by (simp add: RenderPrompt_def Let_def)
  then show ?thesis
    using k8s_reliable.Reconcile_calls [OF assms(1,3-6,8-12)] by simp
qed

theorem previous_output_reaches_agent_witness:
  "w_calls (snd (Reconcile (mem_env 100 (flaky_run 0)) (demo_world half_cluster 0) demo_key)) =
     [run_request half_way (demo_stage ''fix'' [''scan''] ''fix {{.PreviousOutput}}'') (''fix '' @ ''found'' @ '''')]"
proof -
  have t: "template_engine (tmpl_Run (mem_env 100 (flaky_run 0)))"
    using frag.template_engine_axioms by (simp add: mem_env_def)
  show ?thesis
    using previous_output_reaches_agent [OF mem_reliable t _ _ _ _ _ half_way_working [unfolded One_nat_def]
        half_way_pending(2) [unfolded One_nat_def] half_way_pending(1), of "demo_world half_cluster 0" demo_key "''found''" "''fix ''" "''''"]
      half_way_kept half_cluster_outputs
    by (simp add: half_way_pending output_at_def outputConfigMapName_def demo_stage_def demo_world_def half_way_view HasPrefix_def)
qed

text \<open>
  C32. The name of an output ConfigMap determines the stage within a pipeline and the pipeline
  for a stage name, but not both: two pipelines of one namespace can share an output.
\<close>

theorem outputConfigMapName_collisions:
  "(outputConfigMapName p s = outputConfigMapName p s' \<longleftrightarrow> s = s') \<and>
   (outputConfigMapName p s = outputConfigMapName p' s \<longleftrightarrow> p = p') \<and>
   outputConfigMapName (p @ ''-stage-'' @ s) s' = outputConfigMapName p (s @ ''-stage-'' @ s')"
  by (simp add: outputConfigMapName_def)

text \<open>
  C30. \<open>FindCurrentStage\<close> is the first stage status that is neither Completed nor
  Skipped, paired with the spec at the same position; if the spec has no such position, the code
  panics.
\<close>

theorem FindCurrentStage_is_first_unfinished:
  "FindCurrentStage p = (case find (\<lambda>i. \<not> stage_done (p_statuses p ! i)) [0..<length (p_statuses p)] of
     None \<Rightarrow> Inr None
   | Some i \<Rightarrow> if i < length (p_stages p) then Inr (Some (p_stages p ! i, i)) else Inl ''index out of range'')"
  by (simp add: FindCurrentStage_def find_current_loop_eq split: option.split)

text \<open>
  C31. The dependencies of a stage are met exactly when each of them names a stage whose status
  is Completed; a skipped stage does not count, and neither does a name that no status has.
\<close>

theorem AreDependenciesMet_all_completed:
  "AreDependenciesMet p stage \<longleftrightarrow>
     set (sp_DependsOn stage) \<subseteq> st_Name ` {ss \<in> set (p_statuses p). st_Phase ss = StageCompleted}"
  by (auto simp: AreDependenciesMet_iff)

end
