(* ===== verification/Pass_Outcomes.thy ===== *)
theory Pass_Outcomes
  imports Stage_Context
begin

text \<open>
  What a single pass answers and does in each situation: a stage whose output is already stored,
  a failed stage, a stage whose dependencies can never be met, a pipeline that is finished,
  being deleted or not yet protected by the finalizer, and the one situation in which the code
  panics. The lemmas follow the handlers; the properties are stated of \<open>Reconcile\<close>.
\<close>

section \<open>Handlers that cannot panic\<close>

definition returns :: "outcome \<times> 'w \<Rightarrow> bool" where
  "returns xw \<longleftrightarrow> (case fst xw of Ret r e \<Rightarrow> True | Panic m \<Rightarrow> False)"

lemma returns_Ret [simp]: "returns (Ret r e, w)" "\<not> returns (Panic m, w)"
  by (simp_all add: returns_def)

lemma status_update_returns:
  "returns (case do_StatusUpdate R w q of (Inl e, v) \<Rightarrow> (ret_err (f e) e, v) | (Inr y, v) \<Rightarrow> (Ret g None, h v))"
  by (simp add: ret_err_def split: prod.splits sum.splits)

lemma pipeline_end_returns: "returns (completePipeline R w p)" "returns (failPipeline R w p m)"
  unfolding completePipeline_def failPipeline_def metav1_Now_def set_ready_eq Let_def prod.case
  by (rule status_update_returns)+

lemma stage_end_returns:
  "returns (failStage R w p i m)" "returns (completeStageFromOutput R w p stage i out)"
  "returns (retryStage R w p stage i rp)"
  unfolding failStage_def completeStageFromOutput_def retryStage_def metav1_Now_def Let_def prod.case
  by (rule status_update_returns)+

lemma completeStage_returns: "returns (completeStage R w p stage i res)"
  by (simp add: completeStage_def metav1_Now_def Let_def ret_err_def split: prod.splits sum.splits)

lemma finish_run_returns: "returns (finish_run R w p stage i x)"
  by (simp add: finish_run_def stage_end_returns completeStage_returns split: sum.splits)

lemma startStage_returns: "returns (startStage R w p stage i)"
  by (simp add: startStage_def stage_end_returns finish_run_returns Let_def split: prod.splits sum.splits)

lemma handlePending_returns: "returns (handlePending R w p)"
proof (cases "length (p_stages p) = 0")
  case True
  then show ?thesis by (simp add: handlePending_def ret_err_def pipeline_end_returns split: prod.splits sum.splits)
next
  case False
  then show ?thesis
    by (simp add: handlePending_def ret_err_def metav1_Now_def set_ready_eq Let_def split: prod.splits sum.splits)
qed

lemma handleDeletion_returns: "returns (handleDeletion R w p)"
  by (simp add: handleDeletion_def ret_err_def split: prod.splits sum.splits)

lemma handleRunning_returns:
  "returns (handleRunning R w p) \<longleftrightarrow> (\<forall>m. FindCurrentStage p \<noteq> Inl m)"
  by (auto simp: handleRunning_def startStage_returns stage_end_returns pipeline_end_returns Let_def
      split: sum.splits option.splits)

lemma FindCurrentStage_panics:
  "(\<exists>m. FindCurrentStage p = Inl m) \<longleftrightarrow>
   (\<exists>j<length (p_statuses p). length (p_stages p) \<le> j \<and> \<not> stage_done (p_statuses p ! j)
      \<and> (\<forall>i<j. stage_done (p_statuses p ! i)))"
  by (auto simp: FindCurrentStage_def find_current_loop_eq find_Some_iff find_None_iff split: option.splits)

text \<open>
  A pass that reads an output of its pending stage: whatever the API server answers otherwise, the
  stage is completed from the output, unless the status update is refused.
\<close>

context k8s_cluster
begin

lemma Reconcile_reuses:
  assumes g: "client_Get R (w_cluster w) k = (Inr p, c)" and al: "alive p"
    and wk: "working_on p stage i" "st_Phase (cur_status p i) = StagePending"
    and cm: "fst (client_GetConfigMap R c (output_key p stage)) = Inr cm"
    and r: "Reconcile R w k = (x, w')"
  shows "w_calls w' = w_calls w \<and> w_runner w' = w_runner w \<and> stored_cm (w_cluster w') = stored_cm (w_cluster w) \<and>
    (x = Ret requeue_now None \<and> stored (w_cluster w) k = Some p \<and>
       (\<exists>p' t. stored (w_cluster w') = (stored (w_cluster w))(k \<mapsto> p') \<and> ap_Spec p' = ap_Spec p \<and>
         ap_Status p' = (ap_Status p)\<lparr>sts_Stages := (p_statuses p)[i := (cur_status p i)\<lparr>st_Phase := StageCompleted,
           st_CompletedAt := Some t, st_Output := truncateOutput (cm_output cm),
           st_OutputRef := outputConfigMapName (p_name p) (sp_Name stage)\<rparr>]\<rparr>) \<or>
     (\<exists>e. x = Ret no_requeue (Some e)) \<and> stored (w_cluster w') = stored (w_cluster w))"
proof -
  let ?v = "w\<lparr>w_cluster := c\<rparr>"
  have get: "do_Get R w k = (Inr p, ?v)" using g by (simp add: do_Get_def)
  note sn = Get_found [OF g] and fr = Get_frame [OF g]
  have key: "p_key p = k" using sn by (rule snapshot_key)
  obtain u where u: "readConfigMapOutput R ?v (p_ns p) (outputConfigMapName (p_name p) (sp_Name stage)) = (Inr (cm_output cm), u)"
    using cm by (simp add: readConfigMapOutput_def do_GetConfigMap_def case_prod_beta)
  note keep = readConfigMapOutput_cases(1,2) [OF u] and run = readConfigMapOutput_same_run [OF u, unfolded same_run_def]
  have "Reconcile R w k = startStage R ?v p stage i"
    using get al wk by (simp add: Reconcile_def working_on_def handleRunning_def Let_def)
  then have eq: "completeStageFromOutput R u p stage i (cm_output cm) = (x, w')" using r u by (simp add: startStage_def)
  define t where "t = wall_clock R (w_clock u)"
  let ?q = "set_stage i (\<lambda>s. s\<lparr>st_Phase := StageCompleted, st_CompletedAt := Some t,
               st_Output := truncateOutput (cm_output cm),
               st_OutputRef := outputConfigMapName (p_name p) (sp_Name stage)\<rparr>) p"
  obtain y d where y: "client_StatusUpdate R (w_cluster u) ?q = (y, d)" by fastforce
  have du: "do_StatusUpdate R (u\<lparr>w_clock := Suc (w_clock u)\<rparr>) ?q = (y, u\<lparr>w_clock := Suc (w_clock u), w_cluster := d\<rparr>)"
    using y by (simp add: do_StatusUpdate_def)
  show ?thesis
  proof (cases y)
    case (Inl e)
    have "x = ret_err (''recovering stage '' @ quote (print_table R) (sp_Name stage) @ '' to Completed'') e"
      "w' = u\<lparr>w_clock := Suc (w_clock u), w_cluster := d\<rparr>"
      using eq du Inl by (simp_all add: completeStageFromOutput_def metav1_Now_def t_def [symmetric])
    then show ?thesis using StatusUpdate_err [OF y [unfolded Inl]] keep run fr by (simp add: ret_err_def)
  next
    case (Inr p')
    have x: "x = Ret requeue_now None" "w_cluster w' = d" "w_calls w' = w_calls u" "w_runner w' = w_runner u"
      using eq du Inr by (auto simp: completeStageFromOutput_def metav1_Now_def t_def [symmetric])
    have "p_key ?q = k" "ap_Meta ?q = ap_Meta p" "ap_Status ?q = (ap_Status p)\<lparr>sts_Stages := (p_statuses p)[i := (cur_status p i)\<lparr>st_Phase := StageCompleted,
           st_CompletedAt := Some t, st_Output := truncateOutput (cm_output cm),
           st_OutputRef := outputConfigMapName (p_name p) (sp_Name stage)\<rparr>]\<rparr>"
      using key by (simp_all add: ap_Status_set_stage)
    with StatusUpdate_ok [OF y [unfolded Inr]] obtain q where
      q: "stored (w_cluster u) k = Some q" "om_ResourceVersion (ap_Meta q) = om_ResourceVersion (ap_Meta p)"
        "ap_Spec p' = ap_Spec q" "ap_Status p' = ap_Status ?q" "stored d = (stored (w_cluster u))(k \<mapsto> p')"
        "stored_cm d = stored_cm (w_cluster u)" by auto
    have "q = p" using snapshotD [OF sn] q(1,2) keep fr by simp
    then show ?thesis using x q keep run fr by (auto simp: ap_Status_set_stage)
  qed
qed

end

section \<open>A running pipeline in good order\<close>

context k8s_reliable
begin

lemma Reconcile_runs:
  assumes "up (w_cluster w)" and "stored (w_cluster w) k = Some p" and "alive p" and "p_phase p = PhaseRunning"
  obtains v where "Reconcile R w k = handleRunning R v p" "up (w_cluster v)"
    "stored (w_cluster v) = stored (w_cluster w)" "stored_cm (w_cluster v) = stored_cm (w_cluster w)" "same_run w v"
proof -
  obtain v where v: "do_Get R w k = (Inr p, v)" "up (w_cluster v)" "stored (w_cluster v) = stored (w_cluster w)"
    "stored_cm (w_cluster v) = stored_cm (w_cluster w)" "same_run w v" by (rule Get_up [OF assms(1,2)])
  have "Reconcile R w k = handleRunning R v p" using assms(3,4) v(1) by (simp add: Reconcile_def)
  then show thesis using that v by blast
qed

lemma output_read_up:
  assumes "client_Get R (w_cluster w) k = (Inr p, c)" and "up (w_cluster w)" and "stored (w_cluster w) k = Some p"
  shows "case stored_cm (w_cluster w) j of
      None \<Rightarrow> isl (fst (client_GetConfigMap R c j)) | Some cm \<Rightarrow> fst (client_GetConfigMap R c j) = Inr cm"
proof -
  have c: "up c" "stored_cm c = stored_cm (w_cluster w)" using up_Get [OF assms(2,3)] assms(1) Get_frame [OF assms(1)] by auto
  obtain x c' where x: "client_GetConfigMap R c j = (x, c')" by fastforce
  show ?thesis using up_GetConfigMap [OF c(1) x] c(2) x by (auto split: option.splits)
qed

lemma Reconcile_recovers:
  assumes up: "up (w_cluster w)" and st: "stored (w_cluster w) k = Some p" and k: "p_key p = k" and al: "alive p"
    and wk: "working_on p stage i" "st_Phase (cur_status p i) = StagePending"
    and cm: "stored_cm (w_cluster w) (output_key p stage) = Some cm"
    and r: "Reconcile R w k = (x, w')"
  shows "x = Ret requeue_now None" "w_calls w' = w_calls w" "w_runner w' = w_runner w"
    "stored_cm (w_cluster w') = stored_cm (w_cluster w)"
    "\<exists>p' t. stored (w_cluster w') = (stored (w_cluster w))(k \<mapsto> p') \<and> ap_Spec p' = ap_Spec p \<and>
       ap_Status p' = (ap_Status p)\<lparr>sts_Stages := (p_statuses p)[i := (cur_status p i)\<lparr>st_Phase := StageCompleted,
         st_CompletedAt := Some t, st_Output := truncateOutput (cm_output cm),
         st_OutputRef := outputConfigMapName (p_name p) (sp_Name stage)\<rparr>]\<rparr>"
proof -
  obtain v where v: "Reconcile R w k = startStage R v p stage i" "up (w_cluster v)"
    "stored (w_cluster v) = stored (w_cluster w)" "stored_cm (w_cluster v) = stored_cm (w_cluster w)" "same_run w v"
    by (rule Reconcile_starts [OF up st al wk])
  obtain y u where y: "readConfigMapOutput R v (p_ns p) (outputConfigMapName (p_name p) (sp_Name stage)) = (y, u)"
    by fastforce
  have "y = Inr (cm_output cm)" using readConfigMapOutput_reliable [OF v(2) y] cm v(4) by (simp add: output_at_def)
  then have eq: "completeStageFromOutput R u p stage i (cm_output cm) = (x, w')" using r v(1) y by (simp add: startStage_def)
  have u: "up (w_cluster u)" "stored (w_cluster u) = stored (w_cluster w)"
    "stored_cm (w_cluster u) = stored_cm (w_cluster w)" "w_calls u = w_calls w" "w_runner u = w_runner w"
    using readConfigMapOutput_up [OF v(2) y] readConfigMapOutput_cases(1,2) [OF y] readConfigMapOutput_same_run [OF y] v
    by (simp_all add: same_run_def)
  have stu: "stored (w_cluster u) k = Some p" using st u(2) by simp
  define S where "S = (\<lambda>s. \<exists>t. s = (ap_Status p)\<lparr>sts_Stages := (p_statuses p)[i := (cur_status p i)\<lparr>st_Phase := StageCompleted,
         st_CompletedAt := Some t, st_Output := truncateOutput (cm_output cm),
         st_OutputRef := outputConfigMapName (p_name p) (sp_Name stage)\<rparr>]\<rparr>)"
  have S: "S (ap_Status (set_stage i (\<lambda>s. s\<lparr>st_Phase := StageCompleted, st_CompletedAt := Some t,
               st_Output := truncateOutput (cm_output cm),
               st_OutputRef := outputConfigMapName (p_name p) (sp_Name stage)\<rparr>) p))" for t
    by (auto simp: S_def ap_Status_set_stage)
  note move = completeStageFromOutput_up [where S = S, OF eq u(1) stu refl k S conjunct1 [OF up_valid [OF up st]]]
    and eff = completeStageFromOutput_effect [where S = S, OF eq snapshot_stored [of "stored (w_cluster u)", OF stu k] refl k S]
  show "x = Ret requeue_now None" by (rule move(3))
  show "w_calls w' = w_calls w" "stored_cm (w_cluster w') = stored_cm (w_cluster w)" using eff(2,3) u by simp_all
  show "w_runner w' = w_runner w"
    using eq u(5) by (auto simp: completeStageFromOutput_def do_StatusUpdate_def metav1_Now_def Let_def
        split: prod.splits sum.splits)
  show "\<exists>p' t. stored (w_cluster w') = (stored (w_cluster w))(k \<mapsto> p') \<and> ap_Spec p' = ap_Spec p \<and>
       ap_Status p' = (ap_Status p)\<lparr>sts_Stages := (p_statuses p)[i := (cur_status p i)\<lparr>st_Phase := StageCompleted,
         st_CompletedAt := Some t, st_Output := truncateOutput (cm_output cm),
         st_OutputRef := outputConfigMapName (p_name p) (sp_Name stage)\<rparr>]\<rparr>"
    using move(1) u(2) by (fastforce simp: moved_def S_def carries_def)
qed

lemma Reconcile_failed_stage:
  assumes up: "up (w_cluster w)" and st: "stored (w_cluster w) k = Some p" and k: "p_key p = k" and al: "alive p"
    and wk: "working_on p stage i" "st_Phase (cur_status p i) = StageFailed"
    and r: "Reconcile R w k = (x, w')" and rep: "\<not> unreportable (print_table R) p"
  shows "quiet stored_cm w w' \<and> (\<exists>p'. stored (w_cluster w') = (stored (w_cluster w))(k \<mapsto> p') \<and>
     (if retries_left p stage i
      then x = Ret (requeue_after (case rp_Backoff (GetEffectiveRetryPolicy p stage) of None \<Rightarrow> 30 * Second | Some d \<Rightarrow> d)) None
        \<and> p_phase p' = PhaseRunning \<and> p_statuses p' = (p_statuses p)[i := (cur_status p i)\<lparr>
            st_RetryCount := st_RetryCount (cur_status p i) + 1, st_Phase := StagePending, st_Error := '''', st_CompletedAt := None\<rparr>]
        \<and> sint (st_RetryCount (cur_status p' i)) = sint (st_RetryCount (cur_status p i)) + 1
      else x = Ret no_requeue None \<and> p_phase p' = PhaseFailed \<and> p_statuses p' = p_statuses p \<and>
        ready_is (sts_Conditions (ap_Status p')) ''False'' ''PipelineFailed'' (failure_text (print_table R) stage (cur_status p i))))"
proof -
  have ph: "p_phase p = PhaseRunning" and cur: "FindCurrentStage p = Inr (Some (stage, i))" "AreDependenciesMet p stage"
    using wk(1) by (simp_all add: working_on_def)
  have len: "i < length (p_statuses p)" using FindCurrentStage_SomeD(1) [OF cur(1)] .
  obtain v where v: "Reconcile R w k = handleRunning R v p" "up (w_cluster v)"
    "stored (w_cluster v) = stored (w_cluster w)" "stored_cm (w_cluster v) = stored_cm (w_cluster w)" "same_run w v"
    by (rule Reconcile_runs [OF up st al ph])
  have stv: "stored (w_cluster v) k = Some p" using st v(3) by simp
  note sn = snapshot_stored [of "stored (w_cluster v)", OF stv k]
  have q: "quiet stored_cm v w' \<Longrightarrow> quiet stored_cm w w'" using v(4,5) by (simp add: quiet_def same_run_def)
  show ?thesis
  proof (cases "retries_left p stage i")
    case True
    then have eq: "retryStage R v p stage i (GetEffectiveRetryPolicy p stage) = (x, w')"
      using r v(1) wk cur by (simp add: handleRunning_def Let_def retries_left_def)
    define S where "S = (\<lambda>s :: AgentPipelineStatus. sts_Phase s = PhaseRunning \<and> sts_Stages s = (p_statuses p)[i := (cur_status p i)\<lparr>
        st_RetryCount := st_RetryCount (cur_status p i) + 1, st_Phase := StagePending, st_Error := '''', st_CompletedAt := None\<rparr>])"
    have S: "S (ap_Status (set_stage i (\<lambda>s. s\<lparr>st_RetryCount := st_RetryCount s + 1, st_Phase := StagePending,
               st_Error := '''', st_CompletedAt := None\<rparr>) p))" using ph by (simp add: S_def ap_Status_set_stage)
    have "quiet stored_cm v w'" using retryStage_effect(2,3) [where S = S, OF eq sn refl k S] by (simp add: quiet_def)
    moreover have "sint (st_RetryCount (cur_status p i) + 1) = sint (st_RetryCount (cur_status p i)) + 1"
      using True unfolding retries_left_def by (rule sint_less_add_one)
    ultimately show ?thesis
      using retryStage_up [where S = S, OF eq v(2) stv refl k S conjunct1 [OF up_valid [OF up st]]] q v(3) True len
      by (auto simp: moved_def S_def carries_def)
  next
    case False
    let ?m = "failure_text (print_table R) stage (cur_status p i)"
    have eq: "failPipeline R v p ?m = (x, w')"
      using False r v(1) wk cur by (simp add: handleRunning_def Let_def retries_left_def failure_text_def)
    have fits: "message_fits ?m" using rep unreportable_working [OF wk(1)] wk(2) False by simp
    define S where "S = (\<lambda>s :: AgentPipelineStatus. sts_Phase s = PhaseFailed \<and> sts_Stages s = p_statuses p \<and>
      ready_is (sts_Conditions s) ''False'' ''PipelineFailed'' ?m)"
    have S: "sets_ready p cs ''False'' ''PipelineFailed'' ?m \<Longrightarrow>
      S ((ap_Status p)\<lparr>sts_Phase := PhaseFailed, sts_CompletedAt := Some t, sts_Conditions := cs\<rparr>)" for t cs
      by (simp add: S_def sets_ready_is)
    have "quiet stored_cm v w'" using failPipeline_effect(2,3) [where S = S, OF eq sn refl k S] by (simp add: quiet_def)
    then show ?thesis
      using failPipeline_up [where S = S, OF eq v(2) stv refl k S conjunct1 [OF up_valid [OF up st]] fits] q v(3) False
      by (auto simp: moved_def S_def carries_def)
  qed
qed

end

section \<open>A stage that waits for its dependencies\<close>

lemma in_order_later:
  "in_order xs \<Longrightarrow> i \<le> j \<Longrightarrow> j < length xs \<Longrightarrow> st_Phase (xs ! i) \<noteq> StageCompleted \<Longrightarrow> st_Phase (xs ! j) \<noteq> StageCompleted"
proof (induction xs arbitrary: i j)
  case (Cons x xs)
  show ?case
  proof (cases j)
    case 0
    then show ?thesis using Cons.prems by simp
  next
    case (Suc l)
    show ?thesis
    proof (cases "st_Phase x = StageCompleted")
      case True
      then obtain h where "i = Suc h" using Cons.prems(4) by (cases i) auto
      then show ?thesis using Cons.IH [of h l] Cons.prems True Suc by simp
    next
      case False
      then have "untouched (xs ! l)" using Cons.prems(1,3) Suc by (simp add: list_all_length)
      then show ?thesis using Suc untouched_phase by fastforce
    qed
  qed
qed simp

text \<open>A dependency that no earlier stage has as its name is not met while the stage is the current one.\<close>

lemma later_dependency_unmet:
  assumes wf: "wf_pipeline p" and ph: "p_phase p = PhaseRunning" and cur: "FindCurrentStage p = Inr (Some (stage, i))"
    and d: "d \<in> set (sp_DependsOn stage)" "d \<notin> sp_Name ` set (take i (p_stages p))"
  shows "\<not> AreDependenciesMet p stage"
proof
  assume "AreDependenciesMet p stage"
  then obtain j where j: "j < length (p_statuses p)" "st_Name (cur_status p j) = d" "st_Phase (cur_status p j) = StageCompleted"
    using d(1) unfolding AreDependenciesMet_iff by (metis in_set_conv_nth)
  note c = FindCurrentStage_SomeD [OF cur] and al = wf_running [OF ph wf]
  have "in_order (p_statuses p)" "st_Phase (cur_status p i) \<noteq> StageCompleted"
    using al c(4) by (simp_all add: aligned_def stage_done_def)
  then have "j < i" using in_order_later [of "p_statuses p" i j] j by (meson leI)
  moreover have "sp_Name (p_stages p ! j) = d"
    using aligned_nth [OF al, of j] j aligned_lengths [OF al] by (simp add: stage_ok_def)
  ultimately show False using d(2) c(2) by (force simp: in_set_conv_nth)
qed

definition waits :: "AgentPipeline \<Rightarrow> bool" where
  "waits p \<longleftrightarrow> p_phase p = PhaseRunning \<and> (case FindCurrentStage p of
     Inr (Some (stage, i)) \<Rightarrow> \<not> AreDependenciesMet p stage | _ \<Rightarrow> False)"

context k8s_reliable
begin

lemma Reconcile_waits:
  assumes up: "up (w_cluster w)" and st: "stored (w_cluster w) k = Some p" and al: "alive p" and wt: "waits p"
  obtains v where "Reconcile R w k = (Ret (requeue_after requeueDelay) None, v)" "up (w_cluster v)"
    "stored (w_cluster v) = stored (w_cluster w)" "stored_cm (w_cluster v) = stored_cm (w_cluster w)" "same_run w v"
proof -
  have ph: "p_phase p = PhaseRunning" using wt by (simp add: waits_def)
  obtain v where v: "Reconcile R w k = handleRunning R v p" "up (w_cluster v)"
    "stored (w_cluster v) = stored (w_cluster w)" "stored_cm (w_cluster v) = stored_cm (w_cluster w)" "same_run w v"
    by (rule Reconcile_runs [OF up st al ph])
  have "handleRunning R v p = (Ret (requeue_after requeueDelay) None, v)"
    using wt by (auto simp: waits_def handleRunning_def split: sum.splits option.splits)
  then show thesis using that v by simp
qed

lemma passes_wait:
  assumes "alive p" and "waits p"
  shows "up (w_cluster w) \<Longrightarrow> stored (w_cluster w) k = Some p \<Longrightarrow>
   up (w_cluster (passes R w (replicate n k))) \<and>
   stored (w_cluster (passes R w (replicate n k))) = stored (w_cluster w) \<and>
   stored_cm (w_cluster (passes R w (replicate n k))) = stored_cm (w_cluster w) \<and> same_run w (passes R w (replicate n k))"
proof (induction n arbitrary: w)
  case (Suc n)
  obtain v where v: "Reconcile R w k = (Ret (requeue_after requeueDelay) None, v)" "up (w_cluster v)"
    "stored (w_cluster v) = stored (w_cluster w)" "stored_cm (w_cluster v) = stored_cm (w_cluster w)" "same_run w v"
    by (rule Reconcile_waits [OF Suc.prems assms])
  have "up (w_cluster (passes R v (replicate n k))) \<and>
   stored (w_cluster (passes R v (replicate n k))) = stored (w_cluster v) \<and>
   stored_cm (w_cluster (passes R v (replicate n k))) = stored_cm (w_cluster v) \<and> same_run v (passes R v (replicate n k))"
    using Suc.IH [of v] v Suc.prems by simp
  then show ?case using v same_run_trans by auto
qed simp

end

section \<open>Deletion and the finalizer\<close>

context k8s_reliable
begin

lemma Reconcile_deletes:
  assumes up: "up (w_cluster w)" and st: "stored (w_cluster w) k = Some p" and k: "p_key p = k" and dying: "\<not> alive p"
    and r: "Reconcile R w k = (x, w')"
  shows "x = Ret no_requeue None" "quiet stored_cm w w'" "w_events w' = w_events w"
    "if has_finalizer p then removes_finalizer (stored (w_cluster w)) (stored (w_cluster w')) k p
     else stored (w_cluster w') = stored (w_cluster w)"
proof -
  obtain v where v: "do_Get R w k = (Inr p, v)" "up (w_cluster v)" "stored (w_cluster v) = stored (w_cluster w)"
    "stored_cm (w_cluster v) = stored_cm (w_cluster w)" "same_run w v" by (rule Get_up [OF up st])
  show "quiet stored_cm w w'" "w_events w' = w_events w" by (rule Reconcile_deletion [OF r v(1) dying])+
  have eq: "handleDeletion R v p = (x, w')" using r v(1) dying by (simp add: Reconcile_def)
  have "x = Ret no_requeue None \<and> (if has_finalizer p then removes_finalizer (stored (w_cluster w)) (stored (w_cluster w')) k p
     else stored (w_cluster w') = stored (w_cluster w))"
  proof (cases "has_finalizer p")
    case False
    then show ?thesis using eq v(3) by (simp add: handleDeletion_def ContainsFinalizer has_finalizer_def)
  next
    case True
    obtain fs where fs: "ctl_RemoveFinalizer R p finalizerName = p\<lparr>ap_Meta := (ap_Meta p)\<lparr>om_Finalizers := fs\<rparr>\<rparr>"
      "set fs = set (om_Finalizers (ap_Meta p)) - {finalizerName}" using RemoveFinalizer by blast
    let ?q = "p\<lparr>ap_Meta := (ap_Meta p)\<lparr>om_Finalizers := fs\<rparr>\<rparr>"
    have kq: "p_key ?q = k" using k by (simp add: p_key_def)
    obtain p' c where c: "client_Update R (w_cluster v) ?q = (Inr p', c)" "up c"
      using up_Update [OF v(2), of ?q p] st v(3) kq by auto
    have w': "w' = v\<lparr>w_cluster := c\<rparr>" and x: "x = Ret no_requeue None"
      using eq True fs(1) c by (auto simp: handleDeletion_def do_Update_def ContainsFinalizer has_finalizer_def)
    have "om_DeletionTimestamp (ap_Meta p) \<noteq> None" using dying by (metis Time_IsZero_None)
    moreover have "fs = [] \<longleftrightarrow> set (om_Finalizers (ap_Meta p)) = {finalizerName}"
      using fs(2) True by (auto simp: has_finalizer_def simp flip: set_empty)
    moreover have "snapshot (stored (w_cluster v)) k p" using st v(3) k by (simp add: snapshot_stored)
    ultimately have "removes_finalizer (stored (w_cluster v)) (stored (w_cluster w')) k p"
      using snapshot_Update [OF c(1)] w' fs(2) True by (auto simp: removes_finalizer_def has_finalizer_def)
    then show ?thesis using x True v(3) by simp
  qed
  then show "x = Ret no_requeue None"
    "if has_finalizer p then removes_finalizer (stored (w_cluster w)) (stored (w_cluster w')) k p
     else stored (w_cluster w') = stored (w_cluster w)" by blast+
qed

end

context k8s_cluster
begin

lemma Reconcile_unprotected:
  assumes "Reconcile R w k = (x, w')" and g: "do_Get R w k = (Inr p, v)" and "alive p" and "fresh p" and "\<not> has_finalizer p"
  shows "stored (w_cluster w') = stored (w_cluster w) \<or>
      adds_finalizer (stored (w_cluster w)) (stored (w_cluster w')) k p" "quiet stored_cm w w'" "w_events w' = w_events w"
proof -
  note get = do_Get_cases [OF g]
  obtain y u where y: "do_Update R v (ctl_AddFinalizer R p finalizerName) = (y, u)" by fastforce
  have w': "w' = u"
    using assms y by (auto simp: Reconcile_def fresh_def handlePending_def ContainsFinalizer has_finalizer_def split: sum.splits)
  have "snapshot (stored (w_cluster v)) k p" using get(1,4) by simp
  note eff = add_finalizer_effect [OF y this assms(5) [unfolded has_finalizer_def] assms(4) [unfolded fresh_def]]
  then show "stored (w_cluster w') = stored (w_cluster w) \<or>
      adds_finalizer (stored (w_cluster w)) (stored (w_cluster w')) k p" "quiet stored_cm w w'"
    using get(1-3) w' by (simp_all add: quiet_def same_run_def)
  show "w_events w' = w_events w"
    using y get(3) w' by (auto simp: do_Update_def same_run_def split: prod.splits)
qed

end

section \<open>Finished pipelines\<close>

lemma terminal_stuck: "terminal p \<Longrightarrow> \<not> astep ms (abs_pipeline p) b"
  by (auto simp: terminal_def abs_pipeline_def fresh_def)

context k8s_cluster
begin

lemma passes_terminal:
  "stored (w_cluster w) j = Some p \<Longrightarrow> wf_pipeline p \<Longrightarrow> terminal p \<Longrightarrow>
   stored (w_cluster (passes R w ks)) j = Some p' \<Longrightarrow> ap_Status p' = ap_Status p"
proof (induction ks arbitrary: w p)
  case (Cons k ks)
  obtain x v where v: "Reconcile R w k = (x, v)" by fastforce
  obtain q where q: "stored (w_cluster v) j = Some q"
    using Cons.prems(4) passes_domain [of v] v by (cases "stored (w_cluster v) j") auto
  have "wf_pipeline q" "ap_Status q = ap_Status p"
    using Reconcile_pointwise [OF v Cons.prems(1,2) q] terminal_stuck [OF Cons.prems(3)] by blast+
  then show ?case using Cons.IH [OF q] Cons.prems(3,4) v by (simp add: terminal_def)
qed simp

end

section \<open>More example pipelines\<close>

text \<open>\<open>half_way\<close> with another status for its second stage, and with another list of stages.\<close>

definition second_is :: "StageStatus \<Rightarrow> AgentPipeline" where
  "second_is ss = half_way\<lparr>ap_Status := (ap_Status half_way)\<lparr>sts_Stages := [done_stage ''scan'' ''found'', ss]\<rparr>\<rparr>"

definition stages_are :: "StageSpec list \<Rightarrow> AgentPipeline" where
  "stages_are xs = half_way\<lparr>ap_Spec := (ap_Spec half_way)\<lparr>spec_Stages := xs\<rparr>\<rparr>"

definition broken_stage :: StageStatus where
  "broken_stage = zero_StageStatus\<lparr>st_Name := ''fix'', st_Phase := StageFailed, st_StartedAt := Some 4,
     st_CompletedAt := Some 5, st_Error := ''boom''\<rparr>"

definition dying_pipeline :: AgentPipeline where
  "dying_pipeline = half_way\<lparr>ap_Meta := (ap_Meta half_way)\<lparr>om_DeletionTimestamp := Some 9\<rparr>\<rparr>"

definition rejected_pipeline :: AgentPipeline where
  "rejected_pipeline = (demo_pipeline [] 0)\<lparr>ap_Status := (ap_Status (demo_pipeline [] 0))\<lparr>sts_Phase := PhaseFailed,
     sts_CompletedAt := Some 1, sts_Conditions := [ready_cond ''False'' ''PipelineFailed'']\<rparr>\<rparr>"

abbreviation fix_stage :: StageSpec where
  "fix_stage \<equiv> demo_stage ''fix'' [''scan''] ''fix {{.PreviousOutput}}''"

abbreviation self_stage :: StageSpec where
  "self_stage \<equiv> demo_stage ''fix'' [''fix''] ''again''"

lemma variants_view:
  "p_phase (second_is ss) = PhaseRunning" "p_stages (second_is ss) = p_stages half_way"
  "p_statuses (second_is ss) = [done_stage ''scan'' ''found'', ss]" "ap_Meta (second_is ss) = ap_Meta half_way"
  "ap_Spec (second_is ss) = ap_Spec half_way"
  "p_phase (stages_are xs) = PhaseRunning" "p_stages (stages_are xs) = xs"
  "p_statuses (stages_are xs) = p_statuses half_way" "ap_Meta (stages_are xs) = ap_Meta half_way"
  "sts_StartedAt (ap_Status (stages_are xs)) = Some 1"
  "sts_Conditions (ap_Status (stages_are xs)) = [ready_cond ''False'' ''PipelineStarted'']"
  "spec_RetryPolicy (ap_Spec (stages_are xs)) = Some \<lparr>rp_MaxRetries = 1, rp_Backoff = None\<rparr>"
  by (simp_all add: second_is_def stages_are_def half_way_view)
    (simp add: half_way_def two_stages_def demo_pipeline_def)

lemma variants_key [simp]:
  "p_key (second_is ss) = demo_key" "p_key (stages_are xs) = demo_key" "p_key dying_pipeline = demo_key"
  "p_key rejected_pipeline = demo_key" "p_key (demo_pipeline xs n) = demo_key"
  using p_key_demo(2)
  by (simp_all add: p_key_def second_is_def stages_are_def dying_pipeline_def rejected_pipeline_def demo_pipeline_def zero_ObjectMeta_def)

lemma variants_alive [simp]: "alive (second_is ss)" "alive (stages_are xs)" "\<not> alive dying_pipeline" "alive rejected_pipeline"
  using half_way_facts(1)
  by (simp_all add: second_is_def stages_are_def dying_pipeline_def rejected_pipeline_def demo_pipeline_def zero_ObjectMeta_def Time_IsZero_def)

lemma variants_valid [simp]:
  "valid_StagePhase (st_Phase ss) \<Longrightarrow> valid_AgentPipelineStatus (ap_Status (second_is ss))"
  "valid_AgentPipelineStatus (ap_Status (stages_are xs))" "valid_AgentPipelineStatus (ap_Status dying_pipeline)"
  "0 \<le> om_Generation (ap_Meta (second_is ss))" "0 \<le> om_Generation (ap_Meta (stages_are xs))"
  "0 \<le> om_Generation (ap_Meta dying_pipeline)"
  using demo_valid(7,8)
  by (simp_all add: second_is_def stages_are_def dying_pipeline_def valid_AgentPipelineStatus_def valid_StageStatus_def done_stage_def)

lemma broken_working: "working_on (second_is broken_stage) fix_stage 1"
  by (simp add: working_on_def FindCurrentStage_def AreDependenciesMet_def variants_view half_way_view done_stage_def
      demo_stage_def zero_StageStatus_def broken_stage_def)

lemma broken_phase: "st_Phase broken_stage = StageFailed"
  by (simp add: broken_stage_def)

lemma self_stage_current:
  "FindCurrentStage (stages_are [demo_stage ''scan'' [] ''find it'', self_stage]) = Inr (Some (self_stage, 1))"
  by (simp add: FindCurrentStage_def variants_view half_way_view done_stage_def zero_StageStatus_def)

lemma self_stage_wf: "wf_pipeline (stages_are [demo_stage ''scan'' [] ''find it'', self_stage])"
proof -
  have "p_name (stages_are xs) = ''p''" for xs by (simp add: variants_view half_way_view)
  then have "aligned (stages_are [demo_stage ''scan'' [] ''find it'', self_stage])"
    by (simp add: aligned_def variants_view half_way_view stage_ok_def phase_ok_def done_stage_def zero_StageStatus_def
        demo_stage_def untouched_def maxStatusOutputLen_def)
  then show ?thesis by (simp add: wf_pipeline_def fresh_def ready_with_def variants_view ready_cond_def)
qed

lemma rejected_wf [simp]: "wf_pipeline rejected_pipeline" "terminal rejected_pipeline"
  by (simp_all add: wf_pipeline_def terminal_def rejected_pipeline_def demo_pipeline_def fresh_def ready_with_def ready_cond_def)

lemma dying_finalizers [simp]: "set (om_Finalizers (ap_Meta dying_pipeline)) = {finalizerName}"
  by (simp add: dying_pipeline_def half_way_def)

section \<open>Properties\<close>

text \<open>
  C7. A pass that finds a pending stage and whose read of the stage's output ConfigMap succeeds
  invokes no agent and touches no ConfigMap, whatever else fails: it completes the stage from what
  it read, so a stage whose status update was lost is not run twice, or it returns an error with
  nothing changed. With the API server in good order, where the read succeeds if the ConfigMap is
  stored, it completes the stage.
\<close>

theorem existing_output_is_reused:
  assumes "k8s_reliable R stored stored_cm up limit"
    and "client_Get R (w_cluster w) k = (Inr p, c)" and "alive p"
    and "working_on p stage i" and "st_Phase (cur_status p i) = StagePending"
    and "fst (client_GetConfigMap R c (output_key p stage)) = Inr cm"
    and "Reconcile R w k = (x, w')"
  shows "w_calls w' = w_calls w \<and> w_runner w' = w_runner w \<and> stored_cm (w_cluster w') = stored_cm (w_cluster w) \<and>
    (x = Ret requeue_now None \<and>
       (\<exists>p' t. stored (w_cluster w') = (stored (w_cluster w))(k \<mapsto> p') \<and> ap_Spec p' = ap_Spec p \<and>
         ap_Status p' = (ap_Status p)\<lparr>sts_Stages := (p_statuses p)[i := (cur_status p i)\<lparr>st_Phase := StageCompleted,
           st_CompletedAt := Some t, st_Output := truncateOutput (cm_output cm),
           st_OutputRef := outputConfigMapName (p_name p) (sp_Name stage)\<rparr>]\<rparr>) \<or>
     (\<exists>e. x = Ret no_requeue (Some e)) \<and> stored (w_cluster w') = stored (w_cluster w)) \<and>
    (up (w_cluster w) \<and> stored (w_cluster w) k = Some p \<longrightarrow> x = Ret requeue_now None)"
proof -
  have cl: "k8s_cluster R stored stored_cm" using assms(1) by (simp add: k8s_reliable_def)
  have key: "p_key p = k" using k8s_cluster.Get_found [OF cl assms(2)] by (rule snapshot_key)
  have good: "stored_cm (w_cluster w) (output_key p stage) = Some cm"
    if "up (w_cluster w)" "stored (w_cluster w) k = Some p"
    using k8s_reliable.output_read_up [OF assms(1,2) that, of "output_key p stage"] assms(6) by (auto split: option.splits)
  note re = k8s_cluster.Reconcile_reuses [OF cl assms(2-7)]
  have "x = Ret requeue_now None" if "up (w_cluster w)" "stored (w_cluster w) k = Some p"
    using k8s_reliable.Reconcile_recovers(1) [OF assms(1) that key assms(3-5) good [OF that] assms(7)] .
  with re show ?thesis by blast
qed

definition recovered_cluster :: mem where
  "recovered_cluster = half_cluster\<lparr>mem_cms := (mem_cms half_cluster)
     (\<lparr>nn_Namespace = ''ns'', nn_Name = ''p-stage-fix''\<rparr> \<mapsto> output_cm ''fix'' ''fixed'')\<rparr>"

lemma recovered_cluster_up [simp]: "mem_up recovered_cluster" "mem_pipes recovered_cluster = mem_pipes half_cluster"
  "mem_cms recovered_cluster \<lparr>nn_Namespace = ''ns'', nn_Name = ''p-stage-fix''\<rparr> = Some (output_cm ''fix'' ''fixed'')"
  by (simp_all add: recovered_cluster_def mem_up_output output_cm_def)

theorem existing_output_is_reused_witness:
  "fst (Reconcile (mem_env 100 (flaky_run 0)) (demo_world recovered_cluster 0) demo_key) = Ret requeue_now None \<and>
   w_calls (snd (Reconcile (mem_env 100 (flaky_run 0)) (demo_world recovered_cluster 0) demo_key)) = []"
proof -
  have "client_Get (mem_env 100 (flaky_run (0::nat))) (w_cluster (demo_world recovered_cluster (0::nat))) demo_key
      = (Inr half_way, recovered_cluster)"
    by (simp add: mem_env_def mem_Get_def demo_world_def)
  from existing_output_is_reused [OF mem_reliable this _ half_way_working half_way_pending(2) _ prod.collapse [symmetric],
      where cm = "output_cm ''fix'' ''fixed''"]
  show ?thesis
    by (simp add: mem_env_def mem_GetConfigMap_def half_way_pending outputConfigMapName_def demo_stage_def) (simp add: demo_world_def)
qed

text \<open>
  C13. A failed stage is retried while its retry count is below the budget: the count grows by
  exactly one, as a 32-bit integer too, the error is cleared and the pass asks to be repeated
  after the backoff (30 seconds if the policy has none). Otherwise the pipeline fails with its
  stage statuses kept and a condition that names the stage, its retries and its error, provided
  that this text fits into a condition. No agent is invoked in either case.
\<close>

theorem failed_stage_retried_or_given_up:
  assumes "k8s_reliable R stored stored_cm up limit" and "up (w_cluster w)"
    and "stored (w_cluster w) k = Some p" and "p_key p = k" and "alive p"
    and "working_on p stage i" and "st_Phase (cur_status p i) = StageFailed"
    and "Reconcile R w k = (x, w')" and "\<not> unreportable (print_table R) p"
  shows "quiet stored_cm w w' \<and> (\<exists>p'. stored (w_cluster w') = (stored (w_cluster w))(k \<mapsto> p') \<and>
     (if retries_left p stage i
      then x = Ret (requeue_after (case rp_Backoff (GetEffectiveRetryPolicy p stage) of None \<Rightarrow> 30 * Second | Some d \<Rightarrow> d)) None
        \<and> p_phase p' = PhaseRunning \<and> p_statuses p' = (p_statuses p)[i := (cur_status p i)\<lparr>
            st_RetryCount := st_RetryCount (cur_status p i) + 1, st_Phase := StagePending, st_Error := '''', st_CompletedAt := None\<rparr>]
        \<and> sint (st_RetryCount (cur_status p' i)) = sint (st_RetryCount (cur_status p i)) + 1
      else x = Ret no_requeue None \<and> p_phase p' = PhaseFailed \<and> p_statuses p' = p_statuses p \<and>
        ready_is (sts_Conditions (ap_Status p')) ''False'' ''PipelineFailed'' (failure_text (print_table R) stage (cur_status p i))))"
  using k8s_reliable.Reconcile_failed_stage [OF assms] .

theorem failed_stage_retried_or_given_up_witness:
  "fst (Reconcile (mem_env 100 (flaky_run 0)) (demo_world (demo_cluster (second_is broken_stage)) 0) demo_key)
     = Ret (requeue_after (30 * Second)) None"
proof -
  have "retries_left (second_is broken_stage) fix_stage 1"
    "rp_Backoff (GetEffectiveRetryPolicy (second_is broken_stage) fix_stage) = None"
    by (simp_all add: retries_left_def GetEffectiveRetryPolicy_def variants_view broken_stage_def zero_StageStatus_def
        demo_stage_def half_way_def two_stages_def demo_pipeline_def)
  moreover from this have "\<not> unreportable tbl (second_is broken_stage)" for tbl
    by (simp add: unreportable_working [OF broken_working])
  ultimately show ?thesis
    using failed_stage_retried_or_given_up [OF mem_reliable _ _ _ _ broken_working _ prod.collapse [symmetric],
        of "demo_world (demo_cluster (second_is broken_stage)) 0" demo_key 100 "flaky_run 0"] broken_phase
    by (auto simp: variants_view)
qed

text \<open>
  C19. A stage that depends on itself, on a later stage or on a name no stage has is never
  started: every pass over the pipeline asks to be repeated after 10 seconds and changes
  nothing, for any number of passes. The code neither rejects such a pipeline nor fails it.
\<close>

theorem unmeetable_dependency_waits_forever:
  assumes "k8s_reliable R stored stored_cm up limit" and "up (w_cluster w)"
    and "stored (w_cluster w) k = Some p" and "alive p" and "wf_pipeline p" and "p_phase p = PhaseRunning"
    and "FindCurrentStage p = Inr (Some (stage, i))"
    and "d \<in> set (sp_DependsOn stage)" and "d \<notin> sp_Name ` set (take i (p_stages p))"
  shows "stored (w_cluster (passes R w (replicate n k))) = stored (w_cluster w) \<and>
    w_calls (passes R w (replicate n k)) = w_calls w \<and> w_events (passes R w (replicate n k)) = w_events w \<and>
    fst (Reconcile R (passes R w (replicate n k)) k) = Ret (requeue_after requeueDelay) None"
proof -
  have "waits p" using later_dependency_unmet [OF assms(5-9)] assms(6,7) by (simp add: waits_def)
  note wt = k8s_reliable.passes_wait [OF assms(1,4) this assms(2,3), of n]
  obtain v where "Reconcile R (passes R w (replicate n k)) k = (Ret (requeue_after requeueDelay) None, v)"
    using k8s_reliable.Reconcile_waits [OF assms(1) _ _ assms(4) \<open>waits p\<close>] wt assms(3) by metis
  then show ?thesis using wt by (simp add: same_run_def)
qed

theorem unmeetable_dependency_waits_forever_witness:
  "\<forall>n. w_calls (passes (mem_env 100 (flaky_run 0))
       (demo_world (demo_cluster (stages_are [demo_stage ''scan'' [] ''find it'', self_stage])) 0) (replicate n demo_key)) = []"
  using unmeetable_dependency_waits_forever [OF mem_reliable [of 100 "flaky_run 0"] _ _ _ self_stage_wf _ self_stage_current,
      where w = "demo_world (demo_cluster (stages_are [demo_stage ''scan'' [] ''find it'', self_stage])) 0" and k = demo_key
        and d = "''fix''"]
  by (simp add: variants_view) (simp add: demo_stage_def demo_world_def)

text \<open>
  C23. The only run-time panic of a pass: the first unfinished stage status of a running
  pipeline has no stage in the spec any more, because the spec was shortened after the
  pipeline started. For a pipeline that satisfies the invariant it cannot happen.
\<close>

theorem Reconcile_panics_iff:
  assumes "do_Get R w k = (Inr p, v)"
  shows "((\<exists>m w'. Reconcile R w k = (Panic m, w')) \<longleftrightarrow>
      alive p \<and> p_phase p = PhaseRunning \<and> (\<exists>j<length (p_statuses p). length (p_stages p) \<le> j \<and>
        \<not> stage_done (p_statuses p ! j) \<and> (\<forall>i<j. stage_done (p_statuses p ! i)))) \<and>
    (wf_pipeline p \<longrightarrow> (\<nexists>m w'. Reconcile R w k = (Panic m, w')))"
proof -
  have ret: "(\<exists>m w'. y = (Panic m, w')) \<longleftrightarrow> \<not> returns y" for y :: "outcome \<times> ('a, 'b) world"
    by (cases y; cases "fst y") auto
  have "returns (Reconcile R w k) \<longleftrightarrow> \<not> (alive p \<and> p_phase p = PhaseRunning \<and> (\<exists>m. FindCurrentStage p = Inl m))"
    using assms handlePending_returns [of R v p] handleDeletion_returns [of R v p] handleRunning_returns [of R v p]
    by (auto simp: Reconcile_def)
  moreover have "\<not> (\<exists>m. FindCurrentStage p = Inl m)" if "wf_pipeline p" "p_phase p = PhaseRunning"
    using FindCurrentStage_no_panic [of p] aligned_lengths [OF wf_running [OF that(2,1)]] by auto
  ultimately show ?thesis unfolding ret FindCurrentStage_panics [symmetric] by blast
qed

theorem Reconcile_panics_iff_witness:
  "\<exists>m w'. Reconcile (mem_env 100 (flaky_run 0)) (demo_world (demo_cluster (stages_are [demo_stage ''scan'' [] ''find it''])) 0) demo_key
     = (Panic m, w')"
proof -
  let ?p = "stages_are [demo_stage ''scan'' [] ''find it'']"
  have g: "do_Get (mem_env 100 (flaky_run 0)) (demo_world (demo_cluster ?p) 0) demo_key = (Inr ?p, demo_world (demo_cluster ?p) 0)"
    by (simp add: do_Get_def mem_env_def mem_Get_def)
  have "\<exists>j<length (p_statuses ?p). length (p_stages ?p) \<le> j \<and>
        \<not> stage_done (p_statuses ?p ! j) \<and> (\<forall>i<j. stage_done (p_statuses ?p ! i))"
    by (rule exI [of _ 1]) (simp add: variants_view half_way_view stage_done_def done_stage_def zero_StageStatus_def)
  then show ?thesis using Reconcile_panics_iff [OF g] by (simp add: variants_view)
qed

text \<open>
  C24. Once a pipeline is Completed or Failed its status never changes again, over any sequence of
  passes over any keys and whatever fails in them.
\<close>

theorem terminal_status_is_final:
  assumes "k8s_cluster R stored stored_cm" and "stored (w_cluster w) j = Some p" and "wf_pipeline p" and "terminal p"
    and "stored (w_cluster (passes R w ks)) j = Some p'"
  shows "ap_Status p' = ap_Status p"
  using k8s_cluster.passes_terminal [OF assms] .

theorem terminal_status_is_final_witness:
  "\<exists>p'. mem_pipes (w_cluster (passes (mem_env 100 (flaky_run 0)) (demo_world (demo_cluster rejected_pipeline) 0) [demo_key])) demo_key
     = Some p' \<and> p_phase p' = PhaseFailed"
proof -
  let ?w = "demo_world (demo_cluster rejected_pipeline) (0::nat)" and ?R = "mem_env 100 (flaky_run 0)"
  obtain p' where p': "mem_pipes (w_cluster (snd (Reconcile ?R ?w demo_key))) demo_key = Some p'"
    by (rule mem_still_stored [of ?w demo_key rejected_pipeline]) simp_all
  then have "ap_Status p' = ap_Status rejected_pipeline"
    using terminal_status_is_final [OF mem_cluster, of ?w demo_key rejected_pipeline 100 "flaky_run 0" "[demo_key]" p'] by simp
  then show ?thesis using p' by (simp add: rejected_pipeline_def)
qed

text \<open>
  C26. A pipeline that is being deleted starts nothing: the pass invokes no agent, records no
  event, leaves the ConfigMaps to the garbage collector and takes the operator's finalizer
  off; if it was the last one, the object is gone.
\<close>

theorem deletion_releases_pipeline:
  assumes "k8s_reliable R stored stored_cm up limit" and "up (w_cluster w)"
    and "stored (w_cluster w) k = Some p" and "p_key p = k" and "\<not> alive p" and "Reconcile R w k = (x, w')"
  shows "x = Ret no_requeue None \<and> quiet stored_cm w w' \<and> w_events w' = w_events w \<and>
    (if set (om_Finalizers (ap_Meta p)) = {finalizerName} then stored (w_cluster w') = (stored (w_cluster w))(k := None)
     else \<exists>p'. stored (w_cluster w') k = Some p' \<and> \<not> has_finalizer p' \<and> ap_Status p' = ap_Status p)"
proof -
  note del = k8s_reliable.Reconcile_deletes [OF assms]
  show ?thesis
  proof (cases "has_finalizer p")
    case True
    then have "removes_finalizer (stored (w_cluster w)) (stored (w_cluster w')) k p" using del(4) by simp
    then show ?thesis using del(1-3)
      by (cases "set (om_Finalizers (ap_Meta p)) = {finalizerName}") (auto simp: removes_finalizer_def has_finalizer_def)
  next
    case False
    then show ?thesis using del assms(3) by (auto simp: has_finalizer_def)
  qed
qed

theorem deletion_releases_pipeline_witness:
  "mem_pipes (w_cluster (snd (Reconcile (mem_env 100 (flaky_run 0)) (demo_world (demo_cluster dying_pipeline) 0) demo_key))) demo_key = None"
  using deletion_releases_pipeline [OF mem_reliable _ _ _ _ prod.collapse [symmetric],
      of "demo_world (demo_cluster dying_pipeline) 0" demo_key dying_pipeline 100 "flaky_run 0"]
  by simp

text \<open>
  C27. Nothing happens to a new pipeline before the finalizer is stored: a pass over one without
  it invokes no agent, records no event and at most adds the finalizer, with the status
  unchanged.
\<close>

theorem finalizer_comes_first:
  assumes "k8s_cluster R stored stored_cm" and "Reconcile R w k = (x, w')" and "do_Get R w k = (Inr p, v)"
    and "alive p" and "fresh p" and "\<not> has_finalizer p"
  shows "quiet stored_cm w w' \<and> w_events w' = w_events w \<and>
    (stored (w_cluster w') = stored (w_cluster w) \<or>
     (\<exists>p'. stored (w_cluster w') = (stored (w_cluster w))(k \<mapsto> p') \<and> has_finalizer p' \<and> ap_Status p' = ap_Status p \<and> ap_Spec p' = ap_Spec p))"
  using k8s_cluster.Reconcile_unprotected [OF assms] by (auto simp: adds_finalizer_def has_finalizer_def)

theorem finalizer_comes_first_witness:
  "w_events (snd (Reconcile (mem_env 100 (flaky_run 0)) (demo_world (demo_cluster two_stages) 0) demo_key)) = []"
proof -
  have g: "do_Get (mem_env 100 (flaky_run 0)) (demo_world (demo_cluster two_stages) 0) demo_key
      = (Inr two_stages, demo_world (demo_cluster two_stages) 0)"
    by (simp add: do_Get_def mem_env_def mem_Get_def)
  have "\<not> has_finalizer two_stages" by (simp add: has_finalizer_def demo_defs)
  from finalizer_comes_first [OF mem_cluster prod.collapse [symmetric] g _ _ this] show ?thesis by (simp add: demo_world_def)
qed

end
