(* ===== verification/Agent_Calls.thy ===== *)
theory Agent_Calls
  imports Pass_Outcomes
begin

text \<open>
  How often agents are invoked. \<open>calls_left\<close> counts the invocations a state of the pipeline
  machine still allows: one for each stage that is not done plus one for each retry it has
  left. With an API server in good order and outputs it can store, every invocation uses up
  at least one, so their number is bounded by the retry policy.
\<close>

section \<open>The invocations a state of the machine allows\<close>

fun stage_calls :: "nat \<Rightarrow> astage \<Rightarrow> nat" where
  "stage_calls m (Todo r) = Suc (m - r)"
| "stage_calls m (Broken r) = m - r"
| "stage_calls m Done = 0"

definition stages_calls :: "nat list \<Rightarrow> astage list \<Rightarrow> nat" where
  "stages_calls ms xs = sum_list (map2 stage_calls ms xs)"

fun calls_left :: "nat list \<Rightarrow> amachine \<Rightarrow> nat" where
  "calls_left ms Fresh = stages_calls ms (replicate (length ms) (Todo 0))"
| "calls_left ms (Active xs) = stages_calls ms xs"
| "calls_left ms Succeeded = 0"
| "calls_left ms GaveUp = 0"

lemma calls_left_Fresh: "calls_left ms Fresh = sum_list (map Suc ms)"
  by (induction ms) (simp_all add: stages_calls_def)

lemma stages_calls_update:
  assumes "i < length xs" and "length ms = length xs"
  shows "stages_calls ms (xs[i := v]) + stage_calls (ms ! i) (xs ! i) = stages_calls ms xs + stage_calls (ms ! i) v"
  using assms
proof (induction xs arbitrary: i ms)
  case (Cons x xs)
  then obtain m ns where "ms = m # ns" by (cases ms) auto
  then show ?case using Cons by (cases i) (auto simp: stages_calls_def add.assoc)
qed simp

lemma front_unique: "front xs i \<Longrightarrow> front xs j \<Longrightarrow> i = j"
  unfolding front_def list_all_length by (metis length_take linorder_cases min_less_iff_conj nth_take)

lemma front_less: "front xs i \<Longrightarrow> i < length xs"
  by (simp add: front_def)

lemma front_not_done: "front xs i \<Longrightarrow> \<not> list_all (\<lambda>x. x = Done) xs"
  by (auto simp: front_def list_all_length)

lemma stages_calls_less:
  assumes "front xs i" and "length ms = length xs" and "stage_calls (ms ! i) v < stage_calls (ms ! i) (xs ! i)"
  shows "stages_calls ms (xs[i := v]) < stages_calls ms xs"
  using stages_calls_update [OF front_less [OF assms(1)] assms(2), of v] assms(3) by linarith

lemma stages_calls_same:
  assumes "front xs i" and "length ms = length xs" and "stage_calls (ms ! i) v = stage_calls (ms ! i) (xs ! i)"
  shows "stages_calls ms (xs[i := v]) = stages_calls ms xs"
  using stages_calls_update [OF front_less [OF assms(1)] assms(2), of v] assms(3) by linarith

text \<open>No step of the machine allows more invocations; the end of an invocation allows fewer.\<close>

lemma astep_calls:
  assumes "astep ms a b" and "fits ms a"
  shows "calls_left ms b \<le> calls_left ms a"
  using assms
proof (induction rule: astep.induct)
  case (a_complete xs i r)
  then show ?case using stages_calls_less [OF a_complete(1), of ms Done] by simp
next
  case (a_fail xs i r)
  then show ?case using stages_calls_less [OF a_fail(1), of ms "Broken r"] by simp
next
  case (a_retry xs i r)
  then show ?case using stages_calls_same [OF a_retry(1), of ms "Todo (Suc r)"] by simp
qed simp_all

lemma astep_Todo_calls:
  assumes "astep ms (Active xs) b" and "length xs = length ms" and f: "front xs i" and "xs ! i = Todo r"
  shows "calls_left ms b < calls_left ms (Active xs)"
  using assms(1)
proof cases
  case (a_complete j r')
  then have "j = i" using front_unique [OF _ f] by blast
  then show ?thesis using a_complete assms stages_calls_less [OF f, of ms Done] by simp
next
  case (a_fail j r')
  then have "j = i" using front_unique [OF _ f] by blast
  then show ?thesis using a_fail assms stages_calls_less [OF f, of ms "Broken r'"] by simp
next
  case (a_retry j r')
  then show ?thesis using front_unique [OF _ f] assms(4) by fastforce
next
  case (a_give_up j r')
  then show ?thesis using front_unique [OF _ f] assms(4) by fastforce
next
  case a_finish
  then show ?thesis using front_not_done [OF f] by blast
qed

section \<open>Passes\<close>

lemma running_works_or_waits:
  assumes wf: "wf_pipeline p" and ph: "p_phase p = PhaseRunning" and "\<not> waits p"
  shows "FindCurrentStage p = Inr None \<or> (\<exists>stage i. working_on p stage i \<and>
        (st_Phase (cur_status p i) = StagePending \<or> st_Phase (cur_status p i) = StageFailed))"
proof (cases "FindCurrentStage p")
  case (Inl e)
  then show ?thesis
    using FindCurrentStage_no_panic [of p e] aligned_lengths [OF wf_running [OF ph wf]] by simp
next
  case (Inr cur)
  show ?thesis
  proof (cases cur)
    case (Some si)
    then obtain stage i where "working_on p stage i"
      using Inr assms(2,3) by (cases si) (auto simp: waits_def working_on_def)
    then show ?thesis using current_phase [OF _ wf] by blast
  qed (use Inr in simp)
qed

context k8s_reliable
begin

text \<open>A pass over a live pipeline, whatever its phase and its dependencies.\<close>

lemma Reconcile_alive:
  assumes r: "Reconcile R w k = (x, w')" and up: "up (w_cluster w)" and st: "stored (w_cluster w) k = Some p"
    and key: "p_key p = k" and al: "alive p" and wf: "wf_pipeline p" and fit: "outputs_fit R limit"
    and ad: "valid_AgentPipelineSpec (ap_Spec p)" "names_fit p"
  obtains (still) "up (w_cluster w')" "stored (w_cluster w') = stored (w_cluster w)" "quiet stored_cm w w'"
  | (moved) "up (w_cluster w')" "moved stored (w_cluster w) (w_cluster w') k p (status_step p)"
  | (finalizer) "up (w_cluster w')" "adds_finalizer (stored (w_cluster w)) (stored (w_cluster w')) k p" "quiet stored_cm w w'"
proof -
  obtain v where v: "do_Get R w k = (Inr p, v)" "up (w_cluster v)" "stored (w_cluster v) = stored (w_cluster w)"
    "stored_cm (w_cluster v) = stored_cm (w_cluster w)" "same_run w v" by (rule Get_up [OF up st])
  have stv: "stored (w_cluster v) k = Some p" using st v(3) by simp
  have mv: "moved stored (w_cluster v) (w_cluster w') k p S = moved stored (w_cluster w) (w_cluster w') k p S" for S
    by (rule moved_eq_left [where st = stored, OF v(3)])
  consider (over) "terminal p" | (wait) "waits p" | (fresh) "fresh p" | (stuck) "unreportable (print_table R) p"
    | (run) "p_phase p = PhaseRunning" "\<not> waits p" "\<not> unreportable (print_table R) p"
    using wf_not_terminal [OF wf] by blast
  then show thesis
  proof cases
    case over
    then have "w' = v" using r v(1) al by (auto simp: Reconcile_def terminal_def)
    then show thesis using still v by (simp add: quiet_def same_run_def)
  next
    case wait
    obtain u where "Reconcile R w k = (Ret (requeue_after requeueDelay) None, u)" "up (w_cluster u)"
      "stored (w_cluster u) = stored (w_cluster w)" "stored_cm (w_cluster u) = stored_cm (w_cluster w)" "same_run w u"
      by (rule Reconcile_waits [OF up st al wait])
    then show thesis using still r by (simp add: quiet_def same_run_def)
  next
    case fresh
    then have eq: "handlePending R v p = (x, w')" and ph: "p_phase p = '''' \<or> p_phase p = PhasePending"
      using r v(1) al by (simp_all add: Reconcile_def fresh_def)
    have "quiet stored_cm w w'"
      using handlePending_effect(2) [OF eq snapshot_stored [of "stored (w_cluster v)", OF stv key] key ph] v(4,5)
      by (simp add: quiet_def same_run_def)
    then show thesis
      using handlePending_up [OF eq v(2) stv key ph] moved finalizer v(3) mv by (simp split: if_splits)
  next
    case stuck
    note un = Reconcile_unreportable [OF r up st key al stuck]
    from un(1) show thesis using still [OF un(3) _ un(2)] moved [OF un(3)] by (auto simp: writes_def moved_def)
  next
    case run
    then have "handleRunning R v p = (x, w')" using r v(1) al by (simp add: Reconcile_def)
    from handleRunning_up [OF this v(2) stv key run(1) running_works_or_waits [OF wf run(1,2)] fit _ run(3)]
    show thesis using moved mv names_fit_valid [OF ad(2,1)] by simp
  qed
qed

end

context k8s_reliable
begin

text \<open>Invocations made so far and invocations still allowed: a pass does not increase their sum.\<close>

lemma Reconcile_calls_left:
  assumes r: "Reconcile R w k = (x, w')" and up: "up (w_cluster w)" and st: "stored (w_cluster w) k = Some p"
    and key: "p_key p = k" and al: "alive p" and wf: "wf_pipeline p" and fit: "outputs_fit R limit"
    and ad: "valid_AgentPipelineSpec (ap_Spec p)" "names_fit p"
  shows "up (w_cluster w') \<and> (\<exists>p'. stored (w_cluster w') k = Some p' \<and> p_key p' = k \<and> alive p' \<and> wf_pipeline p' \<and>
    budgets p' = budgets p \<and> ap_Spec p' = ap_Spec p \<and>
    length (w_calls w') + calls_left (budgets p) (abs_pipeline p') \<le> length (w_calls w) + calls_left (budgets p) (abs_pipeline p))"
  using assms
proof (cases rule: Reconcile_alive)
  case still
  then show ?thesis using st key al wf by (simp add: quiet_def)
next
  case finalizer
  then obtain p' where p': "stored (w_cluster w') k = Some p'" "p_key p' = k" "ap_Spec p' = ap_Spec p"
    by (auto simp: adds_finalizer_def)
  then show ?thesis
    using finalizer finalizer_passes_left [OF finalizer(2) p'(1) wf key] al by (simp add: quiet_def)
next
  case moved
  then obtain p' s where s: "status_step p s" and c: "carries p p' s" and st': "stored (w_cluster w') k = Some p'"
    by (auto simp: moved_def)
  note ref = status_step_refines [OF s wf c]
  have p': "p_key p' = k" "alive p'" "budgets p' = budgets p" "ap_Spec p' = ap_Spec p"
    using c key al view_cong(4) [OF carries_view [OF c]] by (simp_all add: carries_def)
  have fits: "fits (budgets p) (abs_pipeline p)" by (rule wf_fits [OF wf])
  obtain v where v: "do_Get R w k = (Inr p, v)" "same_run w v" "stored (w_cluster v) = stored (w_cluster w)"
    by (rule Get_up [OF up st])
  from Reconcile_effect(2) [OF r v(1) al]
  have "length (w_calls w') + calls_left (budgets p) (abs_pipeline p') \<le> length (w_calls w) + calls_left (budgets p) (abs_pipeline p)"
  proof (elim disjE exE conjE)
    assume "quiet stored_cm w w'"
    then show ?thesis using astep_calls [OF _ fits] ref by (simp add: quiet_def)
  next
    fix stage i
    assume wk: "working_on p stage i" and pend: "st_Phase (cur_status p i) = StagePending"
      and start: "startStage R v p stage i = (x, w')"
    have "snapshot (stored (w_cluster v)) k p" using st v(3) key by (simp add: snapshot_stored)
    from startStage_effect(2) [OF start this key wk pend] have calls: "length (w_calls w') \<le> Suc (length (w_calls w))"
      using v(2) by (auto simp: call_effect_def same_run_def)
    let ?xs = "map abs_stage (p_statuses p)"
    have act: "abs_pipeline p = Active ?xs" and todo: "?xs ! i = Todo (retries_used (cur_status p i))"
      using working_on_facts(3,8) [OF wk wf] pend by (simp_all add: abs_pipeline_def fresh_def abs_stage_def)
    have "calls_left (budgets p) (abs_pipeline p') < calls_left (budgets p) (Active ?xs)"
      using astep_Todo_calls [OF _ _ working_on_front [OF wk wf] todo] ref fits unfolding act by simp
    then show ?thesis using calls act by simp
  qed
  then show ?thesis using moved(1) st' p' ref by blast
qed

lemma passes_calls_left:
  assumes fit: "outputs_fit R limit"
  shows "up (w_cluster w) \<Longrightarrow> stored (w_cluster w) k = Some p \<Longrightarrow> p_key p = k \<Longrightarrow> alive p \<Longrightarrow> wf_pipeline p \<Longrightarrow>
    valid_AgentPipelineSpec (ap_Spec p) \<Longrightarrow> names_fit p \<Longrightarrow>
    length (w_calls (passes R w (replicate n k))) \<le> length (w_calls w) + calls_left (budgets p) (abs_pipeline p)"
proof (induction n arbitrary: w p)
  case (Suc n)
  obtain x v where v: "Reconcile R w k = (x, v)" by fastforce
  obtain p' where p': "up (w_cluster v)" "stored (w_cluster v) k = Some p'" "p_key p' = k" "alive p'" "wf_pipeline p'"
    "budgets p' = budgets p" "ap_Spec p' = ap_Spec p"
    "length (w_calls v) + calls_left (budgets p) (abs_pipeline p') \<le> length (w_calls w) + calls_left (budgets p) (abs_pipeline p)"
    using Reconcile_calls_left [OF v Suc.prems(1-5) fit Suc.prems(6,7)] by blast
  have "p_name p' = p_name p" using p'(3) Suc.prems(3) by (auto simp: p_key_def)
  then have "valid_AgentPipelineSpec (ap_Spec p')" "names_fit p'" using Suc.prems(6,7) p'(7) by (simp_all add: names_fit_def)
  from Suc.IH [OF p'(1-5) this] show ?case using p'(6,8) v by simp
qed simp

end

section \<open>Properties\<close>

text \<open>
  C5. With an API server in good order that can store every output the agents give, however often
  a live pipeline is reconciled that satisfies the invariant, that the schema admits and whose
  names fit into labels, the number of agent invocations stays within the retry budgets, whether
  the agents complete, fail or time out: for a new pipeline, one for each stage plus its maximal
  number of retries.
\<close>

theorem agent_calls_bounded:
  assumes "k8s_reliable R stored stored_cm up limit" and "outputs_fit R limit" and "up (w_cluster w)"
    and "stored (w_cluster w) k = Some p" and "p_key p = k" and "alive p" and "wf_pipeline p"
    and "valid_AgentPipelineSpec (ap_Spec p)" and "names_fit p"
  shows "length (w_calls (passes R w (replicate n k))) \<le> length (w_calls w) + calls_left (budgets p) (abs_pipeline p) \<and>
    calls_left (budgets p) Fresh = (\<Sum>stage\<leftarrow>p_stages p. Suc (max_retries p stage))"
  using k8s_reliable.passes_calls_left [OF assms, of n] by (simp add: calls_left_Fresh budgets_def comp_def del: calls_left.simps)

theorem agent_calls_bounded_witness:
  "\<forall>n. length (w_calls (passes (mem_env 100 (flaky_run 1)) (demo_world (demo_cluster two_stages) 0) (replicate n demo_key))) \<le> 4"
proof
  fix n
  have "budgets two_stages = [1, 1]" by code_simp
  then have "calls_left (budgets two_stages) (abs_pipeline two_stages) = 4"
    by (simp add: abs_pipeline_def stages_calls_def)
  then show "length (w_calls (passes (mem_env 100 (flaky_run 1)) (demo_world (demo_cluster two_stages) 0) (replicate n demo_key))) \<le> 4"
    using agent_calls_bounded [OF mem_reliable flaky_fits [of 100 1], of "demo_world (demo_cluster two_stages) 0" demo_key two_stages n]
    by (simp add: demo_world_def del: calls_left.simps)
qed

end
