(* ===== verification/Output_Integrity.thy ===== *)
theory Output_Integrity
  imports Agent_Calls
begin

text \<open>
  The outputs in the ConfigMaps over time. A pass changes at most one ConfigMap, the output of the
  stage it works on, and puts into it what the stage's agent answered in this pass. Where the
  reads of outputs are true to what is stored (\<open>reads_are_true\<close>), an output is
  written once and never overwritten, and the outputs of completed stages stay where their status
  says; a read that fails or comes from a cache that is behind can break this.
  \<open>k8s_strict\<close> adds to the contract of the API server that a ConfigMap over the size
  limit is refused; then a stage with such an output is run again and again without using up its
  retries.
\<close>

section \<open>What a pass writes\<close>

text \<open>
  A read of a ConfigMap that is true to what is stored: it gives what is stored there, and fails
  if nothing is. In a pass over \<open>k\<close> it is the first one that counts, by which
  \<open>startStage\<close> decides whether the stage has run already.
\<close>

definition read_is_true ::
  "('c,'r) recon \<Rightarrow> ('c \<Rightarrow> NamespacedName \<Rightarrow> ConfigMap option) \<Rightarrow> 'c \<Rightarrow> NamespacedName \<Rightarrow> bool" where
  "read_is_true R cms c j \<longleftrightarrow> (case cms c j of
      None \<Rightarrow> isl (fst (client_GetConfigMap R c j))
    | Some cm \<Rightarrow> fst (client_GetConfigMap R c j) = Inr cm)"

definition reads_are_true ::
  "('c,'r) recon \<Rightarrow> ('c \<Rightarrow> NamespacedName \<Rightarrow> ConfigMap option) \<Rightarrow> ('c,'r) world \<Rightarrow> NamespacedName \<Rightarrow> bool" where
  "reads_are_true R cms w k = (case client_Get R (w_cluster w) k of
      (Inl e, c) \<Rightarrow> True
    | (Inr p, c) \<Rightarrow> (case FindCurrentStage p of
          Inr (Some (stage, i)) \<Rightarrow> read_is_true R cms c (output_key p stage)
        | _ \<Rightarrow> True))"

fun all_reads_true ::
  "('c,'r) recon \<Rightarrow> ('c \<Rightarrow> NamespacedName \<Rightarrow> ConfigMap option) \<Rightarrow> ('c,'r) world \<Rightarrow> NamespacedName list \<Rightarrow> bool" where
  "all_reads_true R cms w [] = True"
| "all_reads_true R cms w (k # ks) =
     (reads_are_true R cms w k \<and> all_reads_true R cms (snd (Reconcile R w k)) ks)"

lemma reads_are_trueD:
  "reads_are_true R cms w k \<Longrightarrow> do_Get R w k = (Inr p, v) \<Longrightarrow> working_on p stage i \<Longrightarrow>
   read_is_true R cms (w_cluster v) (output_key p stage)"
  by (auto simp: reads_are_true_def do_Get_def working_on_def split: prod.splits)

lemma readConfigMapOutput_true:
  assumes "readConfigMapOutput R w ns n = (y, v)"
    and "read_is_true R cms (w_cluster w) \<lparr>nn_Namespace = ns, nn_Name = n\<rparr>"
  shows "case output_at cms (w_cluster w) ns n of None \<Rightarrow> \<exists>e. y = Inl e | Some out \<Rightarrow> y = Inr out"
  using assms
  by (auto simp: readConfigMapOutput_def do_GetConfigMap_def read_is_true_def output_at_def isl_def case_prod_beta
      split: option.splits sum.splits)

text \<open>
  \<open>stores_answer cms R w w' p stage\<close>: in the ConfigMaps, the step from
  \<open>w\<close> to \<open>w'\<close> changed only the output of the stage, to what its agent
  answered in that step to one request.
\<close>

definition stores_answer ::
  "('c \<Rightarrow> NamespacedName \<Rightarrow> ConfigMap option) \<Rightarrow> ('c,'r) recon \<Rightarrow> ('c,'r) world \<Rightarrow> ('c,'r) world \<Rightarrow> AgentPipeline \<Rightarrow> StageSpec \<Rightarrow> bool" where
  "stores_answer cms R w w' p stage \<longleftrightarrow> (\<exists>prompt res cm.
     w_calls w' = w_calls w @ [run_request p stage prompt] \<and>
     fst (Runner_RunAgent R (w_runner w) (run_request p stage prompt)) = Inr res \<and> res_Status res = RunStatusCompleted \<and>
     cms (w_cluster w') = (cms (w_cluster w))(output_key p stage \<mapsto> cm) \<and> cm_output cm = res_Output res)"

context k8s_cluster
begin

lemma failStage_keeps_cms: "failStage R w q i e = (x, w') \<Longrightarrow> stored_cm (w_cluster w') = stored_cm (w_cluster w)"
  by (auto simp: failStage_def metav1_Now_def do_StatusUpdate_def Let_def split: prod.splits sum.splits
      dest: StatusUpdate_ok StatusUpdate_err)

lemma completeStage_cms:
  assumes eq: "completeStage R w q stage i res = (x, w')"
  shows "stored_cm (w_cluster w') = stored_cm (w_cluster w) \<or>
    (\<exists>cm. stored_cm (w_cluster w') = (stored_cm (w_cluster w))(output_key q stage \<mapsto> cm) \<and> cm_output cm = res_Output res)"
proof -
  obtain y v where y: "StoreOutput R w q (sp_Name stage) (res_Output res) = (y, v)" by fastforce
  show ?thesis
  proof (cases y)
    case (Inl e)
    then show ?thesis using eq y StoreOutput_Inl [of w q] by (auto simp: completeStage_def Let_def)
  next
    case (Inr nt)
    then obtain n t where nt: "y = Inr (n, t)" by (cases nt) auto
    have "stored_cm (w_cluster w') = stored_cm (w_cluster v)"
      using eq y nt by (auto simp: completeStage_def metav1_Now_def do_StatusUpdate_def Let_def split: prod.splits sum.splits
          dest: StatusUpdate_ok StatusUpdate_err)
    then show ?thesis using StoreOutput_Inr [OF y [unfolded nt]] by auto
  qed
qed

lemma startStage_stores:
  assumes eq: "startStage R w p stage i = (x, w')"
  shows "stored_cm (w_cluster w') = stored_cm (w_cluster w) \<or>
    stores_answer stored_cm R w w' p stage \<and> isl (fst (client_GetConfigMap R (w_cluster w) (output_key p stage)))"
proof -
  obtain y v where y: "readConfigMapOutput R w (p_ns p) (outputConfigMapName (p_name p) (sp_Name stage)) = (y, v)"
    by fastforce
  note keep = readConfigMapOutput_cases(2) [OF y]
    and run = readConfigMapOutput_same_run [OF y, unfolded same_run_def]
  show ?thesis
  proof (cases y)
    case (Inr out)
    then have "completeStageFromOutput R v p stage i out = (x, w')" using eq y by (simp add: startStage_def)
    then have "stored_cm (w_cluster w') = stored_cm (w_cluster v)"
      by (auto simp: completeStageFromOutput_def metav1_Now_def do_StatusUpdate_def Let_def split: prod.splits sum.splits
          dest: StatusUpdate_ok StatusUpdate_err)
    then show ?thesis using keep by simp
  next
    case (Inl e)
    then have no: "isl (fst (client_GetConfigMap R (w_cluster w) (output_key p stage)))"
      using y by (auto simp: readConfigMapOutput_def do_GetConfigMap_def case_prod_beta split: sum.splits)
    define t0 where "t0 = wall_clock R (w_clock v)"
    define v1 where "v1 = Recorder_Event (v\<lparr>w_clock := Suc (w_clock v)\<rparr>) EventTypeNormal ''StageStarted''
      (''Stage '' @ quote (print_table R) (sp_Name stage) @ '' started (agent: '' @ ref_Name (sp_AgentRef stage) @ '')'')"
    let ?p = "running_at p stage i t0"
    obtain b u where b: "BuildPipelineContext R v1 ?p stage = (b, u)" by fastforce
    have u: "stored_cm (w_cluster u) = stored_cm (w_cluster w)" "w_calls u = w_calls w" "w_runner u = w_runner w"
      using BuildPipelineContext_keeps [OF b] BuildPipelineContext_same_run [OF b] keep run
      by (simp_all add: v1_def same_run_def)
    have fail: ?thesis if "failStage R u ?p i m = (x, w')" for m using failStage_keeps_cms [OF that] u by simp
    have go: ?thesis if fin: "finish_run R (snd (do_RunAgent R u (run_request p stage prompt))) ?p stage i
        (fst (do_RunAgent R u (run_request p stage prompt))) = (x, w')" for prompt
    proof -
      let ?r = "do_RunAgent R u (run_request p stage prompt)"
      have ans: "fst ?r = fst (Runner_RunAgent R (w_runner w) (run_request p stage prompt))"
        using u(3) by (simp add: do_RunAgent_def case_prod_beta)
      show ?thesis
      proof (cases "\<exists>res. fst ?r = Inr res \<and> res_Status res = RunStatusCompleted")
        case True
        then obtain res where res: "fst ?r = Inr res" "res_Status res = RunStatusCompleted" by blast
        then have comp: "completeStage R (snd ?r) ?p stage i res = (x, w')" using fin by (simp add: finish_run_def)
        have "w_calls w' = w_calls u @ [run_request p stage prompt]"
          using comp StoreOutput_same_run
          by (auto simp: completeStage_def metav1_Now_def do_StatusUpdate_def Let_def same_run_def
              split: prod.splits sum.splits dest!: StoreOutput_same_run)
        then show ?thesis
          using completeStage_cms [OF comp] res ans u no by (auto simp: stores_answer_def)
      next
        case False
        then have "stored_cm (w_cluster w') = stored_cm (w_cluster (snd ?r))"
          using fin failStage_keeps_cms by (auto simp: finish_run_def split: sum.splits if_splits)
        then show ?thesis using u by simp
      qed
    qed
    show ?thesis
      using eq y Inl b fail go
      by (auto simp: startStage_def metav1_Now_def Let_def t0_def v1_def case_prod_beta split: sum.splits)
  qed
qed

lemma Reconcile_stores:
  assumes r: "Reconcile R w k = (x, w')"
  shows "stored_cm (w_cluster w') = stored_cm (w_cluster w) \<or>
    (\<exists>p c stage i. client_Get R (w_cluster w) k = (Inr p, c) \<and> p_key p = k \<and> alive p \<and> working_on p stage i \<and>
      st_Phase (cur_status p i) = StagePending \<and> stores_answer stored_cm R w w' p stage \<and>
      isl (fst (client_GetConfigMap R c (output_key p stage))))"
proof -
  obtain g v where g: "do_Get R w k = (g, v)" by fastforce
  note get = do_Get_cases [OF g]
  show ?thesis
  proof (cases g)
    case (Inl e)
    then show ?thesis using Reconcile_unread(2) [OF r] g by (simp add: quiet_def)
  next
    case (Inr p)
    note g = g [unfolded Inr]
    have c: "client_Get R (w_cluster w) k = (Inr p, w_cluster v)" "p_key p = k"
      using g get(4) Inr by (auto simp: do_Get_def snapshot_def split: prod.splits)
    show ?thesis
    proof (cases "alive p")
      case False
      then show ?thesis using Reconcile_deletion(2) [OF r g] by (simp add: quiet_def)
    next
      case True
      from Reconcile_effect(2) [OF r g True] show ?thesis
      proof (elim disjE exE conjE)
        assume "quiet stored_cm w w'"
        then show ?thesis by (simp add: quiet_def)
      next
        fix stage i assume wk: "working_on p stage i" "st_Phase (cur_status p i) = StagePending"
          and start: "startStage R v p stage i = (x, w')"
        have "stores_answer stored_cm R v w' p stage = stores_answer stored_cm R w w' p stage"
          using get(2,3) by (simp add: stores_answer_def same_run_def)
        then show ?thesis using startStage_stores [OF start] get(2) c True wk by metis
      qed
    qed
  qed
qed

lemma Reconcile_other:
  assumes "Reconcile R w k = (x, w')" and "j \<noteq> k"
  shows "stored (w_cluster w') j = stored (w_cluster w) j"
  using assms(1)
proof (cases rule: Reconcile_stored)
  case (finalizer p)
  then show ?thesis using assms(2) by (auto simp: adds_finalizer_def)
next
  case (deletion p)
  then show ?thesis using removes_finalizer_other [OF deletion(4) assms(2)] by simp
qed (use assms(2) in simp_all)

lemma Reconcile_grows:
  assumes r: "Reconcile R w k = (x, w')" and rd: "reads_are_true R stored_cm w k"
  shows "stored_cm (w_cluster w) \<subseteq>\<^sub>m stored_cm (w_cluster w')"
  using Reconcile_stores [OF r]
proof (elim disjE exE conjE)
  fix p c stage i
  assume c: "client_Get R (w_cluster w) k = (Inr p, c)" and wk: "working_on p stage i"
    and st: "stores_answer stored_cm R w w' p stage" and no: "isl (fst (client_GetConfigMap R c (output_key p stage)))"
  have "do_Get R w k = (Inr p, w\<lparr>w_cluster := c\<rparr>)" using c by (simp add: do_Get_def)
  from reads_are_trueD [OF rd this wk] have "stored_cm c (output_key p stage) = None"
    using no by (auto simp: read_is_true_def split: option.splits)
  then have "stored_cm (w_cluster w) (output_key p stage) = None" using Get_frame [OF c] by simp
  then show ?thesis using st by (auto simp: stores_answer_def map_le_def)
qed simp

end

section \<open>A stage is marked completed only with its output stored\<close>

definition completed_with :: "(string \<Rightarrow> string option) \<Rightarrow> string \<Rightarrow> StageStatus \<Rightarrow> bool" where
  "completed_with out n ss \<longleftrightarrow> st_Phase ss = StageCompleted \<and>
     (case out n of None \<Rightarrow> False | Some s \<Rightarrow> st_Output ss = truncateOutput s)"

context k8s_cluster
begin

lemma writes_at:
  assumes "writes stored c c' k p S" and "stored c' \<noteq> stored c" and "stored c' k = Some p'"
  shows "S (ap_Status p')"
  using assms by (auto simp: writes_def carries_def)

lemma completeStage_stores:
  assumes eq: "completeStage R w q stage i res = (x, w')" and sn: "snapshot (stored (w_cluster w)) k p"
    and q: "ap_Meta q = ap_Meta p" and k: "p_key p = k"
    and ne: "stored (w_cluster w') \<noteq> stored (w_cluster w)" and p': "stored (w_cluster w') k = Some p'"
    and i: "i < length (p_statuses q)"
  shows "completed_with (output_at stored_cm (w_cluster w') (p_ns q)) (outputConfigMapName (p_name q) (sp_Name stage)) (cur_status p' i)"
proof -
  obtain y v where y: "StoreOutput R w q (sp_Name stage) (res_Output res) = (y, v)" by fastforce
  define S where "S = (\<lambda>s :: AgentPipelineStatus. st_Phase (sts_Stages s ! i) = StageCompleted \<and>
    st_Output (sts_Stages s ! i) = truncateOutput (res_Output res))"
  have S: "S (ap_Status (set_stage i (\<lambda>s. s\<lparr>st_Phase := StageCompleted, st_CompletedAt := Some t,
               st_Output := truncateOutput (res_Output res),
               st_OutputRef := outputConfigMapName (p_name q) (sp_Name stage), st_TaskID := res_TaskID res\<rparr>) q))" for t
    using i by (simp add: S_def ap_Status_set_stage)
  have "S (ap_Status p')" by (rule writes_at [OF completeStage_effect(1) [where S = S, OF eq sn q k S] ne p'])
  moreover obtain n t where nt: "y = Inr (n, t)"
  proof (cases y)
    case (Inl e)
    then have "stored (w_cluster w') = stored (w_cluster w)"
      using eq y StoreOutput_keeps_pipelines [OF y] by (auto simp: completeStage_def Let_def)
    then show thesis using ne by simp
  qed (use that in \<open>auto\<close>)
  moreover have "stored_cm (w_cluster w') = stored_cm (w_cluster v)"
  proof -
    note nm = StoreOutput_Inr(1,2) [OF y [unfolded nt]]
    have snv: "snapshot (stored (w_cluster v)) k p" using StoreOutput_keeps_pipelines [OF y] sn by simp
    note eq' = eq [unfolded completeStage_def y nt nm metav1_Now_def Let_def prod.case sum.case]
    have "stored_cm (w_cluster w') = stored_cm (w_cluster (v\<lparr>w_clock := Suc (w_clock v)\<rparr>))"
      by (rule after_StatusUpdate(2) [where S = "\<lambda>_. True" and k = k and p = p, OF eq']) (use snv q k in \<open>simp_all\<close>)
    then show ?thesis by simp
  qed
  moreover have "output_at stored_cm (w_cluster v) (p_ns q) (outputConfigMapName (p_name q) (sp_Name stage)) = Some (res_Output res)"
    using StoreOutput_Inr(1,3) [OF y [unfolded nt]] by (auto simp: output_at_def)
  ultimately show ?thesis by (auto simp: completed_with_def S_def output_at_def)
qed

lemma failStage_not_completed:
  assumes eq: "failStage R w q i e = (x, w')" and sn: "snapshot (stored (w_cluster w)) k p"
    and q: "ap_Meta q = ap_Meta p" and k: "p_key p = k"
    and ne: "stored (w_cluster w') \<noteq> stored (w_cluster w)" and p': "stored (w_cluster w') k = Some p'"
    and i: "i < length (p_statuses q)"
  shows "st_Phase (cur_status p' i) = StageFailed"
proof -
  define S where "S = (\<lambda>s :: AgentPipelineStatus. st_Phase (sts_Stages s ! i) = StageFailed)"
  have S: "S (ap_Status (set_stage i (\<lambda>s. s\<lparr>st_Phase := StageFailed, st_CompletedAt := Some t, st_Error := e\<rparr>) q))" for t
    using i by (simp add: S_def ap_Status_set_stage)
  show ?thesis using writes_at [OF failStage_effect(1) [where S = S, OF eq sn q k S] ne p'] by (simp add: S_def)
qed

lemma startStage_completes:
  assumes eq: "startStage R w p stage i = (x, w')" and sn: "snapshot (stored (w_cluster w)) k p" and k: "p_key p = k"
    and ne: "stored (w_cluster w') \<noteq> stored (w_cluster w)" and p': "stored (w_cluster w') k = Some p'"
    and i: "i < length (p_statuses p)" and rd: "read_is_true R stored_cm (w_cluster w) (output_key p stage)"
  shows "st_Phase (cur_status p' i) = StageFailed \<or>
    completed_with (output_at stored_cm (w_cluster w') (p_ns p)) (outputConfigMapName (p_name p) (sp_Name stage)) (cur_status p' i)"
proof -
  obtain y v where y: "readConfigMapOutput R w (p_ns p) (outputConfigMapName (p_name p) (sp_Name stage)) = (y, v)"
    by fastforce
  note keep = readConfigMapOutput_cases(1,2) [OF y]
  have snv: "snapshot (stored (w_cluster v)) k p" using keep sn by simp
  show ?thesis
  proof (cases y)
    case (Inr out)
    then have rec: "completeStageFromOutput R v p stage i out = (x, w')" using eq y by (simp add: startStage_def)
    define S where "S = (\<lambda>s :: AgentPipelineStatus. st_Phase (sts_Stages s ! i) = StageCompleted \<and>
      st_Output (sts_Stages s ! i) = truncateOutput out)"
    have S: "S (ap_Status (set_stage i (\<lambda>s. s\<lparr>st_Phase := StageCompleted, st_CompletedAt := Some t,
               st_Output := truncateOutput out,
               st_OutputRef := outputConfigMapName (p_name p) (sp_Name stage)\<rparr>) p))" for t
      using i by (simp add: S_def ap_Status_set_stage)
    note eff = completeStageFromOutput_effect [where S = S, OF rec snv refl k S]
    have "S (ap_Status p')" using writes_at [OF eff(1) _ p'] ne keep(1) by simp
    then show ?thesis
      using readConfigMapOutput_true [OF y rd] Inr eff(2) keep(2)
      by (auto simp: completed_with_def S_def output_at_def split: option.splits)
  next
    case (Inl e)
    define t0 where "t0 = wall_clock R (w_clock v)"
    define v1 where "v1 = Recorder_Event (v\<lparr>w_clock := Suc (w_clock v)\<rparr>) EventTypeNormal ''StageStarted''
      (''Stage '' @ quote (print_table R) (sp_Name stage) @ '' started (agent: '' @ ref_Name (sp_AgentRef stage) @ '')'')"
    let ?p = "running_at p stage i t0"
    obtain b u where b: "BuildPipelineContext R v1 ?p stage = (b, u)" by fastforce
    have u: "stored (w_cluster u) = stored (w_cluster w)"
      using BuildPipelineContext_keeps [OF b] keep by (simp add: v1_def)
    have fail: "st_Phase (cur_status p' i) = StageFailed"
      if "failStage R w2 ?p i m = (x, w')" "stored (w_cluster w2) = stored (w_cluster w)" for w2 m
      by (rule failStage_not_completed [OF that(1)]) (use that(2) sn k ne p' i in simp_all)
    have comp: "completed_with (output_at stored_cm (w_cluster w') (p_ns p)) (outputConfigMapName (p_name p) (sp_Name stage)) (cur_status p' i)"
      if "completeStage R w2 ?p stage i res = (x, w')" "stored (w_cluster w2) = stored (w_cluster w)" for w2 res
      using completeStage_stores [OF that(1), of k p] that(2) sn k ne p' i by simp
    have go: ?thesis if "finish_run R w2 ?p stage i res = (x, w')" "stored (w_cluster w2) = stored (w_cluster w)" for w2 res
      using that(1) fail [OF _ that(2)] comp [OF _ that(2)] by (auto simp: finish_run_def split: sum.splits if_splits)
    have run: "stored (w_cluster (snd (do_RunAgent R u req))) = stored (w_cluster w)" for req using u by simp
    show ?thesis
      using eq y Inl b fail [OF _ u] go [OF _ run]
      by (auto simp: startStage_def metav1_Now_def Let_def t0_def v1_def case_prod_beta split: sum.splits)
  qed
qed

end

section \<open>The outputs of completed stages are kept\<close>

lemma outputs_kept_iff:
  "outputs_kept out p \<longleftrightarrow> (\<forall>j<length (p_statuses p). visible (cur_status p j) \<longrightarrow>
     completed_with out (st_OutputRef (cur_status p j)) (cur_status p j))"
  by (auto simp: outputs_kept_def completed_with_def visible_def list_all_length split: if_splits)

lemma output_at_grows:
  "cms c \<subseteq>\<^sub>m cms c' \<Longrightarrow> output_at cms c ns n = Some s \<Longrightarrow> output_at cms c' ns n = Some s"
  by (auto simp: output_at_def map_le_def dom_def)

lemma completed_with_grows:
  "cms c \<subseteq>\<^sub>m cms c' \<Longrightarrow> completed_with (output_at cms c ns) n ss \<Longrightarrow> completed_with (output_at cms c' ns) n ss"
  using output_at_grows [of cms c c' ns n] by (auto simp: completed_with_def split: option.splits)

lemma outputs_kept_grows:
  assumes "cms c \<subseteq>\<^sub>m cms c'" and "outputs_kept (output_at cms c (p_ns p)) p"
    and "p_ns p' = p_ns p" and "p_statuses p' = p_statuses p"
  shows "outputs_kept (output_at cms c' (p_ns p')) p'"
  using assms completed_with_grows [of cms c c'] by (auto simp: outputs_kept_iff)

lemma outputs_kept_update:
  assumes "cms c \<subseteq>\<^sub>m cms c'" and "outputs_kept (output_at cms c (p_ns p)) p"
    and "p_ns p' = p_ns p" and "p_statuses p' = (p_statuses p)[i := v]"
    and "visible v \<longrightarrow> completed_with (output_at cms c' (p_ns p)) (st_OutputRef v) v"
  shows "outputs_kept (output_at cms c' (p_ns p')) p'"
  unfolding outputs_kept_iff
proof (intro allI impI)
  fix j assume j: "j < length (p_statuses p')" "visible (cur_status p' j)"
  show "completed_with (output_at cms c' (p_ns p')) (st_OutputRef (cur_status p' j)) (cur_status p' j)"
  proof (cases "j = i")
    case True
    then show ?thesis using assms(3-5) j by simp
  next
    case False
    then have "completed_with (output_at cms c (p_ns p)) (st_OutputRef (cur_status p' j)) (cur_status p' j)"
      using assms(2,4) j unfolding outputs_kept_iff by simp
    then show ?thesis using completed_with_grows [OF assms(1)] assms(3) by simp
  qed
qed

context k8s_cluster
begin

text \<open>One status step with the ConfigMaps before and after the pass that made it.\<close>

lemma step_outputs_kept:
  assumes s: "status_step p s" and c: "carries p p' s" and grow: "stored_cm cl \<subseteq>\<^sub>m stored_cm cl'"
    and kept: "outputs_kept (output_at stored_cm cl (p_ns p)) p"
    and fin: "\<And>stage i. working_on p stage i \<Longrightarrow> st_Phase (cur_status p i) = StagePending \<Longrightarrow>
      st_Phase (cur_status p' i) \<noteq> StageCompleted \<or>
      completed_with (output_at stored_cm cl' (p_ns p)) (outputConfigMapName (p_name p) (sp_Name stage)) (cur_status p' i)"
  shows "outputs_kept (output_at stored_cm cl' (p_ns p')) p'"
proof -
  have p': "ap_Status p' = s" "p_ns p' = p_ns p" using c by (auto simp: carries_def p_key_def)
  have len: "i < length (p_statuses p)" if "working_on p stage i" for stage i
    using that FindCurrentStage_SomeD(1) by (auto simp: working_on_def)
  note same = outputs_kept_grows [OF grow kept p'(2)] and upd = outputs_kept_update [OF grow kept p'(2)]
  from s show ?thesis
  proof cases
    case (started cs t)
    then show ?thesis using p' by (simp add: outputs_kept_def visible_def list_all_iff)
  next
    case (stage_completed stage i tid out t t0)
    then show ?thesis
      using fin [OF stage_completed(2,3)] len [OF stage_completed(2)] p'(1)
      by (intro upd [of i "cur_status p' i"]) simp_all
  next
    case (stage_recovered stage i out t)
    then show ?thesis
      using fin [OF stage_recovered(2,3)] len [OF stage_recovered(2)] p'(1)
      by (intro upd [of i "cur_status p' i"]) simp_all
  next
    case (stage_failed stage i e t t0)
    then show ?thesis using len [OF stage_failed(2)] p'(1) by (intro upd [of i "cur_status p' i"]) (simp_all add: visible_def)
  next
    case (retried stage i)
    then show ?thesis using len [OF retried(2)] p'(1) by (intro upd [of i "cur_status p' i"]) (simp_all add: visible_def)
  qed (use same p'(1) in simp_all)
qed

lemma Reconcile_outputs_kept:
  assumes r: "Reconcile R w k = (x, w')" and st: "stored (w_cluster w) j = Some p" and st': "stored (w_cluster w') j = Some p'"
    and wf: "wf_pipeline p" and kept: "outputs_kept (output_at stored_cm (w_cluster w) (p_ns p)) p"
    and key: "p_key p = j" and key': "p_key p' = j" and rd: "reads_are_true R stored_cm w k"
  shows "outputs_kept (output_at stored_cm (w_cluster w') (p_ns p')) p'"
proof -
  note grow = Reconcile_grows [OF r rd]
  have ns: "p_ns p' = p_ns p" using key key' by (auto simp: p_key_def)
  show ?thesis
  proof (cases "ap_Status p' = ap_Status p")
    case True
    then show ?thesis using outputs_kept_grows [OF grow kept ns] by simp
  next
    case False
    then have jk: "j = k" and al: "alive p" using Reconcile_pointwise [OF r st wf st'] by blast+
    obtain g v where g: "do_Get R w k = (g, v)" by fastforce
    note get = do_Get_cases [OF g]
    have ne: "stored (w_cluster w') \<noteq> stored (w_cluster w)" using False st st' by auto
    then obtain q where q: "g = Inr q" using Reconcile_unread(1) [OF r] g by (cases g) auto
    have sn: "snapshot (stored (w_cluster v)) k q" using get(1,4) q by simp
    note g = g [unfolded q]
    have "alive q"
    proof (rule ccontr)
      assume dying: "\<not> alive q"
      from Reconcile_deletion(1) [OF r g dying] show False
        using ne removes_finalizer_stored al dying st jk by fastforce
    qed
    then obtain s where s: "q = p" "status_step p s" "carries p p' s"
      using Reconcile_effect(1) [OF r g] ne False st st' jk unfolding writes_def adds_finalizer_def by auto
    note g = g [unfolded s(1)] and sn = sn [unfolded s(1)]
    show ?thesis
    proof (rule step_outputs_kept [OF s(2,3) grow kept])
      fix stage i assume wk: "working_on p stage i" "st_Phase (cur_status p i) = StagePending"
      have "startStage R v p stage i = (x, w')"
        using r g al wk by (simp add: Reconcile_def working_on_def handleRunning_def Let_def)
      from startStage_completes [OF this sn snapshot_key [OF sn] _ _ _ reads_are_trueD [OF rd g wk(1)]]
      show "st_Phase (cur_status p' i) \<noteq> StageCompleted \<or>
        completed_with (output_at stored_cm (w_cluster w') (p_ns p)) (outputConfigMapName (p_name p) (sp_Name stage)) (cur_status p' i)"
        using ne get(1) st' jk working_on_facts(3) [OF wk(1) wf] by auto
    qed
  qed
qed

end

context k8s_cluster
begin

lemma Reconcile_key:
  assumes r: "Reconcile R w k = (x, w')" and st: "stored (w_cluster w) j = Some p" and st': "stored (w_cluster w') j = Some p'"
    and key: "p_key p = j"
  shows "p_key p' = j"
  using r
proof (cases rule: Reconcile_stored)
  case same
  then show ?thesis using st st' key by simp
next
  case (step q q' s)
  then show ?thesis using st st' key by (cases "j = k") (auto simp: carries_def)
next
  case (finalizer q)
  then show ?thesis using st st' key by (cases "j = k") (auto simp: adds_finalizer_def)
next
  case (deletion q)
  show ?thesis
  proof (cases "j = k")
    case True
    then show ?thesis using deletion(4) st' by (auto elim: removes_finalizerE)
  next
    case False
    then show ?thesis using removes_finalizer_other [OF deletion(4)] st st' key by simp
  qed
qed

end

context k8s_cluster
begin

lemma passes_outputs_kept:
  "stored (w_cluster w) j = Some p \<Longrightarrow> p_key p = j \<Longrightarrow> wf_pipeline p \<Longrightarrow>
   outputs_kept (output_at stored_cm (w_cluster w) (p_ns p)) p \<Longrightarrow> stored (w_cluster (passes R w ks)) j = Some p' \<Longrightarrow>
   all_reads_true R stored_cm w ks \<Longrightarrow>
   stored_cm (w_cluster w) \<subseteq>\<^sub>m stored_cm (w_cluster (passes R w ks)) \<and>
   outputs_kept (output_at stored_cm (w_cluster (passes R w ks)) (p_ns p')) p'"
proof (induction ks arbitrary: w p)
  case (Cons k ks)
  obtain x v where v: "Reconcile R w k = (x, v)" by fastforce
  obtain q where q: "stored (w_cluster v) j = Some q"
    using Cons.prems(5) passes_domain [of v] v by (cases "stored (w_cluster v) j") auto
  have kq: "p_key q = j" by (rule Reconcile_key [OF v Cons.prems(1) q Cons.prems(2)])
  have wfq: "wf_pipeline q" using Reconcile_pointwise [OF v Cons.prems(1,3) q] by blast
  have "outputs_kept (output_at stored_cm (w_cluster v) (p_ns q)) q"
    by (rule Reconcile_outputs_kept [OF v Cons.prems(1) q Cons.prems(3,4,2) kq]) (use Cons.prems(6) in simp)
  from Cons.IH [OF q kq wfq this] show ?case
    using Reconcile_grows [OF v] map_le_trans Cons.prems(5,6) v by auto
qed simp

end

section \<open>Requests that are refused\<close>

text \<open>
  An API server that refuses what it cannot store: a ConfigMap over the size limit, a new ConfigMap
  with an invalid name or label, and a status that fails the validation of the schema.
\<close>

locale k8s_strict = k8s_reliable R stored stored_cm up limit
  for R :: "('c, 'r) AgentPipelineReconciler"
    and stored :: "'c \<Rightarrow> NamespacedName \<Rightarrow> AgentPipeline option"
    and stored_cm :: "'c \<Rightarrow> NamespacedName \<Rightarrow> ConfigMap option"
    and up :: "'c \<Rightarrow> bool" and limit :: nat +
  assumes too_large_refused: "up c \<Longrightarrow> (\<And>b. limit < cm_size (f b)) \<Longrightarrow>
    \<exists>e c'. ctl_CreateOrUpdate R c cm f = (Inl e, c') \<and> up c'"
    and invalid_refused: "up c \<Longrightarrow> stored_cm c (cm_key cm) = None \<Longrightarrow> cm_key (f cm) = cm_key cm \<Longrightarrow>
      \<not> valid_meta (f cm) \<Longrightarrow> \<exists>e c'. ctl_CreateOrUpdate R c cm f = (Inl e, c') \<and> up c'"
    and invalid_status_refused: "up c \<Longrightarrow> \<not> valid_AgentPipelineStatus (ap_Status p) \<Longrightarrow>
      \<exists>e c'. client_StatusUpdate R c p = (Inl e, c')"

interpretation mem_strict: k8s_strict "mem_env limit run" mem_pipes mem_cms mem_up limit
  for limit and run :: "'r \<Rightarrow> RunRequest \<Rightarrow> (goerror + RunResult) \<times> 'r"
proof (unfold_locales, goal_cases)
  case (1 c f cm)
  obtain b d where t: "mem_tick c = (b, d)" by fastforce
  show ?case
    using mem_tick_mem_up [OF 1(1) t] 1(2) by (simp add: mem_env_def mem_CreateOrUpdate_def t Let_def cm_size_def)
next
  case (2 c cm f)
  obtain b d where t: "mem_tick c = (b, d)" by fastforce
  show ?case
    using mem_tick_mem_up [OF 2(1) t] mem_tick_frame [OF t] 2(2-4)
    by (simp add: mem_env_def mem_CreateOrUpdate_def t Let_def cm_key_def valid_meta_def)
next
  case (3 c p)
  obtain b d where t: "mem_tick c = (b, d)" by fastforce
  show ?case using 3(2) by (simp add: mem_env_def mem_StatusUpdate_def t split: option.split)
qed

text \<open>
  An agent that answers this request, whatever its state, with an output that the API server cannot
  store in a ConfigMap, because of its size or because of the names of the pipeline and the stage.
\<close>

definition unstorable :: "('c,'r) recon \<Rightarrow> nat \<Rightarrow> AgentPipeline \<Rightarrow> StageSpec \<Rightarrow> RunRequest \<Rightarrow> bool" where
  "unstorable R limit p stage req \<longleftrightarrow> (\<forall>r. \<exists>res. fst (Runner_RunAgent R r req) = Inr res \<and>
     res_Status res = RunStatusCompleted \<and> (limit < length configMapDataKey + length (res_Output res) \<or>
       \<not> valid_meta (output_config_map p (sp_Name stage) (res_Output res))))"

definition answers_completed :: "('c,'r) recon \<Rightarrow> RunRequest \<Rightarrow> bool" where
  "answers_completed R req \<longleftrightarrow> (\<forall>r. \<exists>res. fst (Runner_RunAgent R r req) = Inr res \<and> res_Status res = RunStatusCompleted)"

definition answers_too_large :: "('c,'r) recon \<Rightarrow> nat \<Rightarrow> RunRequest \<Rightarrow> bool" where
  "answers_too_large R limit req \<longleftrightarrow> (\<forall>r. \<exists>res. fst (Runner_RunAgent R r req) = Inr res \<and>
     res_Status res = RunStatusCompleted \<and> limit < length configMapDataKey + length (res_Output res))"

context k8s_strict
begin

lemma StoreOutput_refused:
  assumes "up (w_cluster w)"
    and no: "limit < length configMapDataKey + length out \<or> \<not> valid_meta (output_config_map q s out)"
    and new: "stored_cm (w_cluster w) \<lparr>nn_Namespace = p_ns q, nn_Name = outputConfigMapName (p_name q) s\<rparr> = None"
  shows "\<exists>e v. StoreOutput R w q s out = (Inl e, v) \<and> up (w_cluster v)"
proof -
  obtain cm where cm: "ctl_SetControllerReference R q (output_config_map q s out) = Inr cm"
    using up_SetControllerReference [of "output_config_map q s out" q]
    by (auto simp: output_config_map_def zero_ObjectMeta_def)
  let ?f = "\<lambda>c. c\<lparr>cm_Data := [(configMapDataKey, out)]\<rparr>"
  have meta: "cm_key cm = \<lparr>nn_Namespace = p_ns q, nn_Name = outputConfigMapName (p_name q) s\<rparr>" "cm_key (?f cm) = cm_key cm"
    "valid_meta (?f cm) = valid_meta (output_config_map q s out)"
    using SetControllerReference_ok [OF cm] by (simp_all add: cm_key_def valid_meta_def output_config_map_def)
  have "\<exists>e c. ctl_CreateOrUpdate R (w_cluster w) cm ?f = (Inl e, c) \<and> up c"
    using no
  proof
    assume "limit < length configMapDataKey + length out"
    then show ?thesis by (intro too_large_refused [OF assms(1)]) (simp add: cm_size_def)
  next
    assume "\<not> valid_meta (output_config_map q s out)"
    then show ?thesis using invalid_refused [OF assms(1), of cm ?f] new meta by simp
  qed
  then obtain e c where c: "ctl_CreateOrUpdate R (w_cluster w) cm ?f = (Inl e, c)" "up c" by blast
  show ?thesis using cm c by (simp add: StoreOutput_def do_CreateOrUpdate_def)
qed

end

context k8s_strict
begin

lemma Reconcile_unstorable:
  assumes up: "up (w_cluster w)" and st: "stored (w_cluster w) k = Some p" and al: "alive p"
    and wk: "working_on p stage i" "st_Phase (cur_status p i) = StagePending"
    and names: "distinct (map sp_Name (p_stages p))"
    and new: "stored_cm (w_cluster w) (output_key p stage) = None"
    and kept: "outputs_kept (output_at stored_cm (w_cluster w) (p_ns p)) p"
    and prompt: "RenderPrompt R stage (stage_context (output_at stored_cm (w_cluster w) (p_ns p)) p i) = Inr prompt"
    and big: "unstorable R limit p stage (run_request p stage prompt)"
  shows "\<exists>e v. Reconcile R w k = (Ret no_requeue (Some e), v) \<and> up (w_cluster v) \<and>
    stored (w_cluster v) = stored (w_cluster w) \<and> stored_cm (w_cluster v) = stored_cm (w_cluster w) \<and>
    w_calls v = w_calls w @ [run_request p stage prompt]"
proof -
  obtain v where v: "Reconcile R w k = startStage R v p stage i" "up (w_cluster v)"
    "stored (w_cluster v) = stored (w_cluster w)" "stored_cm (w_cluster v) = stored_cm (w_cluster w)" "same_run w v"
    by (rule Reconcile_starts [OF up st al wk])
  have out: "output_at stored_cm (w_cluster v) = output_at stored_cm (w_cluster w)"
    using v(4) by (simp add: output_at_def fun_eq_iff)
  let ?req = "run_request p stage prompt"
  obtain t0 u where u: "up (w_cluster u)" "stored (w_cluster u) = stored (w_cluster v)"
    "stored_cm (w_cluster u) = stored_cm (w_cluster v)" "w_calls u = w_calls v"
    and run: "startStage R v p stage i =
      (case RenderPrompt R stage (stage_context (output_at stored_cm (w_cluster v) (p_ns p)) p i) of
         Inl err \<Rightarrow> failStage R u (running_at p stage i t0) i (''rendering prompt: '' @ error_text err)
       | Inr prompt \<Rightarrow> finish_run R (snd (do_RunAgent R u (run_request p stage prompt)))
           (running_at p stage i t0) stage i (fst (do_RunAgent R u (run_request p stage prompt))))"
    using outputs_kept_avail [OF kept] new v(4) out
    by - (rule startStage_invokes [OF v(2) wk names], simp_all)
  let ?r = "do_RunAgent R u ?req" and ?p = "running_at p stage i t0"
  obtain res where res: "fst ?r = Inr res" "res_Status res = RunStatusCompleted"
    "limit < length configMapDataKey + length (res_Output res) \<or> \<not> valid_meta (output_config_map ?p (sp_Name stage) (res_Output res))"
    using spec [OF big [unfolded unstorable_def], of "w_runner u"] output_config_map_cong [of ?p p]
    by (auto simp: do_RunAgent_def case_prod_beta)
  have "up (w_cluster (snd ?r))" "stored_cm (w_cluster (snd ?r)) (output_key ?p stage) = None" using u(1,3) v(4) new by simp_all
  from StoreOutput_refused [OF this(1) res(3) this(2)] obtain e x where
    x: "StoreOutput R (snd ?r) ?p (sp_Name stage) (res_Output res) = (Inl e, x)" "up (w_cluster x)" by blast
  have "finish_run R (snd ?r) ?p stage i (fst ?r)
      = (Ret no_requeue (Some (Errorf (''storing output for stage '' @ quote (print_table R) (sp_Name stage)) e)), x)"
    using res x by (simp add: finish_run_def completeStage_def)
  then have "Reconcile R w k = (Ret no_requeue (Some (Errorf (''storing output for stage '' @ quote (print_table R) (sp_Name stage)) e)), x)"
    using v(1) run prompt out by simp
  moreover have "stored (w_cluster x) = stored (w_cluster w)" "stored_cm (w_cluster x) = stored_cm (w_cluster w)"
    "w_calls x = w_calls w @ [?req]"
    using StoreOutput_keeps_pipelines [OF x(1)] StoreOutput_Inl [OF x(1)] StoreOutput_same_run [OF x(1)] u(2-4) v(3-5)
    by (simp_all add: same_run_def)
  ultimately show ?thesis using x(2) by blast
qed

lemma passes_unstorable:
  assumes "alive p" "working_on p stage i" "st_Phase (cur_status p i) = StagePending" "distinct (map sp_Name (p_stages p))"
    and big: "unstorable R limit p stage (run_request p stage prompt)"
  shows "up (w_cluster w) \<Longrightarrow> stored (w_cluster w) k = Some p \<Longrightarrow> stored_cm (w_cluster w) (output_key p stage) = None \<Longrightarrow>
    outputs_kept (output_at stored_cm (w_cluster w) (p_ns p)) p \<Longrightarrow>
    RenderPrompt R stage (stage_context (output_at stored_cm (w_cluster w) (p_ns p)) p i) = Inr prompt \<Longrightarrow>
    stored (w_cluster (passes R w (replicate n k))) = stored (w_cluster w) \<and>
    w_calls (passes R w (replicate n k)) = w_calls w @ replicate n (run_request p stage prompt)"
proof (induction n arbitrary: w)
  case (Suc n)
  obtain e v where v: "Reconcile R w k = (Ret no_requeue (Some e), v)" "up (w_cluster v)"
    "stored (w_cluster v) = stored (w_cluster w)" "stored_cm (w_cluster v) = stored_cm (w_cluster w)"
    "w_calls v = w_calls w @ [run_request p stage prompt]"
    using Reconcile_unstorable [OF Suc.prems(1,2) assms(1-4) Suc.prems(3-5) big] by blast
  have "output_at stored_cm (w_cluster v) = output_at stored_cm (w_cluster w)"
    using v(4) by (simp add: output_at_def fun_eq_iff)
  then show ?case using Suc.IH [of v] Suc.prems v by simp
qed simp

end

section \<open>Properties\<close>

text \<open>
  C6. Over any sequence of passes in which the read that looks for the output of the stage is true
  to what is stored, and with any other call failing at any point, no output ConfigMap is
  overwritten or removed by the operator, and each completed stage of a pipeline refers to a
  stored output of which its status has the truncated copy.
\<close>

theorem completed_outputs_are_kept:
  assumes "k8s_cluster R stored stored_cm" and "stored (w_cluster w) j = Some p" and "p_key p = j" and "wf_pipeline p"
    and "outputs_kept (output_at stored_cm (w_cluster w) (p_ns p)) p"
    and "stored (w_cluster (passes R w ks)) j = Some p'" and "all_reads_true R stored_cm w ks"
  shows "stored_cm (w_cluster w) \<subseteq>\<^sub>m stored_cm (w_cluster (passes R w ks)) \<and>
    outputs_kept (output_at stored_cm (w_cluster (passes R w ks)) (p_ns p')) p'"
  using k8s_cluster.passes_outputs_kept [OF assms] .

lemma mem_reads_are_true [simp]: "reads_are_true (mem_env limit run) mem_cms w k"
  by (auto simp: reads_are_true_def read_is_true_def mem_env_def mem_GetConfigMap_def split: prod.split sum.split option.split)

theorem completed_outputs_are_kept_witness:
  "\<exists>p'. mem_pipes (w_cluster (passes (mem_env 100 (flaky_run 0)) (demo_world half_cluster 0) [demo_key])) demo_key = Some p' \<and>
     outputs_kept (output_at mem_cms (w_cluster (passes (mem_env 100 (flaky_run 0)) (demo_world half_cluster 0) [demo_key])) (p_ns p')) p'"
proof -
  obtain p' where p': "mem_pipes (w_cluster (snd (Reconcile (mem_env 100 (flaky_run 0)) (demo_world half_cluster 0) demo_key))) demo_key = Some p'"
    by (rule mem_still_stored [of "demo_world half_cluster 0" demo_key half_way]) simp_all
  show ?thesis
    using completed_outputs_are_kept [OF mem_cluster, of "demo_world half_cluster 0" demo_key half_way 100 "flaky_run 0" "[demo_key]" p']
      p' half_way_kept
    by (simp add: half_way_pending)
qed

text \<open>
  C28. Whatever the API server and the agent answer, however old what was read: a pass over
  \<open>k\<close> changes no other pipeline, and at most one ConfigMap: in the namespace of
  \<open>k\<close>, under the name of the output of the pending stage that the pass works on, and
  only to the output that the agent of this stage gave in the one call of the pass. An output that
  was stored is overwritten only if the pass did not read it as it is.
\<close>

theorem writes_are_confined:
  assumes "k8s_cluster R stored stored_cm" and "Reconcile R w k = (x, w')"
  shows "(\<forall>j. j \<noteq> k \<longrightarrow> stored (w_cluster w') j = stored (w_cluster w) j) \<and>
    (\<forall>j. stored_cm (w_cluster w') j \<noteq> stored_cm (w_cluster w) j \<longrightarrow>
      (\<exists>p c stage i. client_Get R (w_cluster w) k = (Inr p, c) \<and> alive p \<and> working_on p stage i \<and>
        st_Phase (cur_status p i) = StagePending \<and> stores_answer stored_cm R w w' p stage \<and>
        j = \<lparr>nn_Namespace = nn_Namespace k, nn_Name = nn_Name k @ ''-stage-'' @ sp_Name stage\<rparr>) \<and>
      (stored_cm (w_cluster w) j \<noteq> None \<longrightarrow> \<not> reads_are_true R stored_cm w k))"
proof -
  have pipes: "stored (w_cluster w') j = stored (w_cluster w) j" if "j \<noteq> k" for j
    using k8s_cluster.Reconcile_other [OF assms that] .
  have cms: "\<exists>p c stage i. client_Get R (w_cluster w) k = (Inr p, c) \<and> alive p \<and> working_on p stage i \<and>
        st_Phase (cur_status p i) = StagePending \<and> stores_answer stored_cm R w w' p stage \<and>
        j = \<lparr>nn_Namespace = nn_Namespace k, nn_Name = nn_Name k @ ''-stage-'' @ sp_Name stage\<rparr>"
    if ne: "stored_cm (w_cluster w') j \<noteq> stored_cm (w_cluster w) j" for j
  proof -
    from k8s_cluster.Reconcile_stores [OF assms] ne obtain p c stage i where
      p: "client_Get R (w_cluster w) k = (Inr p, c)" "p_key p = k" "alive p" "working_on p stage i"
        "st_Phase (cur_status p i) = StagePending" "stores_answer stored_cm R w w' p stage" by auto
    then have "j = output_key p stage" using ne by (auto simp: stores_answer_def split: if_splits)
    then have "j = \<lparr>nn_Namespace = nn_Namespace k, nn_Name = nn_Name k @ ''-stage-'' @ sp_Name stage\<rparr>"
      using p(2) by (auto simp: p_key_def outputConfigMapName_def)
    then show ?thesis using p(1,3-6) by (intro exI conjI)
  qed
  have kept: "stored_cm (w_cluster w) j = None"
    if "stored_cm (w_cluster w') j \<noteq> stored_cm (w_cluster w) j" "reads_are_true R stored_cm w k" for j
    using k8s_cluster.Reconcile_grows [OF assms that(2)] that(1) by (force simp: map_le_def)
  show ?thesis using pipes cms kept by (intro conjI allI impI notI) simp_all
qed

theorem writes_are_confined_witness:
  "let R = mem_env 100 (flaky_run 0); w = demo_world half_cluster 0; w' = snd (Reconcile R w demo_key);
     j = \<lparr>nn_Namespace = ''ns'', nn_Name = ''p-stage-fix''\<rparr> in
   mem_cms (w_cluster w') j \<noteq> None \<and> length (w_calls w') = 1 \<and> (\<exists>p stage. stores_answer mem_cms R w w' p stage)"
proof -
  let ?R = "mem_env 100 (flaky_run 0)" and ?w = "demo_world half_cluster (0::nat)"
    and ?j = "\<lparr>nn_Namespace = ''ns'', nn_Name = ''p-stage-fix''\<rparr>"
  have new: "mem_cms (w_cluster (snd (Reconcile ?R ?w demo_key))) ?j \<noteq> None" by code_simp
  then have "mem_cms (w_cluster (snd (Reconcile ?R ?w demo_key))) ?j \<noteq> mem_cms (w_cluster ?w) ?j"
    by (simp add: half_cluster_outputs)
  with writes_are_confined [OF mem_cluster prod.collapse [symmetric], where w = ?w and k = demo_key]
  have st: "\<exists>p stage. stores_answer mem_cms ?R ?w (snd (Reconcile ?R ?w demo_key)) p stage" by blast
  then have "length (w_calls (snd (Reconcile ?R ?w demo_key))) = 1"
    by (auto simp: stores_answer_def demo_world_def)
  then show ?thesis using new st by (simp add: Let_def)
qed

text \<open>
  C20. A stage whose agent answers with more than the API server stores is run again by every
  pass: the pipeline never changes, no retry is counted, and the agent is invoked without
  bound, each time with the same request.
\<close>

theorem oversized_output_reruns_agent:
  assumes "k8s_strict R stored stored_cm up limit" and "up (w_cluster w)" and "stored (w_cluster w) k = Some p" and "alive p"
    and "working_on p stage i" and "st_Phase (cur_status p i) = StagePending" and "distinct (map sp_Name (p_stages p))"
    and "stored_cm (w_cluster w) (output_key p stage) = None"
    and "outputs_kept (output_at stored_cm (w_cluster w) (p_ns p)) p"
    and "RenderPrompt R stage (stage_context (output_at stored_cm (w_cluster w) (p_ns p)) p i) = Inr prompt"
    and "answers_too_large R limit (run_request p stage prompt)"
  shows "stored (w_cluster (passes R w (replicate n k))) = stored (w_cluster w) \<and>
    w_calls (passes R w (replicate n k)) = w_calls w @ replicate n (run_request p stage prompt)"
proof -
  have "unstorable R limit p stage (run_request p stage prompt)"
    using assms(11) by (auto simp: unstorable_def answers_too_large_def)
  from k8s_strict.passes_unstorable [OF assms(1,4-7) this assms(2,3,8-10)] show ?thesis .
qed

theorem oversized_output_reruns_agent_witness:
  "\<forall>n. length (w_calls (passes (mem_env 5 (flaky_run 0)) (demo_world half_cluster 0) (replicate n demo_key))) = n"
proof
  fix n
  let ?R = "mem_env 5 (flaky_run 0)" and ?req = "run_request half_way fix_stage ''fix found''"
  have prompt: "RenderPrompt ?R fix_stage \<lparr>pc_PreviousOutput = ''found'', pc_Inputs = [], pc_stageOutputs = Some [''scan'' \<mapsto> ''found'']\<rparr>
      = Inr ''fix found''"
    using frag.run_PreviousOutput [of "''fix ''" "''''"] by (simp add: RenderPrompt_def demo_stage_def mem_env_def HasPrefix_def)
  have big: "answers_too_large ?R 5 ?req"
    by (simp add: answers_too_large_def mem_env_def flaky_run_def run_request_def configMapDataKey_def)
  show "length (w_calls (passes ?R (demo_world half_cluster 0) (replicate n demo_key))) = n"
    using oversized_output_reruns_agent [OF mem_strict.k8s_strict_axioms _ _ _ half_way_working half_way_pending(2,1) _ _ _ big,
        of "demo_world half_cluster 0" demo_key n] prompt half_way_context half_way_kept half_cluster_outputs
    by (simp add: half_way_pending outputConfigMapName_def demo_stage_def) (simp add: demo_world_def)
qed

end
