(* ===== verification/Json.thy ===== *)
theory Json
  imports Go_Std
begin

text \<open>
  What the runner uses of Go's \<open>encoding/json\<close>: the parser (syntax check and string
  unquoting in one, including the limit of 10000 nested values), the decoding of values into the
  fields of a struct (field names compared up to case, null leaves a field alone, a pointer or
  slice that is decoded twice is reused), and the encoding of strings.

  A value that does not fit the type of its field makes \<open>Unmarshal\<close> return an error;
  the decoders return \<open>None\<close> for it. The parser takes fuel;
  \<open>parse_fuel_enough\<close> shows that the fuel \<open>json_parse\<close> gives it never
  runs out.
\<close>

section \<open>UTF-8 encoding\<close>

definition encode_rune :: "nat \<Rightarrow> string" where
  "encode_rune r =
     (if r < 0x80 then [char_of r]
      else if r < 0x800 then [char_of (0xC0 + r div 64), char_of (0x80 + r mod 64)]
      else if r < 0x10000 then
        [char_of (0xE0 + r div 4096), char_of (0x80 + r div 64 mod 64), char_of (0x80 + r mod 64)]
      else [char_of (0xF0 + r div 262144), char_of (0x80 + r div 4096 mod 64),
            char_of (0x80 + r div 64 mod 64), char_of (0x80 + r mod 64)])"

definition rune_error :: string where "rune_error = encode_rune 0xFFFD"

text \<open>Every invalid byte replaced by the replacement character.\<close>

function sanitize :: "string \<Rightarrow> string" where
  "sanitize [] = []"
| "sanitize (a # s) =
     (case decode_rune (a # s) of
        None \<Rightarrow> rune_error @ sanitize s
      | Some (r, k) \<Rightarrow> take k (a # s) @ sanitize (drop k (a # s)))"
  by pat_completeness auto
termination
  by (relation "measure length") (auto dest!: decode_rune_width simp del: decode_rune.simps)

function valid_utf8 :: "string \<Rightarrow> bool" where
  "valid_utf8 [] = True"
| "valid_utf8 (a # s) =
     (case decode_rune (a # s) of None \<Rightarrow> False | Some (r, k) \<Rightarrow> valid_utf8 (drop k (a # s)))"
  by pat_completeness auto
termination
  by (relation "measure length") (auto dest!: decode_rune_width simp del: decode_rune.simps)

section \<open>Values\<close>

datatype json =
    JNull
  | JBool bool
  | JNum string   \<comment> \<open>the literal\<close>
  | JStr string
  | JArr "json list"
  | JObj "(string \<times> json) list"

section \<open>Strings\<close>

definition hex_val :: "char \<Rightarrow> nat option" where
  "hex_val c =
     (if byte_in 48 57 c then Some (of_char c - 48)
      else if byte_in 97 102 c then Some (of_char c - 87)
      else if byte_in 65 70 c then Some (of_char c - 55) else None)"

text \<open>The four digits after \<open>\u\<close>, and what follows them.\<close>

fun hex4 :: "string \<Rightarrow> (nat \<times> string) option" where
  "hex4 (a # b # c # d # s) =
     (case (hex_val a, hex_val b, hex_val c, hex_val d) of
        (Some w, Some x, Some y, Some z) \<Rightarrow> Some (((w * 16 + x) * 16 + y) * 16 + z, s)
      | _ \<Rightarrow> None)"
| "hex4 _ = None"

definition low_surrogate :: "string \<Rightarrow> (nat \<times> string) option" where
  "low_surrogate s =
     (case s of
        b # u # t \<Rightarrow>
          if b = CHR 0x5C \<and> u = CHR ''u'' then
            (case hex4 t of
               Some (r, v) \<Rightarrow> if 0xDC00 \<le> r \<and> r < 0xE000 then Some (r, v) else None
             | None \<Rightarrow> None)
          else None
      | _ \<Rightarrow> None)"

text \<open>The text of a \<open>\u\<close> escape: a surrogate pair is one code point, a lone surrogate an error.\<close>

definition unicode_escape :: "string \<Rightarrow> (string \<times> string) option" where
  "unicode_escape s =
     (case hex4 s of
        None \<Rightarrow> None
      | Some (r, t) \<Rightarrow>
          if 0xD800 \<le> r \<and> r < 0xE000 then
            (case (if r < 0xDC00 then low_surrogate t else None) of
               Some (r2, u) \<Rightarrow> Some (encode_rune (0x10000 + (r - 0xD800) * 1024 + (r2 - 0xDC00)), u)
             | None \<Rightarrow> Some (rune_error, t))
          else Some (encode_rune r, t))"

definition simple_escape :: "char \<Rightarrow> char option" where
  "simple_escape c =
     (if c = CHR 0x22 \<or> c = CHR 0x5C \<or> c = CHR ''/'' then Some c
      else if c = CHR ''b'' then Some (CHR 0x08) else if c = CHR ''f'' then Some (CHR 0x0C)
      else if c = CHR ''n'' then Some (CHR 0x0A) else if c = CHR ''r'' then Some (CHR 0x0D)
      else if c = CHR ''t'' then Some (CHR 0x09) else None)"

text \<open>One element of a string literal: its decoded text and the rest.\<close>

definition str_item :: "string \<Rightarrow> (string \<times> string) option" where
  "str_item s =
     (case s of
        [] \<Rightarrow> None
      | c # t \<Rightarrow>
          if c = CHR 0x5C then
            (case t of
               [] \<Rightarrow> None
             | e # u \<Rightarrow>
                 if e = CHR ''u'' then unicode_escape u
                 else map_option (\<lambda>x. ([x], u)) (simple_escape e))
          else if (of_char c :: nat) < 32 then None
          else (case decode_rune s of
                  None \<Rightarrow> Some (rune_error, t)
                | Some (r, k) \<Rightarrow> Some (take k s, drop k s)))"

lemma hex4_length: "hex4 s = Some (r, t) \<Longrightarrow> length t < length s"
  by (cases s rule: hex4.cases) (auto split: option.splits)

lemma low_surrogate_length: "low_surrogate s = Some (r, t) \<Longrightarrow> length t < length s"
  by (auto simp: low_surrogate_def split: list.splits if_splits option.splits dest!: hex4_length)

lemma unicode_escape_length: "unicode_escape s = Some (x, t) \<Longrightarrow> length t < length s"
  by (auto simp: unicode_escape_def split: option.splits if_splits
      dest!: hex4_length low_surrogate_length)

lemma str_item_length: "str_item s = Some (x, t) \<Longrightarrow> length t < length s"
  by (auto simp: str_item_def simp del: decode_rune.simps split: list.splits if_splits option.splits
      dest!: unicode_escape_length decode_rune_width)

text \<open>The rest of a literal after its opening quote: the decoded string and what follows.\<close>

function str_body :: "string \<Rightarrow> (string \<times> string) option" where
  "str_body s =
     (if s \<noteq> [] \<and> hd s = CHR 0x22 then Some ([], tl s)
      else (case str_item s of
              None \<Rightarrow> None
            | Some (x, t) \<Rightarrow> map_option (\<lambda>(y, u). (x @ y, u)) (str_body t)))"
  by pat_completeness auto
termination
  by (relation "measure length") (auto dest!: str_item_length)

declare str_body.simps [simp del]

lemma str_body_quote [simp]: "str_body (CHR 0x22 # s) = Some ([], s)"
  by (simp add: str_body.simps [of "CHR 0x22 # s"])

lemma str_body_length: "str_body s = Some (x, t) \<Longrightarrow> length t < length s"
proof (induction s arbitrary: x rule: str_body.induct)
  case (1 s)
  show ?case
  proof (cases "s \<noteq> [] \<and> hd s = CHR 0x22")
    case True
    then show ?thesis using 1(2) by (cases s) auto
  next
    case False
    then obtain a v y where "str_item s = Some (a, v)" "str_body v = Some (y, t)"
      using 1(2) by (auto simp: str_body.simps [of s] split: option.splits)
    then show ?thesis using 1(1) [OF False] str_item_length by fastforce
  qed
qed

section \<open>Numbers\<close>

definition is_digit :: "char \<Rightarrow> bool" where "is_digit c \<longleftrightarrow> byte_in 48 57 c"

text \<open>Digits, at least one.\<close>

definition digits1 :: "string \<Rightarrow> (string \<times> string) option" where
  "digits1 s = (let d = takeWhile is_digit s in if d = [] then None else Some (d, drop (length d) s))"

definition int_part :: "string \<Rightarrow> (string \<times> string) option" where
  "int_part s = (case s of
      [] \<Rightarrow> None
    | c # t \<Rightarrow> if c = CHR ''0'' then Some ([c], t) else digits1 s)"

definition frac_part :: "string \<Rightarrow> (string \<times> string) option" where
  "frac_part s = (case s of
      [] \<Rightarrow> Some ([], s)
    | c # t \<Rightarrow> if c = CHR ''.'' then map_option (\<lambda>(d, u). (c # d, u)) (digits1 t) else Some ([], s))"

definition exp_part :: "string \<Rightarrow> (string \<times> string) option" where
  "exp_part s = (case s of
      [] \<Rightarrow> Some ([], s)
    | c # t \<Rightarrow>
        if c = CHR ''e'' \<or> c = CHR ''E'' then
          (case t of
             g # u \<Rightarrow>
               if g = CHR ''+'' \<or> g = CHR ''-'' then map_option (\<lambda>(d, v). (c # g # d, v)) (digits1 u)
               else map_option (\<lambda>(d, v). (c # d, v)) (digits1 t)
           | [] \<Rightarrow> None)
        else Some ([], s))"

definition sign_part :: "string \<Rightarrow> string \<times> string" where
  "sign_part s = (case s of [] \<Rightarrow> ([], s) | c # u \<Rightarrow> if c = CHR ''-'' then ([c], u) else ([], s))"

definition scan_number :: "string \<Rightarrow> (string \<times> string) option" where
  "scan_number s =
     (let (sg, t) = sign_part s in
      case int_part t of
        None \<Rightarrow> None
      | Some (i, u) \<Rightarrow>
          (case frac_part u of
             None \<Rightarrow> None
           | Some (f, v) \<Rightarrow>
               (case exp_part v of None \<Rightarrow> None | Some (e, w) \<Rightarrow> Some (sg @ i @ f @ e, w))))"

lemma digits1_length: "digits1 s = Some (d, t) \<Longrightarrow> length t < length s"
proof -
  assume "digits1 s = Some (d, t)"
  then have "takeWhile is_digit s \<noteq> []" "t = drop (length (takeWhile is_digit s)) s"
    by (auto simp: digits1_def Let_def split: if_splits)
  then show ?thesis by (cases s) auto
qed

lemma scan_number_length: "scan_number s = Some (d, t) \<Longrightarrow> length t < length s"
proof -
  assume *: "scan_number s = Some (d, t)"
  obtain sg u where su: "sign_part s = (sg, u)" by fastforce
  then have u: "length u \<le> length s" by (auto simp: sign_part_def split: list.splits if_splits)
  obtain i v f w e where i: "int_part u = Some (i, v)"
    and f: "frac_part v = Some (f, w)" and e: "exp_part w = Some (e, t)"
    using * su by (auto simp: scan_number_def split: option.splits)
  have "length v < length u"
    using i by (auto simp: int_part_def split: list.splits if_splits dest!: digits1_length)
  moreover have "length w \<le> length v"
    using f by (auto simp: frac_part_def split: list.splits if_splits dest!: digits1_length)
  moreover have "length t \<le> length w"
    using e by (auto simp: exp_part_def split: list.splits if_splits dest!: digits1_length)
  ultimately show ?thesis using u by simp
qed

section \<open>The parser\<close>

definition is_ws :: "char \<Rightarrow> bool" where
  "is_ws c \<longleftrightarrow> c = CHR '' '' \<or> c = CHR 0x09 \<or> c = CHR 0x0D \<or> c = CHR 0x0A"

abbreviation ws :: "string \<Rightarrow> string" where "ws \<equiv> dropWhile is_ws"

datatype 'a pres = POk 'a string | PErr | PFuel

text \<open>A value that is neither an array nor an object.\<close>

definition parse_scalar :: "string \<Rightarrow> json pres" where
  "parse_scalar s =
     (if s \<noteq> [] \<and> hd s = CHR 0x22 then
        (case str_body (tl s) of None \<Rightarrow> PErr | Some (x, t) \<Rightarrow> POk (JStr x) t)
      else if HasPrefix s ''true'' then POk (JBool True) (drop 4 s)
      else if HasPrefix s ''false'' then POk (JBool False) (drop 5 s)
      else if HasPrefix s ''null'' then POk JNull (drop 4 s)
      else (case scan_number s of None \<Rightarrow> PErr | Some (l, t) \<Rightarrow> POk (JNum l) t))"

text \<open>A member's name and the colon after it.\<close>

definition parse_key :: "string \<Rightarrow> (string \<times> string) option" where
  "parse_key s =
     (let t = ws s in
      if t \<noteq> [] \<and> hd t = CHR 0x22 then
        (case str_body (tl t) of
           None \<Rightarrow> None
         | Some (x, u) \<Rightarrow>
             (let v = ws u in if v \<noteq> [] \<and> hd v = CHR '':'' then Some (x, tl v) else None))
      else None)"

definition starts :: "char \<Rightarrow> string \<Rightarrow> bool" where
  "starts c s \<longleftrightarrow> s \<noteq> [] \<and> hd s = c"

text \<open>The first argument is fuel, the second the number of levels that may still be opened.\<close>

fun parse_value :: "nat \<Rightarrow> int \<Rightarrow> string \<Rightarrow> json pres"
  and parse_elems :: "nat \<Rightarrow> int \<Rightarrow> string \<Rightarrow> json list \<Rightarrow> json pres"
  and parse_members :: "nat \<Rightarrow> int \<Rightarrow> string \<Rightarrow> (string \<times> json) list \<Rightarrow> json pres" where
  "parse_value 0 d s = PFuel"
| "parse_value (Suc n) d s =
     (let t = ws s in
      if starts (CHR ''['') t then
        (if d \<le> 0 then PErr
         else if starts (CHR '']'') (ws (tl t)) then POk (JArr []) (tl (ws (tl t)))
         else parse_elems n (d - 1) (tl t) [])
      else if starts (CHR ''{'') t then
        (if d \<le> 0 then PErr
         else if starts (CHR ''}'') (ws (tl t)) then POk (JObj []) (tl (ws (tl t)))
         else parse_members n (d - 1) (tl t) [])
      else parse_scalar t)"
| "parse_elems 0 d s acc = PFuel"
| "parse_elems (Suc n) d s acc =
     (case parse_value n d s of
        POk v u \<Rightarrow>
          (let t = ws u in
           if starts (CHR '','') t then parse_elems n d (tl t) (v # acc)
           else if starts (CHR '']'') t then POk (JArr (rev (v # acc))) (tl t)
           else PErr)
      | PErr \<Rightarrow> PErr
      | PFuel \<Rightarrow> PFuel)"
| "parse_members 0 d s acc = PFuel"
| "parse_members (Suc n) d s acc =
     (case parse_key s of
        None \<Rightarrow> PErr
      | Some (k, r) \<Rightarrow>
          (case parse_value n d r of
             POk v u \<Rightarrow>
               (let t = ws u in
                if starts (CHR '','') t then parse_members n d (tl t) ((k, v) # acc)
                else if starts (CHR ''}'') t then POk (JObj (rev ((k, v) # acc))) (tl t)
                else PErr)
           | PErr \<Rightarrow> PErr
           | PFuel \<Rightarrow> PFuel))"

definition maxNestingDepth :: int where "maxNestingDepth = 10000"

definition json_parse :: "string \<Rightarrow> json option" where
  "json_parse s =
     (case parse_value (2 * length s + 1) maxNestingDepth s of
        POk v t \<Rightarrow> if ws t = [] then Some v else None
      | _ \<Rightarrow> None)"

section \<open>The fuel is enough\<close>

lemma ws_length: "length (ws s) \<le> length s"
  by (rule length_dropWhile_le)

lemma starts_tl_length: "starts c t \<Longrightarrow> length (tl t) < length t"
  by (cases t) (auto simp: starts_def)

lemma starts_ws_tl: "starts c (ws s) \<Longrightarrow> length (tl (ws s)) < length s"
  using starts_tl_length [of c "ws s"] ws_length [of s] by simp

lemma parse_scalar_length: "parse_scalar s = POk v t \<Longrightarrow> length t < length s"
  by (cases s) (auto simp: parse_scalar_def HasPrefix_def split: if_splits option.splits
      dest!: str_body_length scan_number_length)

lemma parse_scalar_fuel: "parse_scalar s \<noteq> PFuel"
  by (auto simp: parse_scalar_def split: option.splits)

lemma parse_key_length:
  assumes "parse_key s = Some (k, t)"
  shows "length t < length s"
proof -
  define a where "a = ws s"
  have "a \<noteq> []" "length a \<le> length s" using assms ws_length [of s]
    by (auto simp: parse_key_def a_def Let_def split: if_splits)
  moreover obtain u where "str_body (tl a) = Some (k, u)" "length t < length u"
    using assms ws_length starts_ws_tl unfolding parse_key_def a_def [symmetric] Let_def starts_def
    by (force split: if_splits option.splits)
  ultimately show ?thesis using str_body_length [of "tl a" k u] by simp
qed

lemma parse_shorter:
  "parse_value n d s = POk v t \<Longrightarrow> length t < length s"
  "parse_elems n d s acc = POk v t \<Longrightarrow> length t < length s"
  "parse_members n d s mem = POk v t \<Longrightarrow> length t < length s"
proof (induction n d s and n d s acc and n d s mem arbitrary: v t and v t and v t
    rule: parse_value_parse_elems_parse_members.induct)
  case (2 n d s)
  have w: "length (ws s) \<le> length s" by (rule ws_length)
  have e: "starts c (ws (tl (ws s))) \<Longrightarrow> length (tl (ws (tl (ws s)))) < length s" for c
    using starts_ws_tl [of c "tl (ws s)"] w by simp
  show ?case
    using 2 w e starts_ws_tl [of _ s] parse_scalar_length [of "ws s"]
    by (fastforce simp: Let_def split: if_splits)
next
  case (4 n d s acc)
  obtain x u where x: "parse_value n d s = POk x u"
    using 4(3) by (auto split: pres.splits)
  have "length u < length s" using 4(1) x .
  then show ?case
    using 4(2) [OF x refl] 4(3) x starts_ws_tl [of _ u] by (fastforce simp: Let_def split: if_splits)
next
  case (6 n d s mem)
  obtain k r x u where k: "parse_key s = Some (k, r)" and x: "parse_value n d r = POk x u"
    using 6(3) by (auto split: pres.splits option.splits)
  have "length u < length r" using 6(1) [OF k refl x] .
  then have "length u < length s" using parse_key_length [OF k] by simp
  then show ?case
    using 6(2) [OF k refl x refl] 6(3) k x starts_ws_tl [of _ u] by (fastforce simp: Let_def split: if_splits)
qed simp_all

lemma parse_fuel_enough:
  "2 * length s < n \<Longrightarrow> parse_value n d s \<noteq> PFuel"
  "2 * length s + 1 < n \<Longrightarrow> parse_elems n d s acc \<noteq> PFuel"
  "2 * length s + 1 < n \<Longrightarrow> parse_members n d s mem \<noteq> PFuel"
proof (induction n d s and n d s acc and n d s mem rule: parse_value_parse_elems_parse_members.induct)
  case (2 n d s)
  have "starts c (ws s) \<Longrightarrow> 2 * length (tl (ws s)) + 1 < n" for c
    using starts_ws_tl [of c s] 2(3) by simp
  then show ?case using 2(1,2) parse_scalar_fuel by (auto simp: Let_def)
next
  case (4 n d s acc)
  have v: "parse_value n d s \<noteq> PFuel" using 4(1,3) by simp
  have "starts c (ws u) \<Longrightarrow> 2 * length (tl (ws u)) + 1 < n" if "parse_value n d s = POk x u" for c x u
    using starts_ws_tl [of c u] parse_shorter(1) [OF that] 4(3) by simp
  then show ?case using v 4(2) by (auto simp: Let_def split: pres.splits)
next
  case (6 n d s mem)
  have v: "parse_value n d r \<noteq> PFuel" if "parse_key s = Some (k, r)" for k r
    using 6(1) [OF that refl] parse_key_length [OF that] 6(3) by simp
  have "starts c (ws u) \<Longrightarrow> 2 * length (tl (ws u)) + 1 < n"
    if "parse_key s = Some (k, r)" "parse_value n d r = POk x u" for c k r x u
    using starts_ws_tl [of c u] parse_shorter(1) [OF that(2)] parse_key_length [OF that(1)] 6(3) by simp
  then show ?case using v 6(2) by (auto simp: Let_def split: pres.splits option.splits)
qed simp_all

section \<open>Decoding into Go values\<close>

text \<open>
  Field names match a key up to case folding. The names used here are ASCII, so besides the
  ASCII letters only the two other code points that fold to one count: U+017F (long s) and
  U+212A (Kelvin sign).
\<close>

definition lower :: "char \<Rightarrow> char" where
  "lower c = (if byte_in 65 90 c then char_of (of_char c + 32 :: nat) else c)"

fun fold_key :: "string \<Rightarrow> string" where
  "fold_key (a # b # c # s) =
     (if a = CHR 0xE2 \<and> b = CHR 0x84 \<and> c = CHR 0xAA then CHR ''k'' # fold_key s
      else if a = CHR 0xC5 \<and> b = CHR 0xBF then CHR ''s'' # fold_key (c # s)
      else lower a # fold_key (b # c # s))"
| "fold_key [a, b] = (if a = CHR 0xC5 \<and> b = CHR 0xBF then ''s'' else [lower a, lower b])"
| "fold_key [a] = [lower a]"
| "fold_key [] = []"

definition is_field :: "string \<Rightarrow> string \<Rightarrow> bool" where
  "is_field k name \<longleftrightarrow> fold_key k = fold_key name"

text \<open>
  Decoders take the value the field has and return the value after decoding; \<open>None\<close> is a
  type error. A slice is its backing array and its length: decoding reuses the elements of the
  backing array that are there.
\<close>

type_synonym 'a slice = "'a list \<times> nat"

abbreviation nil_slice :: "'a slice" where "nil_slice \<equiv> ([], 0)"

definition elems :: "'a slice \<Rightarrow> 'a list" where
  "elems xs = take (snd xs) (fst xs)"

definition decode_string :: "string \<Rightarrow> json \<Rightarrow> string option" where
  "decode_string cur v = (case v of JStr x \<Rightarrow> Some x | JNull \<Rightarrow> Some cur | _ \<Rightarrow> None)"

fun digits_val :: "int \<Rightarrow> string \<Rightarrow> int" where
  "digits_val n [] = n"
| "digits_val n (c # s) = digits_val (10 * n + int (of_char c - 48)) s"

text \<open>\<open>strconv.ParseInt(lit, 10, 64)\<close> on a number literal.\<close>

definition parse_int64 :: "string \<Rightarrow> int option" where
  "parse_int64 lit =
     (let (sg, ds) = sign_part lit;
          n = (if sg = [] then digits_val 0 ds else - digits_val 0 ds)
      in if ds \<noteq> [] \<and> list_all is_digit ds \<and> - (2 ^ 63) \<le> n \<and> n < 2 ^ 63 then Some n else None)"

definition decode_int :: "int \<Rightarrow> json \<Rightarrow> int option" where
  "decode_int cur v = (case v of JNum l \<Rightarrow> parse_int64 l | JNull \<Rightarrow> Some cur | _ \<Rightarrow> None)"

fun decode_list :: "('a \<Rightarrow> json \<Rightarrow> 'a option) \<Rightarrow> 'a \<Rightarrow> 'a list \<Rightarrow> json list \<Rightarrow> 'a list option" where
  "decode_list dec zero back [] = Some back"
| "decode_list dec zero back (v # vs) =
     (case dec (if back = [] then zero else hd back) v of
        None \<Rightarrow> None
      | Some x \<Rightarrow> map_option (\<lambda>xs. x # xs) (decode_list dec zero (tl back) vs))"

definition decode_slice :: "('a \<Rightarrow> json \<Rightarrow> 'a option) \<Rightarrow> 'a \<Rightarrow> 'a slice \<Rightarrow> json \<Rightarrow> 'a slice option" where
  "decode_slice dec zero cur v =
     (case v of
        JNull \<Rightarrow> Some nil_slice
      | JArr vs \<Rightarrow>
          if vs = [] then Some nil_slice
          else map_option (\<lambda>b. (b, length vs)) (decode_list dec zero (fst cur) vs)
      | _ \<Rightarrow> None)"

definition decode_ptr :: "('a \<Rightarrow> json \<Rightarrow> 'a option) \<Rightarrow> 'a \<Rightarrow> 'a option \<Rightarrow> json \<Rightarrow> 'a option option" where
  "decode_ptr dec zero cur v =
     (if v = JNull then Some None
      else map_option Some (dec (case cur of None \<Rightarrow> zero | Some x \<Rightarrow> x) v))"

text \<open>A struct: the members in order, each to the field it names.\<close>

fun decode_fields :: "(string \<Rightarrow> 'a \<Rightarrow> json \<Rightarrow> 'a option) \<Rightarrow> 'a \<Rightarrow> (string \<times> json) list \<Rightarrow> 'a option" where
  "decode_fields fld cur [] = Some cur"
| "decode_fields fld cur ((k, v) # rest) =
     (case fld k cur v of None \<Rightarrow> None | Some x \<Rightarrow> decode_fields fld x rest)"

definition decode_struct :: "(string \<Rightarrow> 'a \<Rightarrow> json \<Rightarrow> 'a option) \<Rightarrow> 'a \<Rightarrow> json \<Rightarrow> 'a option" where
  "decode_struct fld cur v =
     (case v of JObj ms \<Rightarrow> decode_fields fld cur ms | JNull \<Rightarrow> Some cur | _ \<Rightarrow> None)"

section \<open>Encoding strings\<close>

text \<open>\<open>json.Marshal\<close> of a string, with the escapes for HTML it uses by default.\<close>

definition html_safe :: "char \<Rightarrow> bool" where
  "html_safe c \<longleftrightarrow> byte_in 0x20 0x7F c \<and> c \<noteq> CHR 0x22 \<and> c \<noteq> CHR 0x5C \<and> c \<noteq> CHR ''<'' \<and> c \<noteq> CHR ''>''
     \<and> c \<noteq> CHR ''&''"

definition u_escape :: "nat \<Rightarrow> string" where
  "u_escape r = [CHR 0x5C, CHR ''u''] @ hex_digits 4 r"

definition escape_byte :: "char \<Rightarrow> string" where
  "escape_byte c =
     (if c = CHR 0x22 \<or> c = CHR 0x5C then [CHR 0x5C, c]
      else if c = CHR 0x08 then [CHR 0x5C, CHR ''b''] else if c = CHR 0x0C then [CHR 0x5C, CHR ''f'']
      else if c = CHR 0x0A then [CHR 0x5C, CHR ''n''] else if c = CHR 0x0D then [CHR 0x5C, CHR ''r'']
      else if c = CHR 0x09 then [CHR 0x5C, CHR ''t''] else u_escape (of_char c))"

function json_body :: "string \<Rightarrow> string" where
  "json_body [] = []"
| "json_body (a # s) =
     (if (of_char a :: nat) < 0x80 then (if html_safe a then [a] else escape_byte a) @ json_body s
      else (case decode_rune (a # s) of
              None \<Rightarrow> u_escape 0xFFFD @ json_body s
            | Some (r, k) \<Rightarrow>
                (if r = 0x2028 \<or> r = 0x2029 then u_escape r else take k (a # s))
                @ json_body (drop k (a # s))))"
  by pat_completeness auto
termination
  by (relation "measure length") (auto dest!: decode_rune_width simp del: decode_rune.simps)

definition json_string :: "string \<Rightarrow> string" where
  "json_string s = [CHR 0x22] @ json_body s @ [CHR 0x22]"

section \<open>Evaluation\<close>

text \<open>Code equations that compare bytes as integers.\<close>

lemma of_char_nat_int: "(of_char c :: int) = int (of_char c)"
  by (simp add: of_nat_of_char)

lemma lower_code [code]:
  "lower c = (let n = of_char c :: int in if 65 \<le> n \<and> n \<le> 90 then char_of (n + 32) else c)"
proof -
  have "char_of (int (of_char c) + 32) = (char_of (of_char c + 32 :: nat) :: char)"
    by (metis char_of_nat of_nat_add of_nat_numeral)
  then show ?thesis by (simp add: lower_def byte_in_def of_char_nat_int Let_def)
qed

lemma is_digit_code [code]: "is_digit c \<longleftrightarrow> (let n = of_char c :: int in 48 \<le> n \<and> n \<le> 57)"
  by (simp add: is_digit_def byte_in_def of_char_nat_int Let_def)

lemma html_safe_code [code]: "html_safe c \<longleftrightarrow> (let n = of_char c :: int in 32 \<le> n \<and> n < 128) \<and>
   c \<noteq> CHR 0x22 \<and> c \<noteq> CHR 0x5C \<and> c \<noteq> CHR ''<'' \<and> c \<noteq> CHR ''>'' \<and> c \<noteq> CHR ''&''"
  by (auto simp: html_safe_def byte_in_def of_char_nat_int Let_def)

lemma str_item_code [code]:
  "str_item s =
     (case s of
        [] \<Rightarrow> None
      | c # t \<Rightarrow>
          if c = CHR 0x5C then
            (case t of
               [] \<Rightarrow> None
             | e # u \<Rightarrow>
                 if e = CHR ''u'' then unicode_escape u
                 else map_option (\<lambda>x. ([x], u)) (simple_escape e))
          else if (of_char c :: int) < 32 then None
          else if (of_char c :: int) < 128 then Some ([c], t)
          else (case decode_rune s of
                  None \<Rightarrow> Some (rune_error, t)
                | Some (r, k) \<Rightarrow> Some (take k s, drop k s)))"
  by (cases s) (auto simp: str_item_def of_char_nat_int Let_def)

lemma json_body_code [code]:
  "json_body [] = []"
  "json_body (a # s) =
     (if html_safe a then a # json_body s
      else if (of_char a :: int) < 128 then escape_byte a @ json_body s
      else (case decode_rune (a # s) of
              None \<Rightarrow> u_escape 0xFFFD @ json_body s
            | Some (r, k) \<Rightarrow>
                (if r = 0x2028 \<or> r = 0x2029 then u_escape r else take k (a # s))
                @ json_body (drop k (a # s))))"
proof -
  have "html_safe a \<Longrightarrow> (of_char a :: nat) < 0x80" by (auto simp: html_safe_def byte_in_def)
  then show "json_body (a # s) =
     (if html_safe a then a # json_body s
      else if (of_char a :: int) < 128 then escape_byte a @ json_body s
      else (case decode_rune (a # s) of
              None \<Rightarrow> u_escape 0xFFFD @ json_body s
            | Some (r, k) \<Rightarrow>
                (if r = 0x2028 \<or> r = 0x2029 then u_escape r else take k (a # s))
                @ json_body (drop k (a # s))))"
    by (simp add: of_char_nat_int)
qed simp
section \<open>A string survives encoding and parsing\<close>

lemma char_of_of_char [simp]: "char_of (of_char c :: nat) = c"
  by (rule char_of_char)

lemma hex_val_hex_char: "d < 16 \<Longrightarrow> hex_val (hex_char d) = Some d"
  by (simp add: hex_val_def hex_char_def byte_in_def)

lemma div_mod_digit:
  fixes q :: nat
  assumes "z < k"
  shows "(q * k + z) div k = q" "(q * k + z) mod k = z"
  using assms by simp_all

lemma mod_range:
  fixes n :: nat
  assumes "j * k \<le> n" and "n < j * k + k"
  shows "n = j * k + n mod k"
proof -
  obtain m where m: "n = j * k + m" using assms(1) le_Suc_ex by blast
  then have "m < k" using assms(2) by simp
  then show ?thesis using div_mod_digit(2) [of m k j] m by simp
qed

lemma hex4_digits:
  assumes "r < 0x10000"
  shows "hex4 (hex_digits 4 r @ t) = Some (r, t)"
proof -
  have four: "4 = Suc (Suc (Suc (Suc 0)))" by simp
  have d: "hex_digits 4 r = [hex_char (r div 16 div 16 div 16 mod 16), hex_char (r div 16 div 16 mod 16),
      hex_char (r div 16 mod 16), hex_char (r mod 16)]"
    unfolding four hex_digits.simps by simp
  have lt: "r div 16 div 16 div 16 < 16" using assms by (simp add: less_mult_imp_div_less div_mult2_eq [symmetric])
  have "((r div 16 div 16 div 16 * 16 + r div 16 div 16 mod 16) * 16 + r div 16 mod 16) * 16 + r mod 16 = r"
    by (simp only: div_mult_mod_eq)
  then show ?thesis using lt by (simp add: d hex_val_hex_char del: div_mult2_eq)
qed

lemma low6_less: "low6 c < 64"
  by (simp add: low6_def)

lemma of_char_eqI: "(of_char c :: nat) = n \<Longrightarrow> char_of n = c"
  by (metis char_of_of_char)

lemma cont_byte:
  assumes "byte_in lo hi c" and "0x80 \<le> lo" and "hi \<le> 0xBF"
  shows "char_of (0x80 + low6 c) = c"
proof (rule of_char_eqI)
  have "0x80 \<le> (of_char c :: nat)" "(of_char c :: nat) \<le> 0xBF" using assms by (auto simp: byte_in_def)
  then show "(of_char c :: nat) = 0x80 + low6 c" using mod_range [of 2 64 "of_char c"] by (simp add: low6_def)
qed

lemma encode2:
  assumes "0xC2 \<le> (of_char a :: nat)" "(of_char a :: nat) \<le> 0xDF" "byte_in 0x80 0xBF b"
  shows "encode_rune ((of_char a mod 32) * 64 + low6 b) = [a, b]"
proof -
  define x where "x = (of_char a :: nat) mod 32"
  define y where "y = low6 b"
  have y: "y < 64" and b: "char_of (0x80 + y) = b"
    using low6_less cont_byte [OF assms(3)] by (simp_all add: y_def)
  have a: "(of_char a :: nat) = 0xC0 + x" using mod_range [of 6 32 "of_char a"] assms(1,2) by (simp add: x_def)
  have x: "2 \<le> x" "x < 32" using a assms(1) by (simp_all add: x_def)
  have "(x * 64 + y) div 64 = x" "(x * 64 + y) mod 64 = y" "0x80 \<le> x * 64 + y" "x * 64 + y < 0x800"
    using x y by simp_all
  then show ?thesis
    unfolding encode_rune_def x_def [symmetric] y_def [symmetric] using b of_char_eqI [OF a] by simp
qed

lemma encode3:
  assumes "0xE0 \<le> (of_char a :: nat)" "(of_char a :: nat) \<le> 0xEF"
    and "byte_in lo hi b" "(if of_char a = (0xE0 :: nat) then 0xA0 else 0x80) \<le> lo" "hi \<le> 0xBF" "byte_in 0x80 0xBF c"
  shows "encode_rune ((of_char a mod 16) * 4096 + low6 b * 64 + low6 c) = [a, b, c]"
proof -
  define x where "x = (of_char a :: nat) mod 16"
  define y where "y = low6 b"
  define z where "z = low6 c"
  have lo: "0x80 \<le> lo" using assms(4) by (simp split: if_splits)
  have y: "y < 64" "z < 64" and bc: "char_of (0x80 + y) = b" "char_of (0x80 + z) = c"
    using low6_less cont_byte [OF assms(3) lo assms(5)] cont_byte [OF assms(6)] by (simp_all add: y_def z_def)
  have x: "x < 16" and a: "(of_char a :: nat) = 0xE0 + x"
    using mod_range [of 14 16 "of_char a"] assms(1,2) by (simp_all add: x_def)
  have big: "x = 0 \<Longrightarrow> 32 \<le> y"
  proof -
    assume "x = 0"
    then have "0xA0 \<le> (of_char b :: nat)" "(of_char b :: nat) \<le> 0xBF"
      using a assms(3-5) by (auto simp: byte_in_def)
    then show "32 \<le> y" using mod_range [of 2 64 "of_char b"] by (simp add: y_def low6_def)
  qed
  let ?r = "x * 4096 + y * 64 + z"
  have r: "?r = (x * 64 + y) * 64 + z" by simp
  have d: "?r div 64 = x * 64 + y" "?r mod 64 = z" unfolding r by (rule div_mod_digit [OF y(2)])+
  have "?r div 4096 = ?r div 64 div 64" by (simp add: div_mult2_eq [symmetric])
  then have "?r div 4096 = x" "?r div 64 mod 64 = y" "?r mod 64 = z" "?r < 0x10000" using d x y by simp_all
  moreover have "0x800 \<le> x * 4096 + y * 64 + z" using big by (cases "x = 0") auto
  ultimately show ?thesis
    unfolding encode_rune_def x_def [symmetric] y_def [symmetric] z_def [symmetric]
    using bc of_char_eqI [OF a] by simp
qed

lemma encode4:
  assumes "0xF0 \<le> (of_char a :: nat)" "(of_char a :: nat) \<le> 0xF4"
    and "byte_in lo hi b" "(if of_char a = (0xF0 :: nat) then 0x90 else 0x80) \<le> lo" "hi \<le> 0xBF"
    "byte_in 0x80 0xBF c" "byte_in 0x80 0xBF d"
  shows "encode_rune ((of_char a mod 8) * 262144 + low6 b * 4096 + low6 c * 64 + low6 d) = [a, b, c, d]"
proof -
  define x where "x = (of_char a :: nat) mod 8"
  define y where "y = low6 b"
  define z where "z = low6 c"
  define w where "w = low6 d"
  have lo: "0x80 \<le> lo" using assms(4) by (simp split: if_splits)
  have y: "y < 64" "z < 64" "w < 64" and bc: "char_of (0x80 + y) = b" "char_of (0x80 + z) = c" "char_of (0x80 + w) = d"
    using low6_less cont_byte [OF assms(3) lo assms(5)] cont_byte [OF assms(6)] cont_byte [OF assms(7)]
    by (simp_all add: y_def z_def w_def)
  have x: "x < 8" and a: "(of_char a :: nat) = 0xF0 + x"
    using mod_range [of 30 8 "of_char a"] assms(1,2) by (simp_all add: x_def)
  have big: "x = 0 \<Longrightarrow> 16 \<le> y"
  proof -
    assume "x = 0"
    then have "0x90 \<le> (of_char b :: nat)" "(of_char b :: nat) \<le> 0xBF"
      using a assms(3-5) by (auto simp: byte_in_def)
    then show "16 \<le> y" using mod_range [of 2 64 "of_char b"] by (simp add: y_def low6_def)
  qed
  let ?r = "x * 262144 + y * 4096 + z * 64 + w"
  have r: "?r = ((x * 64 + y) * 64 + z) * 64 + w" by simp
  have d: "?r div 64 = (x * 64 + y) * 64 + z" "?r mod 64 = w" unfolding r by (rule div_mod_digit [OF y(3)])+
  have "?r div 4096 = ?r div 64 div 64" "?r div 262144 = ?r div 64 div 64 div 64"
    by (simp_all add: div_mult2_eq [symmetric])
  moreover have "?r div 64 div 64 = x * 64 + y" unfolding d by (rule div_mod_digit [OF y(2)])
  moreover have "?r div 64 mod 64 = z" unfolding d by (rule div_mod_digit [OF y(2)])
  ultimately have "?r div 262144 = x" "?r div 4096 mod 64 = y" "?r div 64 mod 64 = z" "?r mod 64 = w"
    using d y by simp_all
  moreover have "0x10000 \<le> x * 262144 + y * 4096 + z * 64 + w" using big by (cases "x = 0") auto
  ultimately show ?thesis
    unfolding encode_rune_def x_def [symmetric] y_def [symmetric] z_def [symmetric] w_def [symmetric]
    using bc of_char_eqI [OF a] by simp
qed

lemma encode_decode: "decode_rune s = Some (r, k) \<Longrightarrow> encode_rune r = take k s"
proof (cases s)
  case (Cons a t)
  assume "decode_rune s = Some (r, k)"
  then consider "(of_char a :: nat) < 0x80" "r = of_char a" "k = 1"
    | b u where "0xC2 \<le> (of_char a :: nat)" "(of_char a :: nat) \<le> 0xDF" "t = b # u" "byte_in 0x80 0xBF b"
        "r = (of_char a mod 32) * 64 + low6 b" "k = 2"
    | b c u lo hi where "0xE0 \<le> (of_char a :: nat)" "(of_char a :: nat) \<le> 0xEF" "t = b # c # u"
        "byte_in lo hi b" "lo = (if of_char a = (0xE0 :: nat) then 0xA0 else 0x80)" "hi \<le> 0xBF" "byte_in 0x80 0xBF c"
        "r = (of_char a mod 16) * 4096 + low6 b * 64 + low6 c" "k = 3"
    | b c d u lo hi where "0xF0 \<le> (of_char a :: nat)" "(of_char a :: nat) \<le> 0xF4" "t = b # c # d # u"
        "byte_in lo hi b" "lo = (if of_char a = (0xF0 :: nat) then 0x90 else 0x80)" "hi \<le> 0xBF"
        "byte_in 0x80 0xBF c" "byte_in 0x80 0xBF d"
        "r = (of_char a mod 8) * 262144 + low6 b * 4096 + low6 c * 64 + low6 d" "k = 4"
    unfolding Cons decode_rune.simps Let_def
    by (auto split: if_split_asm list.splits)
  then show ?thesis
  proof cases
    case 1
    then show ?thesis by (simp add: Cons encode_rune_def)
  next
    case 2
    then show ?thesis by (simp add: Cons encode2)
  next
    case 3
    then show ?thesis using encode3 [OF 3(1,2,4) _ 3(6,7)] by (simp add: Cons)
  next
    case 4
    then show ?thesis using encode4 [OF 4(1,2,4) _ 4(6-8)] by (simp add: Cons)
  qed
qed simp

lemma decode_prefix:
  "decode_rune s = Some (r, k) \<Longrightarrow> decode_rune (take k s @ t) = Some (r, k)"
  by (cases s) (auto simp: Let_def split: if_splits list.splits)

lemma str_body_item:
  assumes "str_item (c # s) = Some (x, t)" and "c \<noteq> CHR 0x22"
  shows "str_body (c # s) = map_option (\<lambda>(y, u). (x @ y, u)) (str_body t)"
  using assms by (simp add: str_body.simps [of "c # s"])

lemma str_item_u_escape:
  assumes "r < 0x10000" and "\<not> (0xD800 \<le> r \<and> r < 0xE000)"
  shows "str_item (u_escape r @ t) = Some (encode_rune r, t)"
proof -
  have "unicode_escape (hex_digits 4 r @ t) = Some (encode_rune r, t)"
    unfolding unicode_escape_def hex4_digits [OF assms(1)] option.case prod.case if_not_P [OF assms(2)] ..
  then show ?thesis by (simp add: str_item_def u_escape_def)
qed

lemma str_item_escape_byte:
  assumes "(of_char a :: nat) < 0x80"
  shows "str_item (escape_byte a @ t) = Some ([a], t)"
proof (cases "a = CHR 0x22 \<or> a = CHR 0x5C \<or> a = CHR 0x08 \<or> a = CHR 0x0C \<or> a = CHR 0x0A \<or> a = CHR 0x0D \<or> a = CHR 0x09")
  case True
  then show ?thesis by (auto simp: str_item_def escape_byte_def simple_escape_def)
next
  case False
  then have "escape_byte a = u_escape (of_char a)" by (simp add: escape_byte_def)
  then show ?thesis using str_item_u_escape [of "of_char a" t] assms by (simp add: encode_rune_def)
qed

lemma str_item_safe:
  assumes "html_safe a"
  shows "str_item (a # t) = Some ([a], t)"
proof -
  have n: "32 \<le> (of_char a :: nat)" "(of_char a :: nat) < 0x80" "a \<noteq> CHR 0x5C"
    using assms by (auto simp: html_safe_def byte_in_def)
  then show ?thesis by (simp add: str_item_def)
qed

lemma str_item_raw:
  assumes "decode_rune (a # s) = Some (r, k)" and "\<not> (of_char a :: nat) < 0x80"
  shows "str_item (take k (a # s) @ t) = Some (take k (a # s), t)"
proof -
  have k: "0 < k" "k \<le> length (a # s)" using decode_rune_width [OF assms(1)] by simp_all
  then obtain u where u: "take k (a # s) = a # u" by (cases k) auto
  have d: "decode_rune (a # u @ t) = Some (r, k)" using decode_prefix [OF assms(1), of t] u by simp
  have l: "length (a # u) = k" using arg_cong [OF u, of length] k by simp
  have "a \<noteq> CHR 0x5C" using assms(2) by auto
  then show ?thesis using assms(2) d l by (simp add: str_item_def u del: decode_rune.simps) auto
qed

text \<open>What the encoder wrote for a string is read back as that string, up to invalid bytes.\<close>

lemma str_body_json_body: "str_body (json_body s @ CHR 0x22 # t) = Some (sanitize s, t)"
proof (induction s rule: json_body.induct)
  case (2 a s)
  have step: "str_body (c @ u) = Some (x @ y, t)"
    if "str_item (c @ u) = Some (x, u)" "c \<noteq> []" "hd c \<noteq> CHR 0x22" "str_body u = Some (y, t)" for c u x y
    using that str_body_item [of "hd c" "tl c @ u" x u] by (cases c) auto
  show ?case
  proof (cases "(of_char a :: nat) < 0x80")
    case True
    then have san: "sanitize (a # s) = [a] @ sanitize s" by (simp add: Let_def)
    show ?thesis
    proof (cases "html_safe a")
      case safe: True
      then have "a \<noteq> CHR 0x22" by (auto simp: html_safe_def)
      then show ?thesis
        using step [of "[a]" "json_body s @ CHR 0x22 # t" "[a]" "sanitize s"] str_item_safe [OF safe] 2(1) True safe san
        by simp
    next
      case False
      have "escape_byte a \<noteq> []" "hd (escape_byte a) \<noteq> CHR 0x22" by (simp_all add: escape_byte_def u_escape_def)
      then show ?thesis
        using step [of "escape_byte a" "json_body s @ CHR 0x22 # t" "[a]" "sanitize s"]
          str_item_escape_byte [OF True] 2(1) True False san by simp
    qed
  next
    case False
    show ?thesis
    proof (cases "decode_rune (a # s)")
      case None
      have "str_item (u_escape 0xFFFD @ u) = Some (rune_error, u)" for u
        using str_item_u_escape [of "0xFFFD" u] by (simp add: rune_error_def)
      then show ?thesis
        using step [of "u_escape 0xFFFD" "json_body s @ CHR 0x22 # t" rune_error "sanitize s"] 2(2) [OF False None] False None
        by (simp add: u_escape_def del: decode_rune.simps)
    next
      case (Some rk)
      then obtain r k where rk: "decode_rune (a # s) = Some (r, k)" by (cases rk) auto
      let ?rest = "json_body (drop k (a # s)) @ CHR 0x22 # t"
      let ?c = "if r = 0x2028 \<or> r = 0x2029 then u_escape r else take k (a # s)"
      have ih: "str_body ?rest = Some (sanitize (drop k (a # s)), t)" using 2(3) [OF False rk refl] .
      have item: "str_item (?c @ ?rest) = Some (take k (a # s), ?rest)"
        using str_item_raw [OF rk False] str_item_u_escape [of r ?rest] encode_decode [OF rk] by auto
      have "0 < k" using decode_rune_width [OF rk] by simp
      then have "?c \<noteq> []" "hd ?c \<noteq> CHR 0x22" using False by (auto simp: u_escape_def hd_take)
      from step [OF item this ih] show ?thesis using False rk by (simp del: decode_rune.simps)
    qed
  qed
qed simp

lemma sanitize_valid: "valid_utf8 s \<Longrightarrow> sanitize s = s"
  by (induction s rule: sanitize.induct) (auto simp del: decode_rune.simps split: option.splits prod.splits)

section \<open>More fuel changes nothing\<close>

lemma parse_mono_Suc:
  "parse_value n d s \<noteq> PFuel \<Longrightarrow> parse_value (Suc n) d s = parse_value n d s"
  "parse_elems n d s acc \<noteq> PFuel \<Longrightarrow> parse_elems (Suc n) d s acc = parse_elems n d s acc"
  "parse_members n d s mem \<noteq> PFuel \<Longrightarrow> parse_members (Suc n) d s mem = parse_members n d s mem"
proof (induction n d s and n d s acc and n d s mem rule: parse_value_parse_elems_parse_members.induct)
  case (2 n d s)
  show ?case
    using 2 unfolding parse_value.simps(2) [of "Suc n"] parse_value.simps(2) [of n]
    by (auto simp: Let_def simp del: parse_value.simps parse_elems.simps parse_members.simps)
next
  case (4 n d s acc)
  show ?case
  proof (cases "parse_value n d s")
    case (POk v u)
    then have "parse_value (Suc n) d s = POk v u" using 4(1) by (simp del: parse_value.simps)
    then show ?thesis
      using 4(2) [OF POk refl] 4(3) POk unfolding parse_elems.simps(2) [of "Suc n"] parse_elems.simps(2) [of n d s]
      by (cases "starts (CHR '','') (ws u)") (simp_all add: Let_def del: parse_value.simps parse_elems.simps)
  next
    case PErr
    then have "parse_value (Suc n) d s = PErr" using 4(1) by (simp del: parse_value.simps)
    then show ?thesis using PErr by (simp del: parse_value.simps)
  qed (use 4(3) in simp)
next
  case (6 n d s mem)
  show ?case
  proof (cases "parse_key s")
    case (Some kr)
    then obtain k r where kr: "parse_key s = Some (k, r)" by (cases kr) auto
    note ih = 6(1) [OF kr refl] 6(2) [OF kr refl _ refl]
    show ?thesis
    proof (cases "parse_value n d r")
      case (POk v u)
      then have "parse_value (Suc n) d r = POk v u" using ih(1) by (simp del: parse_value.simps)
      then show ?thesis
        using ih(2) [OF POk] 6(3) POk kr
        unfolding parse_members.simps(2) [of "Suc n"] parse_members.simps(2) [of n d s]
        by (cases "starts (CHR '','') (ws u)") (simp_all add: Let_def del: parse_value.simps parse_members.simps)
    next
      case PErr
      then have "parse_value (Suc n) d r = PErr" using ih(1) by (simp del: parse_value.simps)
      then show ?thesis using PErr kr by (simp del: parse_value.simps)
    qed (use 6(3) kr in simp)
  qed simp
qed simp_all

lemma parse_value_mono':
  "parse_value n d s \<noteq> PFuel \<Longrightarrow> n \<le> m \<Longrightarrow> parse_value m d s = parse_value n d s"
proof (induction m)
  case (Suc m)
  then show ?case
    using parse_mono_Suc(1) [of m d s] by (cases "n = Suc m") (auto simp del: parse_value.simps)
qed simp

lemma parse_value_mono: "parse_value n d s = POk v t \<Longrightarrow> n \<le> m \<Longrightarrow> parse_value m d s = POk v t"
  using parse_value_mono' [of n d s m] by simp

section \<open>Encoding objects\<close>

definition json_field :: "string \<times> string \<Rightarrow> string" where
  "json_field kv = json_string (fst kv) @ '':'' @ snd kv"

definition json_object :: "(string \<times> string) list \<Rightarrow> string" where
  "json_object kvs = ''{'' @ Join (map json_field kvs) '','' @ ''}''"

text \<open>\<open>reads_as s v n\<close>: the text \<open>s\<close>, whatever follows it, parses to \<open>v\<close> with fuel \<open>n\<close>.\<close>

definition reads_as :: "string \<Rightarrow> json \<Rightarrow> nat \<Rightarrow> int \<Rightarrow> bool" where
  "reads_as s v n d \<longleftrightarrow> (\<forall>t. parse_value n d (s @ t) = POk v t)"

lemma ws_json_string [simp]: "ws (json_string s @ t) = json_string s @ t" "ws (CHR 0x22 # u) = CHR 0x22 # u"
  by (simp_all add: json_string_def is_ws_def)

lemma parse_key_json_string: "parse_key (json_string k @ '':'' @ t) = Some (sanitize k, t)"
  using str_body_json_body [of k "'':'' @ t"] by (simp add: parse_key_def json_string_def Let_def is_ws_def)

lemma reads_string: "reads_as (json_string s) (JStr (sanitize s)) (Suc n) d"
  using str_body_json_body [of s]
  by (simp add: reads_as_def json_string_def is_ws_def starts_def parse_scalar_def Let_def)

lemma parse_members_fields:
  assumes "kvs \<noteq> []" and "list_all2 (\<lambda>(k, x) (k', v). k' = sanitize k \<and> reads_as x v n d) kvs vs"
  shows "parse_members (length kvs + n) d (Join (map json_field kvs) '','' @ ''}'' @ t) acc = POk (JObj (rev acc @ vs)) t"
  using assms
proof (induction kvs arbitrary: vs acc rule: induct_list012)
  case (2 kv)
  obtain k x where kv: "kv = (k, x)" by (cases kv)
  obtain v where vs: "vs = [(sanitize k, v)]" and r: "reads_as x v n d"
    using 2(2) kv by (auto simp: list_all2_Cons1)
  have "parse_value n d (x @ ''}'' @ t) = POk v (''}'' @ t)" using r by (simp add: reads_as_def)
  then show ?case
    using parse_key_json_string [of k "x @ ''}'' @ t"] by (simp add: kv vs json_field_def starts_def is_ws_def Let_def)
next
  case (3 kv kw kvs)
  obtain k x where kv: "kv = (k, x)" by (cases kv)
  obtain v vs' where vs: "vs = (sanitize k, v) # vs'" and r: "reads_as x v n d"
    and rest: "list_all2 (\<lambda>(k, x) (k', v). k' = sanitize k \<and> reads_as x v n d) (kw # kvs) vs'"
    using 3(4) kv by (auto simp: list_all2_Cons1)
  let ?u = "'','' @ Join (map json_field (kw # kvs)) '','' @ ''}'' @ t"
  have v: "parse_value (length (kw # kvs) + n) d (x @ ?u) = POk v ?u"
    by (rule parse_value_mono [of n]) (use r in \<open>simp_all add: reads_as_def\<close>)
  have "Join (map json_field (kv # kw # kvs)) '','' @ ''}'' @ t = json_string k @ '':'' @ x @ ?u"
    by (simp add: kv json_field_def)
  then show ?case
    using parse_key_json_string [of k "x @ ?u"] v 3(2) [OF _ rest, of "(sanitize k, v) # acc"]
    by (simp add: vs starts_def is_ws_def Let_def)
qed simp

lemma starts_json_field: "starts (CHR ''}'') (ws (Join (map json_field (kv # kvs)) '','' @ t)) = False"
  by (cases kvs) (auto simp: json_field_def json_string_def starts_def is_ws_def)

lemma reads_object:
  assumes "kvs \<noteq> []" and "list_all2 (\<lambda>(k, x) (k', v). k' = sanitize k \<and> reads_as x v n d) kvs vs" and "0 \<le> d"
  shows "reads_as (json_object kvs) (JObj vs) (Suc (length kvs + n)) (d + 1)"
proof -
  obtain kv kvs' where "kvs = kv # kvs'" using assms(1) by (cases kvs) auto
  then have ne: "starts (CHR ''}'') (ws (Join (map json_field kvs) '','' @ ''}'' @ t)) = False" for t
    using starts_json_field by simp
  show ?thesis
    unfolding reads_as_def
    using parse_members_fields [OF assms(1,2), where acc = "[]"] ne assms(3)
    by (simp add: json_object_def is_ws_def starts_def Let_def)
qed

lemma reads_singleton:
  assumes "reads_as x v n d" and "0 \<le> d" and "x \<noteq> []" and "hd x \<noteq> CHR '']''" and "\<not> is_ws (hd x)"
  shows "reads_as (''['' @ x @ '']'') (JArr [v]) (Suc (Suc n)) (d + 1)"
proof -
  have "parse_value n d (x @ '']'' @ t) = POk v ('']'' @ t)" for t using assms(1) by (simp add: reads_as_def)
  moreover have "starts (CHR '']'') (ws (x @ '']'' @ t)) = False" for t
    using assms(3-5) by (cases x) (auto simp: starts_def)
  ultimately show ?thesis
    using assms(2) by (simp add: reads_as_def is_ws_def starts_def Let_def)
qed

lemma reads_as_mono: "reads_as s v n d \<Longrightarrow> n \<le> m \<Longrightarrow> reads_as s v m d"
  by (auto simp: reads_as_def intro: parse_value_mono)

lemma json_parse_reads:
  assumes "reads_as s v n maxNestingDepth"
  shows "json_parse s = Some v"
proof -
  have "parse_value n maxNestingDepth s = POk v []" using assms by (metis append_Nil2 reads_as_def)
  then have big: "parse_value (max n (2 * length s + 1)) maxNestingDepth s = POk v []"
    by (rule parse_value_mono) simp
  have "parse_value (2 * length s + 1) maxNestingDepth s \<noteq> PFuel" by (rule parse_fuel_enough) simp
  then have "parse_value (2 * length s + 1) maxNestingDepth s = POk v []"
    using big parse_value_mono' [of "2 * length s + 1" maxNestingDepth s "max n (2 * length s + 1)"] by simp
  then show ?thesis by (simp add: json_parse_def)
qed

text \<open>\<open>encodes s v d\<close>: \<open>s\<close> is read as \<open>v\<close> where \<open>d\<close> more levels may be opened.\<close>

definition encodes :: "string \<Rightarrow> json \<Rightarrow> int \<Rightarrow> bool" where
  "encodes s v d \<longleftrightarrow> (\<exists>n. reads_as s v n d)"

lemma encodes_string: "encodes (json_string s) (JStr (sanitize s)) d"
  using reads_string unfolding encodes_def by blast

lemma encodes_common:
  "list_all2 (\<lambda>(k, x) (k', v). k' = sanitize k \<and> encodes x v d) kvs vs \<Longrightarrow>
   \<exists>n. list_all2 (\<lambda>(k, x) (k', v). k' = sanitize k \<and> reads_as x v n d) kvs vs"
proof (induction rule: list_all2_induct)
  case (Cons kx kvs kv vs)
  obtain n where n: "list_all2 (\<lambda>(k, x) (k', v). k' = sanitize k \<and> reads_as x v n d) kvs vs"
    using Cons.IH by blast
  obtain m where m: "reads_as (snd kx) (snd kv) m d" "fst kv = sanitize (fst kx)"
    using Cons.hyps(1) by (auto simp: encodes_def split: prod.splits)
  have "list_all2 (\<lambda>(k, x) (k', v). k' = sanitize k \<and> reads_as x v (max n m) d) kvs vs"
    using n by (rule list_all2_mono) (auto intro: reads_as_mono)
  moreover have "reads_as (snd kx) (snd kv) (max n m) d" using m(1) by (rule reads_as_mono) simp
  ultimately show ?case using m(2) by (cases kx; cases kv) (auto intro!: exI [of _ "max n m"])
qed simp

lemma encodes_object:
  assumes "list_all2 (\<lambda>(k, x) (k', v). k' = sanitize k \<and> encodes x v (d - 1)) kvs vs" and "kvs \<noteq> []" and "0 < d"
  shows "encodes (json_object kvs) (JObj vs) d"
proof -
  obtain n where "list_all2 (\<lambda>(k, x) (k', v). k' = sanitize k \<and> reads_as x v n (d - 1)) kvs vs"
    using encodes_common [OF assms(1)] by blast
  from reads_object [OF assms(2) this] show ?thesis using assms(3) by (auto simp: encodes_def)
qed

lemma encodes_singleton:
  assumes "encodes (json_object kvs) v (d - 1)" and "0 < d"
  shows "encodes (''['' @ json_object kvs @ '']'') (JArr [v]) d"
proof -
  obtain n where "reads_as (json_object kvs) v n (d - 1)" using assms(1) by (auto simp: encodes_def)
  from reads_singleton [OF this] show ?thesis
    using assms(2) by (auto simp: encodes_def json_object_def is_ws_def)
qed

lemma json_parse_encodes: "encodes s v maxNestingDepth \<Longrightarrow> json_parse s = Some v"
  by (auto simp: encodes_def intro: json_parse_reads)

end
