(* ===== verification/A2A_Runner.thy ===== *)
theory A2A_Runner
  imports Agent_Runner Json
begin

text \<open>
  The runner that invokes agents over HTTP (\<open>internal/runner/a2a_runner.go\<close>): the
  JSON-RPC request, the stream of server-sent events that answers it, and the result made of it.

  What the code observes of the network, the context and the clock during one call is a record
  \<open>http_env\<close>: whether the request could be built, what \<open>Do\<close> returned (an
  error, or a response with its body and the error that ended the body, if any), what
  \<open>ctx.Err()\<close> returned at its n-th evaluation given the timeout that was set, the
  clock. The runner's state is a sequence of such records, one per call, and the requests sent so
  far.
\<close>

section \<open>Messages\<close>

record a2aTextPart =
  tp_Kind :: string
  tp_Text :: string

record a2aMessage =
  msg_Role :: string
  msg_Parts :: "a2aTextPart slice"

record a2aTaskParams =
  prm_ID :: string
  prm_Message :: a2aMessage

record a2aTaskRequest =
  trq_JSONRPC :: string
  trq_ID :: string
  trq_Method :: string
  trq_Params :: a2aTaskParams

record a2aSSEEvent =
  sse_Event :: string
  sse_Data :: string

record a2aRPCError =
  rpc_Code :: int
  rpc_Message :: string

record a2aTaskStatus =
  ts_State :: string
  ts_Message :: "a2aMessage option"

record a2aArtifact =
  art_ArtifactID :: string
  art_Parts :: "a2aTextPart slice"

record a2aTaskResult =
  tr_ID :: string
  tr_Kind :: string
  tr_TaskID :: string
  tr_Status :: a2aTaskStatus
  tr_Artifact :: "a2aArtifact option"

record a2aSSEResponse =
  rsp_JSONRPC :: string
  rsp_ID :: string
  rsp_Result :: "a2aTaskResult option"
  rsp_Error :: "a2aRPCError option"

definition zero_part :: a2aTextPart where "zero_part = \<lparr>tp_Kind = '''', tp_Text = ''''\<rparr>"
definition zero_message :: a2aMessage where "zero_message = \<lparr>msg_Role = '''', msg_Parts = nil_slice\<rparr>"
definition zero_event :: a2aSSEEvent where "zero_event = \<lparr>sse_Event = '''', sse_Data = ''''\<rparr>"
definition zero_rpc_error :: a2aRPCError where "zero_rpc_error = \<lparr>rpc_Code = 0, rpc_Message = ''''\<rparr>"
definition zero_artifact :: a2aArtifact where "zero_artifact = \<lparr>art_ArtifactID = '''', art_Parts = nil_slice\<rparr>"

definition zero_task :: a2aTaskResult where
  "zero_task = \<lparr>tr_ID = '''', tr_Kind = '''', tr_TaskID = '''',
     tr_Status = \<lparr>ts_State = '''', ts_Message = None\<rparr>, tr_Artifact = None\<rparr>"

definition zero_response :: a2aSSEResponse where
  "zero_response = \<lparr>rsp_JSONRPC = '''', rsp_ID = '''', rsp_Result = None, rsp_Error = None\<rparr>"

section \<open>Encoding the request\<close>

definition marshal_part :: "a2aTextPart \<Rightarrow> string" where
  "marshal_part p = json_object [(''kind'', json_string (tp_Kind p)), (''text'', json_string (tp_Text p))]"

text \<open>A nil slice is encoded as null.\<close>

definition marshal_parts :: "a2aTextPart slice \<Rightarrow> string" where
  "marshal_parts ps =
     (if ps = nil_slice then ''null'' else ''['' @ Join (map marshal_part (elems ps)) '','' @ '']'')"

definition marshal_message :: "a2aMessage \<Rightarrow> string" where
  "marshal_message m = json_object [(''role'', json_string (msg_Role m)), (''parts'', marshal_parts (msg_Parts m))]"

definition marshal_params :: "a2aTaskParams \<Rightarrow> string" where
  "marshal_params p = json_object [(''id'', json_string (prm_ID p)), (''message'', marshal_message (prm_Message p))]"

definition marshal_request :: "a2aTaskRequest \<Rightarrow> string" where
  "marshal_request r = json_object [(''jsonrpc'', json_string (trq_JSONRPC r)), (''id'', json_string (trq_ID r)),
     (''method'', json_string (trq_Method r)), (''params'', marshal_params (trq_Params r))]"

section \<open>Decoding an event\<close>

definition part_field :: "string \<Rightarrow> a2aTextPart \<Rightarrow> json \<Rightarrow> a2aTextPart option" where
  "part_field k cur v =
     (if is_field k ''kind'' then map_option (\<lambda>x. cur\<lparr>tp_Kind := x\<rparr>) (decode_string (tp_Kind cur) v)
      else if is_field k ''text'' then map_option (\<lambda>x. cur\<lparr>tp_Text := x\<rparr>) (decode_string (tp_Text cur) v)
      else Some cur)"

abbreviation decode_parts :: "a2aTextPart slice \<Rightarrow> json \<Rightarrow> a2aTextPart slice option" where
  "decode_parts \<equiv> decode_slice (decode_struct part_field) zero_part"

definition message_field :: "string \<Rightarrow> a2aMessage \<Rightarrow> json \<Rightarrow> a2aMessage option" where
  "message_field k cur v =
     (if is_field k ''role'' then map_option (\<lambda>x. cur\<lparr>msg_Role := x\<rparr>) (decode_string (msg_Role cur) v)
      else if is_field k ''parts'' then map_option (\<lambda>x. cur\<lparr>msg_Parts := x\<rparr>) (decode_parts (msg_Parts cur) v)
      else Some cur)"

definition status_field :: "string \<Rightarrow> a2aTaskStatus \<Rightarrow> json \<Rightarrow> a2aTaskStatus option" where
  "status_field k cur v =
     (if is_field k ''state'' then map_option (\<lambda>x. cur\<lparr>ts_State := x\<rparr>) (decode_string (ts_State cur) v)
      else if is_field k ''message'' then
        map_option (\<lambda>x. cur\<lparr>ts_Message := x\<rparr>)
          (decode_ptr (decode_struct message_field) zero_message (ts_Message cur) v)
      else Some cur)"

definition artifact_field :: "string \<Rightarrow> a2aArtifact \<Rightarrow> json \<Rightarrow> a2aArtifact option" where
  "artifact_field k cur v =
     (if is_field k ''artifactId'' then map_option (\<lambda>x. cur\<lparr>art_ArtifactID := x\<rparr>) (decode_string (art_ArtifactID cur) v)
      else if is_field k ''parts'' then map_option (\<lambda>x. cur\<lparr>art_Parts := x\<rparr>) (decode_parts (art_Parts cur) v)
      else Some cur)"

definition task_field :: "string \<Rightarrow> a2aTaskResult \<Rightarrow> json \<Rightarrow> a2aTaskResult option" where
  "task_field k cur v =
     (if is_field k ''id'' then map_option (\<lambda>x. cur\<lparr>tr_ID := x\<rparr>) (decode_string (tr_ID cur) v)
      else if is_field k ''kind'' then map_option (\<lambda>x. cur\<lparr>tr_Kind := x\<rparr>) (decode_string (tr_Kind cur) v)
      else if is_field k ''taskId'' then map_option (\<lambda>x. cur\<lparr>tr_TaskID := x\<rparr>) (decode_string (tr_TaskID cur) v)
      else if is_field k ''status'' then
        map_option (\<lambda>x. cur\<lparr>tr_Status := x\<rparr>) (decode_struct status_field (tr_Status cur) v)
      else if is_field k ''artifact'' then
        map_option (\<lambda>x. cur\<lparr>tr_Artifact := x\<rparr>)
          (decode_ptr (decode_struct artifact_field) zero_artifact (tr_Artifact cur) v)
      else Some cur)"

definition rpc_error_field :: "string \<Rightarrow> a2aRPCError \<Rightarrow> json \<Rightarrow> a2aRPCError option" where
  "rpc_error_field k cur v =
     (if is_field k ''code'' then map_option (\<lambda>x. cur\<lparr>rpc_Code := x\<rparr>) (decode_int (rpc_Code cur) v)
      else if is_field k ''message'' then map_option (\<lambda>x. cur\<lparr>rpc_Message := x\<rparr>) (decode_string (rpc_Message cur) v)
      else Some cur)"

definition response_field :: "string \<Rightarrow> a2aSSEResponse \<Rightarrow> json \<Rightarrow> a2aSSEResponse option" where
  "response_field k cur v =
     (if is_field k ''jsonrpc'' then map_option (\<lambda>x. cur\<lparr>rsp_JSONRPC := x\<rparr>) (decode_string (rsp_JSONRPC cur) v)
      else if is_field k ''id'' then map_option (\<lambda>x. cur\<lparr>rsp_ID := x\<rparr>) (decode_string (rsp_ID cur) v)
      else if is_field k ''result'' then
        map_option (\<lambda>x. cur\<lparr>rsp_Result := x\<rparr>) (decode_ptr (decode_struct task_field) zero_task (rsp_Result cur) v)
      else if is_field k ''error'' then
        map_option (\<lambda>x. cur\<lparr>rsp_Error := x\<rparr>) (decode_ptr (decode_struct rpc_error_field) zero_rpc_error (rsp_Error cur) v)
      else Some cur)"

text \<open>\<open>json.Unmarshal([]byte(data), &resp)\<close>; \<open>None\<close> is any error.\<close>

definition unmarshal_response :: "string \<Rightarrow> a2aSSEResponse option" where
  "unmarshal_response data =
     (case json_parse data of None \<Rightarrow> None | Some v \<Rightarrow> decode_struct response_field zero_response v)"

section \<open>Processing the stream\<close>

definition newline :: string where "newline = [CHR 0x0A]"

definition nonempty_texts :: "a2aTextPart list \<Rightarrow> string list" where
  "nonempty_texts ps = filter (\<lambda>t. t \<noteq> '''') (map tp_Text ps)"

definition extractText :: "a2aTaskResult \<Rightarrow> string" where
  "extractText task =
     (case ts_Message (tr_Status task) of
        None \<Rightarrow> ''''
      | Some m \<Rightarrow> Join (nonempty_texts (elems (msg_Parts m))) newline)"

text \<open>The error \<open>processEvent\<close> returns is always nil.\<close>

definition processEvent ::
  "a2aSSEEvent \<Rightarrow> RunResult \<Rightarrow> string list \<Rightarrow> goerror option \<times> RunResult \<times> string list" where
  "processEvent event result artifactTexts =
     (case unmarshal_response (sse_Data event) of
        None \<Rightarrow> (None, result, artifactTexts)
      | Some resp \<Rightarrow>
          (case rsp_Error resp of
             Some err \<Rightarrow>
               (None, result\<lparr>res_Status := RunStatusFailed,
                  res_Error := ''A2A RPC error '' @ show_int (rpc_Code err) @ '': '' @ rpc_Message err\<rparr>, artifactTexts)
           | None \<Rightarrow>
               (case rsp_Result resp of
                  None \<Rightarrow> (None, result, artifactTexts)
                | Some task \<Rightarrow>
                    let result = (if tr_TaskID task \<noteq> '''' then result\<lparr>res_TaskID := tr_TaskID task\<rparr>
                          else if tr_ID task \<noteq> '''' then result\<lparr>res_TaskID := tr_ID task\<rparr> else result);
                        artifactTexts = (case tr_Artifact task of
                            None \<Rightarrow> artifactTexts
                          | Some a \<Rightarrow> artifactTexts @ nonempty_texts (elems (art_Parts a)));
                        state = ts_State (tr_Status task);
                        result = (if state = ''completed'' then
                              result\<lparr>res_Status := RunStatusCompleted, res_Output := extractText task\<rparr>
                            else if state = ''failed'' \<or> state = ''canceled'' then
                              result\<lparr>res_Status := RunStatusFailed, res_Error := extractText task\<rparr>
                            else result)
                    in (None, result, artifactTexts))))"

text \<open>
  The loop over the scanned lines. \<open>ctx n\<close> is what the n-th evaluation of
  \<open>ctx.Err()\<close> gives. The result is what the loop returned, if it did, the result so
  far, and the number of evaluations.
\<close>

definition terminal_status :: "RunResult \<Rightarrow> bool" where
  "terminal_status r \<longleftrightarrow> res_Status r = RunStatusCompleted \<or> res_Status r = RunStatusFailed"

definition with_artifacts :: "RunResult \<Rightarrow> string list \<Rightarrow> RunResult" where
  "with_artifacts r arts =
     (if res_Output r = '''' \<and> length arts > 0 then r\<lparr>res_Output := Join arts newline\<rparr> else r)"

fun sse_loop ::
  "(nat \<Rightarrow> goerror option) \<Rightarrow> nat \<Rightarrow> string list \<Rightarrow> a2aSSEEvent \<Rightarrow> RunResult \<Rightarrow> string list
   \<Rightarrow> (goerror + RunResult) option \<times> RunResult \<times> nat" where
  "sse_loop ctx n [] currentEvent result artifactTexts = (None, result, n)"
| "sse_loop ctx n (line # rest) currentEvent result artifactTexts =
     (case ctx n of
        Some e \<Rightarrow> (Some (Inl e), result, Suc n)
      | None \<Rightarrow>
          if line = '''' then
            (if sse_Data currentEvent \<noteq> '''' then
               (case processEvent currentEvent result artifactTexts of
                  (Some err, result, artifactTexts) \<Rightarrow> (Some (Inl err), result, Suc n)
                | (None, result, artifactTexts) \<Rightarrow>
                    if terminal_status result
                    then (Some (Inr (with_artifacts result artifactTexts)), result, Suc n)
                    else sse_loop ctx (Suc n) rest zero_event result artifactTexts)
             else sse_loop ctx (Suc n) rest zero_event result artifactTexts)
          else if HasPrefix line ''event:'' then
            sse_loop ctx (Suc n) rest
              (currentEvent\<lparr>sse_Event := TrimSpace (TrimPrefix line ''event:'')\<rparr>) result artifactTexts
          else if HasPrefix line ''data:'' then
            sse_loop ctx (Suc n) rest
              (currentEvent\<lparr>sse_Data := TrimSpace (TrimPrefix line ''data:'')\<rparr>) result artifactTexts
          else sse_loop ctx (Suc n) rest currentEvent result artifactTexts)"

record http_request =
  hr_Method :: string
  hr_URL :: string
  hr_Headers :: "(string \<times> string) list"
  hr_Body :: string

record http_response =
  resp_StatusCode :: int
  resp_Body :: string
  resp_ReadErr :: "goerror option"

definition maxLine :: int where "maxLine = 1024 * 1024"

definition parseSSEStream :: "(nat \<Rightarrow> goerror option) \<Rightarrow> http_response \<Rightarrow> (goerror + RunResult) \<times> nat" where
  "parseSSEStream ctx resp =
     (let (lines, tooLong) = scan_lines maxLine (resp_Body resp) in
      case sse_loop ctx 0 lines zero_event zero_RunResult [] of
        (Some x, _, n) \<Rightarrow> (x, n)
      | (None, result, n) \<Rightarrow>
          if tooLong then
            (Inl (Errorf ''reading SSE stream'' (ErrText ''bufio.Scanner: token too long'')), n)
          else (case resp_ReadErr resp of
              Some e \<Rightarrow> (Inl (Errorf ''reading SSE stream'' e), n)
            | None \<Rightarrow>
                (Inr (if res_Status result = '''' then
                        result\<lparr>res_Status := RunStatusFailed,
                          res_Error := ''SSE stream ended without a terminal status''\<rparr>
                      else result), n)))"

section \<open>The runner\<close>

definition defaultBaseURL :: string where
  "defaultBaseURL = ''http://kagent-controller.kagent.svc.cluster.local:8083''"

definition defaultUserID :: string where "defaultUserID = ''admin@kagent.dev''"

record A2ARunner =
  run_baseURL :: string
  run_userID :: string
  run_Timeout :: duration  \<comment> \<open>the timeout of its HTTP client; 0 is none\<close>

definition NewA2ARunner :: "string \<Rightarrow> string \<Rightarrow> A2ARunner" where
  "NewA2ARunner baseURL userID =
     \<lparr>run_baseURL = TrimRight (if baseURL = '''' then defaultBaseURL else baseURL) (CHR ''/''),
      run_userID = (if userID = '''' then defaultUserID else userID),
      run_Timeout = 0\<rparr>"

record http_env =
  env_UnixNano :: int
  env_Since :: duration
  env_NewRequest :: "string \<Rightarrow> goerror option"
  env_Do :: "http_request \<Rightarrow> goerror + http_response"
  env_CtxErr :: "duration option \<Rightarrow> nat \<Rightarrow> goerror option"

record a2a_net =
  net_env :: "nat \<Rightarrow> http_env"
  net_calls :: nat
  net_sent :: "http_request list"

definition agent_url :: "A2ARunner \<Rightarrow> RunRequest \<Rightarrow> string" where
  "agent_url r req = run_baseURL r @ ''/api/a2a/'' @ req_Namespace req @ ''/'' @ req_AgentName req"

definition task_request :: "http_env \<Rightarrow> RunRequest \<Rightarrow> a2aTaskRequest" where
  "task_request env req =
     (let taskID = req_Namespace req @ ''-'' @ req_AgentName req @ ''-'' @ show_int (env_UnixNano env)
      in \<lparr>trq_JSONRPC = ''2.0'', trq_ID = taskID, trq_Method = ''message/stream'',
          trq_Params = \<lparr>prm_ID = taskID, prm_Message = \<lparr>msg_Role = ''user'',
            msg_Parts = ([\<lparr>tp_Kind = ''text'', tp_Text = req_Prompt req\<rparr>], 1)\<rparr>\<rparr>\<rparr>)"

definition agent_request :: "A2ARunner \<Rightarrow> http_env \<Rightarrow> RunRequest \<Rightarrow> http_request" where
  "agent_request r env req =
     \<lparr>hr_Method = ''POST'', hr_URL = agent_url r req,
      hr_Headers = [(''Content-Type'', ''application/json''), (''Accept'', ''text/event-stream'')],
      hr_Body = marshal_request (task_request env req)\<rparr>"

definition timed_out :: "http_env \<Rightarrow> string \<Rightarrow> goerror + RunResult" where
  "timed_out env msg =
     Inr (zero_RunResult\<lparr>res_Status := RunStatusTimedOut, res_Duration := env_Since env, res_Error := msg\<rparr>)"

definition handle_response ::
  "http_env \<Rightarrow> (nat \<Rightarrow> goerror option) \<Rightarrow> http_response \<Rightarrow> goerror + RunResult" where
  "handle_response env ctx resp =
     (if resp_StatusCode resp \<noteq> 200 then
        Inr (zero_RunResult\<lparr>res_Status := RunStatusFailed, res_Duration := env_Since env,
          res_Error := ''A2A returned HTTP '' @ show_int (resp_StatusCode resp) @ '': '' @ take 1024 (resp_Body resp)\<rparr>)
      else
        (case parseSSEStream ctx resp of
           (Inl e, n) \<Rightarrow>
             if ctx n \<noteq> None then timed_out env ''agent invocation timed out during SSE stream''
             else Inl (Errorf ''parsing SSE stream'' e)
         | (Inr result, n) \<Rightarrow> Inr (result\<lparr>res_Duration := env_Since env\<rparr>)))"

definition A2ARunner_RunAgent ::
  "A2ARunner \<Rightarrow> a2a_net \<Rightarrow> RunRequest \<Rightarrow> (goerror + RunResult) \<times> a2a_net" where
  "A2ARunner_RunAgent r net req =
     (let env = net_env net (net_calls net);
          net = net\<lparr>net_calls := Suc (net_calls net)\<rparr>;
          ctx = env_CtxErr env (if req_Timeout req > 0 then Some (req_Timeout req) else None);
          url = agent_url r req
      in case env_NewRequest env url of
           Some e \<Rightarrow> (Inl (Errorf ''creating HTTP request'' e), net)
         | None \<Rightarrow>
             let httpReq = agent_request r env req;
                 net = net\<lparr>net_sent := net_sent net @ [httpReq]\<rparr>
             in (case env_Do env httpReq of
                   Inl e \<Rightarrow>
                     if ctx 0 \<noteq> None then timed_out env ''agent invocation timed out''
                     else Inl (Errorf (''sending A2A request to '' @ url) e)
                 | Inr resp \<Rightarrow> handle_response env ctx resp, net))"

definition A2ARunner_CheckHealth :: "A2ARunner \<Rightarrow> http_env \<Rightarrow> goerror option" where
  "A2ARunner_CheckHealth r env =
     (let url = run_baseURL r @ ''/api/a2a'' in
      case env_NewRequest env url of
        Some e \<Rightarrow> Some (Errorf ''creating health check request'' e)
      | None \<Rightarrow>
          (case env_Do env \<lparr>hr_Method = ''GET'', hr_URL = url, hr_Headers = [], hr_Body = ''''\<rparr> of
             Inl e \<Rightarrow> Some (Errorf (''kagent A2A endpoint unreachable at '' @ url) e)
           | Inr _ \<Rightarrow> None))"

text \<open>The runner as the reconciler holds it; the health check is answered by the network at its turn.\<close>

definition a2a_AgentRunner :: "A2ARunner \<Rightarrow> a2a_net AgentRunner" where
  "a2a_AgentRunner r = \<lparr>ar_RunAgent = A2ARunner_RunAgent r,
     ar_CheckHealth = (\<lambda>net. (A2ARunner_CheckHealth r (net_env net (net_calls net)), net\<lparr>net_calls := Suc (net_calls net)\<rparr>))\<rparr>"

section \<open>The stream as a sequence of events\<close>

text \<open>
  The payloads of the events of a stream: an event ends at an empty line and carries the
  last \<open>data:\<close> line before it; events without data are dropped.
\<close>

fun sse_events :: "string \<Rightarrow> string list \<Rightarrow> string list" where
  "sse_events d [] = []"
| "sse_events d (line # rest) =
     (if line = '''' then (if d = '''' then sse_events '''' rest else d # sse_events '''' rest)
      else if HasPrefix line ''event:'' then sse_events d rest
      else if HasPrefix line ''data:'' then sse_events (TrimSpace (TrimPrefix line ''data:'')) rest
      else sse_events d rest)"

definition event_task :: "string \<Rightarrow> a2aTaskResult option" where
  "event_task d = (case unmarshal_response d of None \<Rightarrow> None
     | Some resp \<Rightarrow> (case rsp_Error resp of Some _ \<Rightarrow> None | None \<Rightarrow> rsp_Result resp))"

definition event_error :: "string \<Rightarrow> a2aRPCError option" where
  "event_error d = (case unmarshal_response d of None \<Rightarrow> None | Some resp \<Rightarrow> rsp_Error resp)"

definition event_state :: "string \<Rightarrow> string" where
  "event_state d = (case event_task d of None \<Rightarrow> '''' | Some task \<Rightarrow> ts_State (tr_Status task))"

definition event_text :: "string \<Rightarrow> string" where
  "event_text d = (case event_task d of None \<Rightarrow> '''' | Some task \<Rightarrow> extractText task)"

definition event_artifacts :: "string \<Rightarrow> string list" where
  "event_artifacts d = (case event_task d of None \<Rightarrow> []
     | Some task \<Rightarrow> (case tr_Artifact task of None \<Rightarrow> [] | Some a \<Rightarrow> nonempty_texts (elems (art_Parts a))))"

definition ends_task :: "string \<Rightarrow> bool" where
  "ends_task d \<longleftrightarrow> event_error d \<noteq> None \<or> event_state d \<in> {''completed'', ''failed'', ''canceled''}"

lemma processEvent_cases:
  assumes "processEvent ev res arts = (e, res', arts')"
  shows "e = None" "arts' = arts @ event_artifacts (sse_Data ev)"
    "\<not> ends_task (sse_Data ev) \<Longrightarrow>
       res_Status res' = res_Status res \<and> res_Output res' = res_Output res \<and> res_Error res' = res_Error res"
    "ends_task (sse_Data ev) \<Longrightarrow> terminal_status res'"
    "event_state (sse_Data ev) = ''completed'' \<Longrightarrow> res_Status res' = RunStatusCompleted \<and>
       res_Output res' = event_text (sse_Data ev) \<and> res_Error res' = res_Error res"
    "event_state (sse_Data ev) \<in> {''failed'', ''canceled''} \<Longrightarrow> res_Status res' = RunStatusFailed \<and>
       res_Error res' = event_text (sse_Data ev) \<and> res_Output res' = res_Output res"
    "event_error (sse_Data ev) = Some err \<Longrightarrow> res_Status res' = RunStatusFailed \<and>
       res_Error res' = ''A2A RPC error '' @ show_int (rpc_Code err) @ '': '' @ rpc_Message err \<and>
       res_Output res' = res_Output res \<and> res_TaskID res' = res_TaskID res"
  using assms
  by (auto simp: processEvent_def event_artifacts_def event_task_def event_error_def event_state_def event_text_def
      ends_task_def terminal_status_def Let_def split: option.splits if_splits)

text \<open>Folding the events before the first one that ends the task.\<close>

fun absorb :: "RunResult \<Rightarrow> string list \<Rightarrow> string list \<Rightarrow> RunResult \<times> string list" where
  "absorb res arts [] = (res, arts)"
| "absorb res arts (d # ds) =
     (case processEvent \<lparr>sse_Event = '''', sse_Data = d\<rparr> res arts of (_, res', arts') \<Rightarrow> absorb res' arts' ds)"

lemma processEvent_data: "processEvent ev res arts = processEvent \<lparr>sse_Event = x, sse_Data = sse_Data ev\<rparr> res arts"
  by (simp add: processEvent_def)

lemma absorb_facts:
  "absorb res arts ds = (res', arts') \<Longrightarrow> list_all (\<lambda>d. \<not> ends_task d) ds \<Longrightarrow>
   arts' = arts @ concat (map event_artifacts ds) \<and> res_Status res' = res_Status res \<and>
   res_Output res' = res_Output res \<and> res_Error res' = res_Error res"
proof (induction ds arbitrary: res arts)
  case (Cons d ds)
  obtain e r a where p: "processEvent \<lparr>sse_Event = '''', sse_Data = d\<rparr> res arts = (e, r, a)"
    by (cases "processEvent \<lparr>sse_Event = '''', sse_Data = d\<rparr> res arts") auto
  have "absorb r a ds = (res', arts')" using Cons.prems(1) by (simp add: p)
  from Cons.IH [OF this] show ?case using Cons.prems(2) processEvent_cases(2,3) [OF p] by simp
qed simp

text \<open>With a context that stays alive, the loop is a function of the events of its lines.\<close>

definition sse_answer :: "RunResult \<Rightarrow> string list \<Rightarrow> string list \<Rightarrow> (goerror + RunResult) option \<times> RunResult" where
  "sse_answer res arts ds =
     (case absorb res arts (takeWhile (\<lambda>d. \<not> ends_task d) ds) of (r, a) \<Rightarrow>
        (case dropWhile (\<lambda>d. \<not> ends_task d) ds of
           [] \<Rightarrow> (None, r)
         | d # _ \<Rightarrow> (case processEvent \<lparr>sse_Event = '''', sse_Data = d\<rparr> r a of
             (_, r', a') \<Rightarrow> (Some (Inr (with_artifacts r' a')), r'))))"

lemma sse_loop_answer:
  "res_Status res = '''' \<Longrightarrow> sse_loop (\<lambda>_. None) n lines ev res arts = (x, r, m) \<Longrightarrow>
    (x, r) = sse_answer res arts (sse_events (sse_Data ev) lines)"
proof (induction lines arbitrary: n ev res arts)
  case Nil
  then show ?case by (simp add: sse_answer_def)
next
  case (Cons line rest)
  show ?case
  proof (cases "line = '''' \<and> sse_Data ev \<noteq> ''''")
    case True
    obtain e r' a' where p: "processEvent ev res arts = (e, r', a')" by (cases "processEvent ev res arts") auto
    have p': "processEvent \<lparr>sse_Event = '''', sse_Data = sse_Data ev\<rparr> res arts = (None, r', a')"
      using p processEvent_cases(1) [OF p] processEvent_data [of ev res arts "''''"] by simp
    show ?thesis
    proof (cases "ends_task (sse_Data ev)")
      case end_: True
      then show ?thesis
        using Cons.prems True p processEvent_cases(1,4) [OF p] p' by (auto simp: sse_answer_def)
    next
      case False
      then have st: "res_Status r' = ''''" using processEvent_cases(3) [OF p] Cons.prems(1) by simp
      then have "\<not> terminal_status r'" by (simp add: terminal_status_def run_status_defs)
      then have "sse_loop (\<lambda>_. None) (Suc n) rest zero_event r' a' = (x, r, m)"
        using Cons.prems(2) True p processEvent_cases(1) [OF p] by simp
      from Cons.IH [OF st this] show ?thesis
        using True False p' by (simp add: sse_answer_def zero_event_def)
    qed
  next
    case False
    then show ?thesis
      using Cons.prems Cons.IH by (auto simp: zero_event_def split: if_splits)
  qed
qed

text \<open>Whatever the context does, an answer of the loop is a terminal result or the context's error.\<close>

lemma sse_loop_status:
  "res_Status res = '''' \<Longrightarrow> sse_loop ctx n lines ev res arts = (x, r, m) \<Longrightarrow>
   (case x of None \<Rightarrow> res_Status r = '''' | Some (Inl e) \<Rightarrow> \<exists>k<m. ctx k = Some e | Some (Inr res') \<Rightarrow> terminal_status res')"
proof (induction lines arbitrary: n ev res arts)
  case Nil
  then show ?case by simp
next
  case (Cons line rest)
  show ?case
  proof (cases "ctx n = None \<and> line = '''' \<and> sse_Data ev \<noteq> ''''")
    case True
    obtain e r' a' where p: "processEvent ev res arts = (e, r', a')" by (cases "processEvent ev res arts") auto
    have e: "e = None" by (rule processEvent_cases(1) [OF p])
    show ?thesis
    proof (cases "terminal_status r'")
      case fin: True
      then show ?thesis
        using Cons.prems True p e by (auto simp: with_artifacts_def terminal_status_def)
    next
      case False
      then have st: "res_Status r' = ''''"
        using processEvent_cases(3,4) [OF p] Cons.prems(1) by force
      have "sse_loop ctx (Suc n) rest zero_event r' a' = (x, r, m)" using Cons.prems(2) True False p e by simp
      from Cons.IH [OF st this] show ?thesis .
    qed
  next
    case False
    then show ?thesis
      using Cons.prems Cons.IH by (cases "ctx n") (auto split: if_splits)
  qed
qed

lemma parseSSEStream_status:
  assumes "parseSSEStream ctx resp = (Inr res, n)"
  shows "terminal_status res"
proof -
  obtain lines tl where sc: "scan_lines maxLine (resp_Body resp) = (lines, tl)" by fastforce
  obtain x r m where l: "sse_loop ctx 0 lines zero_event zero_RunResult [] = (x, r, m)"
    by (cases "sse_loop ctx 0 lines zero_event zero_RunResult []") auto
  have "res_Status zero_RunResult = ''''" by (simp add: zero_RunResult_def)
  from sse_loop_status [OF this l] show ?thesis
    using assms sc l by (auto simp: parseSSEStream_def terminal_status_def split: option.splits if_splits)
qed

lemma terminal_known: "terminal_status res \<Longrightarrow> known_status (res_Status res)"
  by (auto simp: terminal_status_def known_status_def)

lemma handle_response_known:
  assumes "handle_response env ctx resp = Inr res"
  shows "known_status (res_Status res)" "res_Duration res = env_Since env"
    "res_Status res = RunStatusTimedOut \<Longrightarrow> \<exists>n. ctx n \<noteq> None"
    "res_Status res = RunStatusCompleted \<Longrightarrow> resp_StatusCode resp = 200"
proof -
  have "known_status (res_Status res) \<and> res_Duration res = env_Since env \<and>
    (res_Status res = RunStatusTimedOut \<longrightarrow> (\<exists>n. ctx n \<noteq> None)) \<and>
    (res_Status res = RunStatusCompleted \<longrightarrow> resp_StatusCode resp = 200)"
  proof (cases "resp_StatusCode resp = 200")
    case False
    then show ?thesis
      using assms by (auto simp: handle_response_def known_status_def zero_RunResult_def)
  next
    case True
    obtain y n where y: "parseSSEStream ctx resp = (y, n)" by fastforce
    show ?thesis
    proof (cases y)
      case (Inl e)
      then show ?thesis
        using assms True y by (auto simp: handle_response_def timed_out_def known_status_def zero_RunResult_def split: if_splits)
    next
      case (Inr r)
      then show ?thesis
        using assms True y parseSSEStream_status [of ctx resp r n] terminal_known [of r]
        by (auto simp: handle_response_def terminal_status_def)
    qed
  qed
  then show "known_status (res_Status res)" "res_Duration res = env_Since env"
    "res_Status res = RunStatusTimedOut \<Longrightarrow> \<exists>n. ctx n \<noteq> None"
    "res_Status res = RunStatusCompleted \<Longrightarrow> resp_StatusCode resp = 200" by blast+
qed

section \<open>The interface\<close>

text \<open>The runner satisfies the contract of \<open>AgentRunner\<close> on every network.\<close>

interpretation a2a: agent_runner "A2ARunner_RunAgent r" "\<lambda>_. True" for r
proof
  fix net req res
  assume "fst (A2ARunner_RunAgent r net req) = Inr res"
  then show "known_status (res_Status res)"
    by (auto simp: A2ARunner_RunAgent_def Let_def timed_out_def known_status_def zero_RunResult_def
        split: option.splits sum.splits if_splits dest: handle_response_known(1))
qed simp

section \<open>What the runner promises\<close>

text \<open>
  The outcome of a stream by its events: the first event that ends the task decides; the output
  is the text of its message or, if there is none, the text of all artifacts seen so far.
\<close>

definition sse_spec :: "string list \<Rightarrow> RunStatus \<times> string \<times> string" where
  "sse_spec ds =
     (case dropWhile (\<lambda>d. \<not> ends_task d) ds of
        [] \<Rightarrow> (RunStatusFailed, '''', ''SSE stream ended without a terminal status'')
      | d # _ \<Rightarrow>
          let arts = Join (concat (map event_artifacts (takeWhile (\<lambda>d. \<not> ends_task d) ds @ [d]))) newline in
          (case event_error d of
             Some err \<Rightarrow> (RunStatusFailed, arts,
               ''A2A RPC error '' @ show_int (rpc_Code err) @ '': '' @ rpc_Message err)
           | None \<Rightarrow>
               if event_state d = ''completed''
               then (RunStatusCompleted, if event_text d = '''' then arts else event_text d, '''')
               else (RunStatusFailed, arts, event_text d)))"

lemma with_artifacts_simps:
  "res_Status (with_artifacts r arts) = res_Status r" "res_Error (with_artifacts r arts) = res_Error r"
  "res_Output (with_artifacts r arts) = (if res_Output r = '''' then Join arts newline else res_Output r)"
  by (auto simp: with_artifacts_def)

lemma sse_answer_spec:
  assumes "sse_answer zero_RunResult [] ds = (x, r)"
  shows "(case x of
      None \<Rightarrow> sse_spec ds = (RunStatusFailed, '''', ''SSE stream ended without a terminal status'') \<and>
        res_Status r = '''' \<and> res_Output r = ''''
    | Some (Inl _) \<Rightarrow> False
    | Some (Inr res) \<Rightarrow> (res_Status res, res_Output res, res_Error res) = sse_spec ds)"
proof -
  obtain r0 a0 where ab: "absorb zero_RunResult [] (takeWhile (\<lambda>d. \<not> ends_task d) ds) = (r0, a0)" by fastforce
  have all: "list_all (\<lambda>d. \<not> ends_task d) (takeWhile (\<lambda>d. \<not> ends_task d) ds)"
    by (auto simp: list_all_iff dest: set_takeWhileD)
  have r0: "res_Status r0 = ''''" "res_Output r0 = ''''" "res_Error r0 = ''''"
    "a0 = concat (map event_artifacts (takeWhile (\<lambda>d. \<not> ends_task d) ds))"
    using absorb_facts [OF ab all] by (simp_all add: zero_RunResult_def)
  show ?thesis
  proof (cases "dropWhile (\<lambda>d. \<not> ends_task d) ds")
    case Nil
    have "x = None" "r = r0" using assms unfolding sse_answer_def ab prod.case Nil by simp_all
    then show ?thesis using r0 unfolding sse_spec_def Nil by simp
  next
    case (Cons d ds')
    obtain e r' a' where p: "processEvent \<lparr>sse_Event = '''', sse_Data = d\<rparr> r0 a0 = (e, r', a')"
      by (cases "processEvent \<lparr>sse_Event = '''', sse_Data = d\<rparr> r0 a0") auto
    have x: "x = Some (Inr (with_artifacts r' a'))" using assms ab Cons p by (auto simp: sse_answer_def)
    have ends: "ends_task d" using dropWhile_eq_Cons_conv [THEN iffD1, OF Cons] by simp
    note pc = processEvent_cases [OF p, unfolded a2aSSEEvent.simps]
    have a': "a' = concat (map event_artifacts (takeWhile (\<lambda>d. \<not> ends_task d) ds @ [d]))" using pc(2) r0(4) by simp
    show ?thesis
    proof (cases "event_error d")
      case (Some err)
      then show ?thesis using x pc(7) [OF Some] r0 Cons a' by (simp add: sse_spec_def with_artifacts_simps Let_def)
    next
      case None
      show ?thesis
      proof (cases "event_state d = ''completed''")
        case True
        then show ?thesis using x pc(5) r0 Cons a' None by (simp add: sse_spec_def with_artifacts_simps Let_def)
      next
        case False
        then have "event_state d \<in> {''failed'', ''canceled''}" using ends None by (auto simp: ends_task_def)
        then show ?thesis using x pc(6) r0 Cons a' None False by (simp add: sse_spec_def with_artifacts_simps Let_def)
      qed
    qed
  qed
qed

lemma parseSSEStream_spec:
  assumes "scan_lines maxLine (resp_Body resp) = (lines, False)" and "resp_ReadErr resp = None"
  shows "\<exists>res n. parseSSEStream (\<lambda>_. None) resp = (Inr res, n) \<and>
    (res_Status res, res_Output res, res_Error res) = sse_spec (sse_events '''' lines)"
proof -
  obtain x r m where l: "sse_loop (\<lambda>_. None) 0 lines zero_event zero_RunResult [] = (x, r, m)"
    by (cases "sse_loop (\<lambda>_. None) 0 lines zero_event zero_RunResult []") auto
  have "res_Status zero_RunResult = ''''" by (simp add: zero_RunResult_def)
  from sse_loop_answer [OF this l] have ans: "sse_answer zero_RunResult [] (sse_events '''' lines) = (x, r)"
    by (simp add: zero_event_def)
  from sse_answer_spec [OF this] show ?thesis
    using assms l by (cases x) (auto simp: parseSSEStream_def split: sum.splits)
qed

text \<open>
  C12. While the context is alive, a stream that ends normally and has no line over the limit
  yields exactly the outcome of the specification: the first event that ends the task decides
  status, output and error; with no such event the run has failed.
\<close>

theorem parseSSEStream_first_terminal_event:
  assumes "scan_lines maxLine (resp_Body resp) = (lines, False)" and "resp_ReadErr resp = None"
  shows "\<exists>res n. parseSSEStream (\<lambda>_. None) resp = (Inr res, n) \<and>
    (res_Status res, res_Output res, res_Error res) = sse_spec (sse_events '''' lines)"
  using parseSSEStream_spec [OF assms] .

text \<open>A stream with a heartbeat, an artifact and a completed status without text.\<close>

definition sse_line :: "string \<Rightarrow> string" where "sse_line d = ''data: '' @ d @ newline @ newline"

definition demo_artifact :: string where
  "demo_artifact = json_object [(''result'', json_object [(''taskId'', json_string ''t1''),
     (''artifact'', json_object [(''parts'', ''['' @ json_object [(''text'', json_string ''42'')] @ '']'')])])]"

definition demo_completed :: string where
  "demo_completed = json_object [(''result'', json_object [(''status'', json_object [(''state'', json_string ''completed'')])])]"

definition demo_stream :: http_response where
  "demo_stream = \<lparr>resp_StatusCode = 200,
     resp_Body = sse_line ''ping'' @ sse_line demo_artifact @ sse_line demo_completed, resp_ReadErr = None\<rparr>"

lemma demo_lines: "scan_lines maxLine (resp_Body demo_stream) =
   ([''data: ping'', '''', ''data: '' @ demo_artifact, '''', ''data: '' @ demo_completed, ''''], False)"
  by code_simp

lemma demo_spec: "sse_spec (sse_events '''' [''data: ping'', '''', ''data: '' @ demo_artifact, '''', ''data: '' @ demo_completed, ''''])
   = (RunStatusCompleted, ''42'', '''')"
  by code_simp

theorem parseSSEStream_first_terminal_event_witness:
  "\<exists>res n. parseSSEStream (\<lambda>_. None) demo_stream = (Inr res, n) \<and>
    (res_Status res, res_Output res, res_Error res) = (RunStatusCompleted, ''42'', '''')"
  using parseSSEStream_first_terminal_event [OF demo_lines] unfolding demo_spec by (simp add: demo_stream_def)

text \<open>
  C18. The body of the request, read as JSON, is the JSON-RPC call with the prompt in it: no
  prompt can break out of its string, and a prompt in valid UTF-8 arrives unchanged
  (\<open>sanitize\<close> only replaces bytes that are not UTF-8, lemma \<open>sanitize_valid\<close>).
\<close>

theorem agent_request_body_roundtrip:
  "json_parse (hr_Body (agent_request r env req)) =
     (let taskID = JStr (sanitize (req_Namespace req @ ''-'' @ req_AgentName req @ ''-'' @ show_int (env_UnixNano env))) in
      Some (JObj [(''jsonrpc'', JStr ''2.0''), (''id'', taskID), (''method'', JStr ''message/stream''),
        (''params'', JObj [(''id'', taskID), (''message'', JObj [(''role'', JStr ''user''),
          (''parts'', JArr [JObj [(''kind'', JStr ''text''), (''text'', JStr (sanitize (req_Prompt req)))]])])])]))"
proof -
  have lit: "sanitize ''2.0'' = ''2.0''" "sanitize ''message/stream'' = ''message/stream''" "sanitize ''user'' = ''user''"
    "sanitize ''text'' = ''text''" "sanitize ''jsonrpc'' = ''jsonrpc''" "sanitize ''id'' = ''id''"
    "sanitize ''method'' = ''method''" "sanitize ''params'' = ''params''" "sanitize ''message'' = ''message''"
    "sanitize ''role'' = ''role''" "sanitize ''parts'' = ''parts''" "sanitize ''kind'' = ''kind''"
    by (simp_all add: Let_def)
  let ?tid = "req_Namespace req @ ''-'' @ req_AgentName req @ ''-'' @ show_int (env_UnixNano env)"
  note obj = encodes_object [where d = d and kvs = "kv # kvs" for d kv kvs] and str = encodes_string
  have lits: "encodes (json_string ''2.0'') (JStr ''2.0'') d" "encodes (json_string ''message/stream'') (JStr ''message/stream'') d"
     "encodes (json_string ''user'') (JStr ''user'') d" "encodes (json_string ''text'') (JStr ''text'') d" for d
    using str [of "''2.0''" d] str [of "''message/stream''" d] str [of "''user''" d] str [of "''text''" d] lit by simp_all
  have "encodes (marshal_part \<lparr>tp_Kind = ''text'', tp_Text = req_Prompt req\<rparr>)
      (JObj [(''kind'', JStr ''text''), (''text'', JStr (sanitize (req_Prompt req)))]) 9996"
    unfolding marshal_part_def by (rule obj) (simp_all add: lit lits str)
  then have "encodes (marshal_parts ([\<lparr>tp_Kind = ''text'', tp_Text = req_Prompt req\<rparr>], 1))
      (JArr [JObj [(''kind'', JStr ''text''), (''text'', JStr (sanitize (req_Prompt req)))]]) 9997"
    unfolding marshal_parts_def marshal_part_def using encodes_singleton [where d = 9997] by (simp add: elems_def)
  then have "encodes (marshal_message \<lparr>msg_Role = ''user'', msg_Parts = ([\<lparr>tp_Kind = ''text'', tp_Text = req_Prompt req\<rparr>], 1)\<rparr>)
      (JObj [(''role'', JStr ''user''), (''parts'', JArr [JObj [(''kind'', JStr ''text''), (''text'', JStr (sanitize (req_Prompt req)))]])]) 9998"
    unfolding marshal_message_def by (intro obj) (simp_all add: lit lits)
  then have "encodes (marshal_params (trq_Params (task_request env req)))
      (JObj [(''id'', JStr (sanitize ?tid)), (''message'', JObj [(''role'', JStr ''user''),
        (''parts'', JArr [JObj [(''kind'', JStr ''text''), (''text'', JStr (sanitize (req_Prompt req)))]])])]) 9999"
    unfolding marshal_params_def task_request_def Let_def by (intro obj) (simp_all add: lit lits str)
  then have "encodes (hr_Body (agent_request r env req))
      (JObj [(''jsonrpc'', JStr ''2.0''), (''id'', JStr (sanitize ?tid)), (''method'', JStr ''message/stream''),
        (''params'', JObj [(''id'', JStr (sanitize ?tid)), (''message'', JObj [(''role'', JStr ''user''),
          (''parts'', JArr [JObj [(''kind'', JStr ''text''), (''text'', JStr (sanitize (req_Prompt req)))]])])])]) maxNestingDepth"
    unfolding agent_request_def marshal_request_def maxNestingDepth_def
    by (simp only: http_request.simps, intro obj) (simp_all add: lit lits str task_request_def Let_def)
  then show ?thesis by (simp add: json_parse_encodes Let_def)
qed

text \<open>
  C16. Whatever the network, the context and the clock do, a call that returns a result returns
  one of the three statuses with the time it took; it says Completed only after a response
  200 to the request it sent, and TimedOut only if the context had an error.
\<close>

theorem RunAgent_result_contract:
  assumes "A2ARunner_RunAgent r net req = (Inr res, net')"
  shows "known_status (res_Status res) \<and> res_Duration res = env_Since (net_env net (net_calls net)) \<and>
    net_sent net' = net_sent net @ [agent_request r (net_env net (net_calls net)) req] \<and>
    (res_Status res = RunStatusCompleted \<longrightarrow>
       (\<exists>resp. env_Do (net_env net (net_calls net)) (agent_request r (net_env net (net_calls net)) req) = Inr resp \<and>
          resp_StatusCode resp = 200)) \<and>
    (res_Status res = RunStatusTimedOut \<longrightarrow>
       (\<exists>n. env_CtxErr (net_env net (net_calls net)) (if req_Timeout req > 0 then Some (req_Timeout req) else None) n \<noteq> None))"
proof -
  let ?env = "net_env net (net_calls net)"
  let ?ctx = "env_CtxErr ?env (if req_Timeout req > 0 then Some (req_Timeout req) else None)"
  have nr: "env_NewRequest ?env (agent_url r req) = None"
    and net': "net_sent net' = net_sent net @ [agent_request r ?env req]"
    using assms by (auto simp: A2ARunner_RunAgent_def Let_def split: option.splits)
  show ?thesis
  proof (cases "env_Do ?env (agent_request r ?env req)")
    case (Inl e)
    then have "?ctx 0 \<noteq> None" "timed_out ?env ''agent invocation timed out'' = Inr res"
      using assms nr by (auto simp: A2ARunner_RunAgent_def Let_def split: if_splits)
    moreover from this have "\<exists>n. ?ctx n \<noteq> None" by blast
    ultimately show ?thesis
      using net' by (auto simp: timed_out_def known_status_def zero_RunResult_def simp del: not_None_eq)
  next
    case (Inr resp)
    then have "handle_response ?env ?ctx resp = Inr res"
      using assms nr by (simp add: A2ARunner_RunAgent_def Let_def)
    from handle_response_known [OF this] show ?thesis using net' Inr by blast
  qed
qed

text \<open>A network that answers every call with the stream above.\<close>

definition demo_env :: http_env where
  "demo_env = \<lparr>env_UnixNano = 7, env_Since = 3 * Second, env_NewRequest = (\<lambda>_. None),
     env_Do = (\<lambda>_. Inr demo_stream), env_CtxErr = (\<lambda>_ _. None)\<rparr>"

definition demo_net :: a2a_net where
  "demo_net = \<lparr>net_env = (\<lambda>_. demo_env), net_calls = 0, net_sent = []\<rparr>"

definition demo_req :: RunRequest where
  "demo_req = \<lparr>req_AgentName = ''a'', req_Namespace = ''ns'', req_Prompt = ''hi'', req_Timeout = 5 * Minute\<rparr>"

lemma demo_stream_parse:
  "\<exists>res n. parseSSEStream (\<lambda>_. None) demo_stream = (Inr res, n) \<and> res_Status res = RunStatusCompleted"
proof -
  have "case parseSSEStream (\<lambda>_. None) demo_stream of (Inr res, _) \<Rightarrow> res_Status res = RunStatusCompleted | _ \<Rightarrow> False"
    by code_simp
  then show ?thesis by (auto split: prod.splits sum.splits)
qed

lemma demo_call: "\<exists>res net'. A2ARunner_RunAgent (NewA2ARunner '''' '''') demo_net demo_req = (Inr res, net') \<and>
    res_Status res = RunStatusCompleted"
  using demo_stream_parse
  by (auto simp: A2ARunner_RunAgent_def handle_response_def demo_net_def demo_env_def Let_def demo_stream_def)

theorem RunAgent_result_contract_witness:
  "\<exists>res net'. A2ARunner_RunAgent (NewA2ARunner '''' '''') demo_net demo_req = (Inr res, net') \<and>
     res_Status res = RunStatusCompleted \<and> res_Duration res = 3 * Second \<and> length (net_sent net') = 1"
proof -
  obtain res net' where c: "A2ARunner_RunAgent (NewA2ARunner '''' '''') demo_net demo_req = (Inr res, net')"
    "res_Status res = RunStatusCompleted" using demo_call by blast
  from RunAgent_result_contract [OF c(1)] show ?thesis using c by (auto simp: demo_net_def demo_env_def)
qed

lemma sse_loop_expired:
  "res_Status res = '''' \<Longrightarrow> k < length lines \<Longrightarrow> \<forall>m<k. ctx (n + m) = None \<Longrightarrow> ctx (n + k) = Some e \<Longrightarrow>
   list_all (\<lambda>d. \<not> ends_task d) (sse_events (sse_Data ev) (take k lines)) \<Longrightarrow>
   \<exists>r. sse_loop ctx n lines ev res arts = (Some (Inl e), r, Suc (n + k))"
proof (induction lines arbitrary: n k ev res arts)
  case (Cons line rest)
  show ?case
  proof (cases k)
    case 0
    then show ?thesis using Cons.prems(4) by simp
  next
    case (Suc j)
    have alive: "ctx n = None" using Cons.prems(3) Suc by (auto dest: spec [of _ 0])
    have later: "\<forall>m<j. ctx (Suc n + m) = None" "ctx (Suc n + j) = Some e" "j < length rest"
      using Cons.prems(2-4) Suc by auto
    have go: "\<exists>r. sse_loop ctx (Suc n) rest ev' res' arts' = (Some (Inl e), r, Suc (n + k))"
      if "res_Status res' = ''''" "list_all (\<lambda>d. \<not> ends_task d) (sse_events (sse_Data ev') (take j rest))" for ev' res' arts'
      using Cons.IH [OF that(1) later(3,1,2) that(2)] Suc by simp
    show ?thesis
    proof (cases "line = '''' \<and> sse_Data ev \<noteq> ''''")
      case True
      obtain x r a where p: "processEvent ev res arts = (x, r, a)" by (cases "processEvent ev res arts") auto
      have ends: "\<not> ends_task (sse_Data ev)" "list_all (\<lambda>d. \<not> ends_task d) (sse_events '''' (take j rest))"
        using Cons.prems(5) True Suc by simp_all
      have st: "res_Status r = ''''" using processEvent_cases(3) [OF p ends(1)] Cons.prems(1) by simp
      then have "\<not> terminal_status r" by (simp add: terminal_status_def)
      then show ?thesis
        using go [OF st, of zero_event] ends(2) alive True p processEvent_cases(1) [OF p] by (simp add: zero_event_def)
    next
      case False
      then show ?thesis
        using go [OF Cons.prems(1)] Cons.prems(5) alive Suc by (auto simp: zero_event_def split: if_splits)
    qed
  qed
qed simp

text \<open>
  C17. When the context expires after \<open>k\<close> lines of the stream, before an event that
  ends the task is complete and while there is another line, the stream is given up at that line
  and the call reports that it timed out, whatever the rest of the stream says.
\<close>

theorem expired_context_times_out:
  assumes "resp_StatusCode resp = 200" and "scan_lines maxLine (resp_Body resp) = (lines, tooLong)"
    and "k < length lines" and "\<forall>m<k. ctx m = None" and "\<forall>m\<ge>k. ctx m \<noteq> None"
    and "list_all (\<lambda>d. \<not> ends_task d) (sse_events '''' (take k lines))"
  shows "handle_response env ctx resp =
    Inr (zero_RunResult\<lparr>res_Status := RunStatusTimedOut, res_Duration := env_Since env,
       res_Error := ''agent invocation timed out during SSE stream''\<rparr>)"
proof -
  obtain e where e: "ctx k = Some e" using assms(5) by blast
  obtain r where "sse_loop ctx 0 lines zero_event zero_RunResult [] = (Some (Inl e), r, Suc k)"
    using sse_loop_expired [of zero_RunResult k lines ctx 0 e zero_event "[]"] assms(3,4,6) e
    by (auto simp: zero_RunResult_def zero_event_def)
  then have "parseSSEStream ctx resp = (Inl e, Suc k)" using assms(2) by (simp add: parseSSEStream_def)
  then show ?thesis using assms(5) assms(1) by (simp add: handle_response_def timed_out_def)
qed

theorem expired_context_times_out_witness:
  "handle_response demo_env (\<lambda>m. if m < 4 then None else Some (ErrText ''context deadline exceeded'')) demo_stream =
    Inr (zero_RunResult\<lparr>res_Status := RunStatusTimedOut, res_Duration := 3 * Second,
       res_Error := ''agent invocation timed out during SSE stream''\<rparr>)"
proof -
  have quiet: "list_all (\<lambda>d. \<not> ends_task d)
      (sse_events '''' (take 4 [''data: ping'', '''', ''data: '' @ demo_artifact, '''', ''data: '' @ demo_completed, '''']))"
    by code_simp
  show ?thesis
    using expired_context_times_out [OF _ demo_lines _ _ _ quiet,
        of "\<lambda>m. if m < 4 then None else Some (ErrText ''context deadline exceeded'')" demo_env]
    by (simp add: demo_stream_def demo_env_def)
qed

end
