(* ===== verification/Operator_A2A.thy ===== *)
theory Operator_A2A
  imports Output_Integrity A2A_Runner
begin

text \<open>
  The reconciler with the A2A runner plugged in: what the event stream of an agent means for
  the pipeline. A stage whose stream ends completed is stored with the text of the stream as
  its output, one whose stream ends otherwise is failed with the error of the stream.
\<close>

section \<open>A call whose stream ends normally\<close>

text \<open>\<open>answers net r req lines\<close>: the next call over the network is answered with status 200 and these lines.\<close>

definition answers :: "A2ARunner \<Rightarrow> a2a_net \<Rightarrow> RunRequest \<Rightarrow> string list \<Rightarrow> bool" where
  "answers r net req lines \<longleftrightarrow>
     (let env = net_env net (net_calls net) in
      env_NewRequest env (agent_url r req) = None \<and>
      env_CtxErr env (if req_Timeout req > 0 then Some (req_Timeout req) else None) = (\<lambda>_. None) \<and>
      (case env_Do env (agent_request r env req) of
         Inl e \<Rightarrow> False
       | Inr resp \<Rightarrow> resp_StatusCode resp = 200 \<and> resp_ReadErr resp = None \<and>
           scan_lines maxLine (resp_Body resp) = (lines, False)))"

lemma RunAgent_answered:
  assumes "answers r net req lines"
  obtains res net' where "A2ARunner_RunAgent r net req = (Inr res, net')"
    "(res_Status res, res_Output res, res_Error res) = sse_spec (sse_events '''' lines)"
    "net_sent net' = net_sent net @ [agent_request r (net_env net (net_calls net)) req]"
proof -
  let ?env = "net_env net (net_calls net)"
  obtain resp where resp: "env_Do ?env (agent_request r ?env req) = Inr resp" "resp_StatusCode resp = 200"
    "resp_ReadErr resp = None" "scan_lines maxLine (resp_Body resp) = (lines, False)"
    and env: "env_NewRequest ?env (agent_url r req) = None"
    "env_CtxErr ?env (if req_Timeout req > 0 then Some (req_Timeout req) else None) = (\<lambda>_. None)"
    using assms by (auto simp: answers_def Let_def split: sum.splits)
  obtain res n where "parseSSEStream (\<lambda>_. None) resp = (Inr res, n)"
    "(res_Status res, res_Output res, res_Error res) = sse_spec (sse_events '''' lines)"
    using parseSSEStream_spec [OF resp(4,3)] by blast
  then show thesis
    using that [of "res\<lparr>res_Duration := env_Since ?env\<rparr>"] resp(1,2) env
    by (simp add: A2ARunner_RunAgent_def handle_response_def Let_def del: if_split)
qed

lemma sse_spec_status: "fst (sse_spec ds) = RunStatusCompleted \<or> fst (sse_spec ds) = RunStatusFailed"
  by (auto simp: sse_spec_def Let_def split: list.splits option.splits)

section \<open>What becomes of the stage\<close>

lemma stage_end_runner:
  "completeStage R w p stage i res = (x, w') \<Longrightarrow> w_runner w' = w_runner w"
  "failStage R w p i m = (x, w') \<Longrightarrow> w_runner w' = w_runner w"
proof -
  show "w_runner w' = w_runner w" if c: "completeStage R w p stage i res = (x, w')"
  proof -
    obtain y v where y: "StoreOutput R w p (sp_Name stage) (res_Output res) = (y, v)" by fastforce
    then have "w_runner v = w_runner w" by (auto dest: StoreOutput_same_run simp: same_run_def)
    then show ?thesis
      using c y by (auto simp: completeStage_def do_StatusUpdate_def metav1_Now_def Let_def split: prod.splits sum.splits)
  qed
  show "w_runner w' = w_runner w" if "failStage R w p i m = (x, w')"
    using that by (auto simp: failStage_def do_StatusUpdate_def metav1_Now_def Let_def split: prod.splits sum.splits)
qed

context k8s_reliable
begin

lemma finish_run_result:
  assumes eq: "finish_run R w (running_at p stage i t0) stage i (Inr res) = (x, w')"
    and up: "up (w_cluster w)" and st: "stored (w_cluster w) k = Some p" and k: "p_key p = k"
    and i: "i < length (p_statuses p)" and status: "res_Status res = RunStatusCompleted \<or> res_Status res = RunStatusFailed"
    and fit: "length configMapDataKey + length (res_Output res) \<le> limit"
    and meta: "valid_meta (output_config_map p (sp_Name stage) (res_Output res))"
  shows "x = Ret requeue_now None \<and> w_runner w' = w_runner w \<and> (\<exists>p'. stored (w_cluster w') k = Some p' \<and>
    (if res_Status res = RunStatusCompleted
     then st_Phase (cur_status p' i) = StageCompleted \<and> st_Output (cur_status p' i) = truncateOutput (res_Output res) \<and>
       output_at stored_cm (w_cluster w') (p_ns p) (outputConfigMapName (p_name p) (sp_Name stage)) = Some (res_Output res)
     else st_Phase (cur_status p' i) = StageFailed \<and> st_Error (cur_status p' i) = res_Error res \<and>
       stored_cm (w_cluster w') = stored_cm (w_cluster w)))"
proof (cases "res_Status res = RunStatusCompleted")
  case True
  let ?p = "running_at p stage i t0"
  have valid: "valid_AgentPipelineStatus (ap_Status ?p)" by (rule valid_running_at [OF conjunct1 [OF up_valid [OF up st]]])
  have meta: "valid_meta (output_config_map ?p (sp_Name stage) (res_Output res))"
    using meta output_config_map_cong [of ?p p] by simp
  have c: "completeStage R w ?p stage i res = (x, w')" using eq True by (simp add: finish_run_def)
  obtain v where v: "StoreOutput R w ?p (sp_Name stage) (res_Output res) =
      (Inr (outputConfigMapName (p_name ?p) (sp_Name stage), truncateOutput (res_Output res)), v)" "up (w_cluster v)"
    using StoreOutput_up [OF up fit meta] by blast
  define S where "S = (\<lambda>s :: AgentPipelineStatus. st_Phase (sts_Stages s ! i) = StageCompleted \<and>
    st_Output (sts_Stages s ! i) = truncateOutput (res_Output res))"
  have S: "S (ap_Status (set_stage i (\<lambda>s. s\<lparr>st_Phase := StageCompleted, st_CompletedAt := Some t,
               st_Output := truncateOutput (res_Output res),
               st_OutputRef := outputConfigMapName (p_name ?p) (sp_Name stage), st_TaskID := res_TaskID res\<rparr>) ?p))" for t
    using i by (simp add: S_def ap_Status_set_stage)
  note move = completeStage_up [where S = S, OF c up st _ k fit S meta valid]
  then obtain p' where p': "stored (w_cluster w') k = Some p'" "S (ap_Status p')"
    by (auto simp: moved_def carries_def)
  have snv: "snapshot (stored (w_cluster v)) k p" using StoreOutput_keeps_pipelines [OF v(1)] st k by (simp add: snapshot_stored)
  have "stored_cm (w_cluster w') = stored_cm (w_cluster (v\<lparr>w_clock := Suc (w_clock v)\<rparr>))"
    by (rule after_StatusUpdate(2) [where S = "\<lambda>_. True" and k = k and p = p,
          OF c [unfolded completeStage_def v(1) metav1_Now_def Let_def prod.case sum.case]]) (use snv k in simp_all)
  moreover have "output_at stored_cm (w_cluster v) (p_ns ?p) (outputConfigMapName (p_name ?p) (sp_Name stage)) = Some (res_Output res)"
    using StoreOutput_Inr(3) [OF v(1)] by (auto simp: output_at_def)
  ultimately show ?thesis
    using True p' move(3) stage_end_runner(1) [OF c] by (auto simp: S_def output_at_def)
next
  case False
  let ?p = "running_at p stage i t0"
  have valid: "valid_AgentPipelineStatus (ap_Status ?p)" by (rule valid_running_at [OF conjunct1 [OF up_valid [OF up st]]])
  have f: "failStage R w ?p i (res_Error res) = (x, w')" using eq status False by (simp add: finish_run_def)
  define S where "S = (\<lambda>s :: AgentPipelineStatus. st_Phase (sts_Stages s ! i) = StageFailed \<and>
    st_Error (sts_Stages s ! i) = res_Error res)"
  have S: "S (ap_Status (set_stage i (\<lambda>s. s\<lparr>st_Phase := StageFailed, st_CompletedAt := Some t, st_Error := res_Error res\<rparr>) ?p))" for t
    using i by (simp add: S_def ap_Status_set_stage)
  note move = failStage_up [where S = S, OF f up st _ k S valid]
    and eff = failStage_effect [where S = S, OF f snapshot_stored [of "stored (w_cluster w)", OF st k] _ k S]
  then obtain p' where "stored (w_cluster w') k = Some p'" "S (ap_Status p')"
    by (auto simp: moved_def carries_def)
  then show ?thesis using False move(3) eff(2) stage_end_runner(2) [OF f] by (auto simp: S_def)
qed

end

context k8s_reliable
begin

lemma Reconcile_answered:
  assumes up: "up (w_cluster w)" and st: "stored (w_cluster w) k = Some p" and key: "p_key p = k" and al: "alive p"
    and wk: "working_on p stage i" "st_Phase (cur_status p i) = StagePending"
    and names: "distinct (map sp_Name (p_stages p))"
    and new: "stored_cm (w_cluster w) (output_key p stage) = None"
    and kept: "outputs_kept (output_at stored_cm (w_cluster w) (p_ns p)) p"
    and prompt: "RenderPrompt R stage (stage_context (output_at stored_cm (w_cluster w) (p_ns p)) p i) = Inr prompt"
    and res: "Runner_RunAgent R (w_runner w) (run_request p stage prompt) = (Inr res, net')"
    and status: "res_Status res = RunStatusCompleted \<or> res_Status res = RunStatusFailed"
    and fit: "length configMapDataKey + length (res_Output res) \<le> limit"
    and r: "Reconcile R w k = (x, w')"
    and ad: "valid_AgentPipelineSpec (ap_Spec p)" "names_fit p"
  shows "x = Ret requeue_now None \<and> w_runner w' = net' \<and> (\<exists>p'. stored (w_cluster w') k = Some p' \<and>
    (if res_Status res = RunStatusCompleted
     then st_Phase (cur_status p' i) = StageCompleted \<and> st_Output (cur_status p' i) = truncateOutput (res_Output res) \<and>
       output_at stored_cm (w_cluster w') (p_ns p) (outputConfigMapName (p_name p) (sp_Name stage)) = Some (res_Output res)
     else st_Phase (cur_status p' i) = StageFailed \<and> st_Error (cur_status p' i) = res_Error res \<and>
       stored_cm (w_cluster w') = stored_cm (w_cluster w)))"
proof -
  obtain v where v: "Reconcile R w k = startStage R v p stage i" "up (w_cluster v)"
    "stored (w_cluster v) = stored (w_cluster w)" "stored_cm (w_cluster v) = stored_cm (w_cluster w)" "same_run w v"
    by (rule Reconcile_starts [OF up st al wk])
  have out: "output_at stored_cm (w_cluster v) = output_at stored_cm (w_cluster w)"
    using v(4) by (simp add: output_at_def fun_eq_iff)
  obtain t0 u where u: "up (w_cluster u)" "stored (w_cluster u) = stored (w_cluster v)"
    "stored_cm (w_cluster u) = stored_cm (w_cluster v)" "w_runner u = w_runner v"
    and run: "startStage R v p stage i =
      (case RenderPrompt R stage (stage_context (output_at stored_cm (w_cluster v) (p_ns p)) p i) of
         Inl err \<Rightarrow> failStage R u (running_at p stage i t0) i (''rendering prompt: '' @ error_text err)
       | Inr prompt \<Rightarrow> finish_run R (snd (do_RunAgent R u (run_request p stage prompt)))
           (running_at p stage i t0) stage i (fst (do_RunAgent R u (run_request p stage prompt))))"
    using outputs_kept_avail [OF kept] new v(4) out
    by - (rule startStage_invokes [OF v(2) wk names], simp_all)
  let ?r = "do_RunAgent R u (run_request p stage prompt)"
  have ag: "fst ?r = Inr res" "w_runner (snd ?r) = net'" using res u(4) v(5) by (simp_all add: do_RunAgent_def same_run_def)
  have fin: "finish_run R (snd ?r) (running_at p stage i t0) stage i (Inr res) = (x, w')"
    using r v(1) run prompt out ag by simp
  have env: "up (w_cluster (snd ?r))" "stored (w_cluster (snd ?r)) k = Some p"
    and cms: "stored_cm (w_cluster (snd ?r)) = stored_cm (w_cluster w)"
    using u(1-3) v(3,4) st by simp_all
  have "i < length (p_statuses p)" using FindCurrentStage_SomeD(1) wk(1) by (simp add: working_on_def)
  from finish_run_result [OF fin env key this status fit names_fit_valid [OF ad(2,1) wk(1)]] show ?thesis unfolding cms ag(2) .
qed

end

section \<open>Properties\<close>

text \<open>
  C8. With the A2A runner and an API server in good order, a pending stage of a live admitted
  pipeline whose names are distinct and fit into labels, with no output stored yet, those of the
  stages before it stored and a prompt that renders, and whose agent answers the request with 200
  and a stream that ends normally with an output that can be stored, becomes what the stream says:
  completed, with the text of the stream stored whole in its ConfigMap and truncated in the
  status, or failed with the error of the stream; one request is sent.
\<close>

theorem stage_outcome_is_stream_outcome:
  assumes "k8s_reliable R stored stored_cm up limit" and "Runner_RunAgent R = A2ARunner_RunAgent r"
    and "up (w_cluster w)" and "stored (w_cluster w) k = Some p" and "p_key p = k" and "alive p"
    and "working_on p stage i" and "st_Phase (cur_status p i) = StagePending" and "distinct (map sp_Name (p_stages p))"
    and "stored_cm (w_cluster w) (output_key p stage) = None"
    and "outputs_kept (output_at stored_cm (w_cluster w) (p_ns p)) p"
    and "RenderPrompt R stage (stage_context (output_at stored_cm (w_cluster w) (p_ns p)) p i) = Inr prompt"
    and "answers r (w_runner w) (run_request p stage prompt) lines"
    and "sse_spec (sse_events '''' lines) = (status, out, err)" and "length configMapDataKey + length out \<le> limit"
    and "Reconcile R w k = (x, w')" and "valid_AgentPipelineSpec (ap_Spec p)" and "names_fit p"
  shows "x = Ret requeue_now None \<and> length (net_sent (w_runner w')) = Suc (length (net_sent (w_runner w))) \<and>
    (\<exists>p'. stored (w_cluster w') k = Some p' \<and>
      (if status = RunStatusCompleted
       then st_Phase (cur_status p' i) = StageCompleted \<and> st_Output (cur_status p' i) = truncateOutput out \<and>
         output_at stored_cm (w_cluster w') (p_ns p) (outputConfigMapName (p_name p) (sp_Name stage)) = Some out
       else st_Phase (cur_status p' i) = StageFailed \<and> st_Error (cur_status p' i) = err \<and>
         stored_cm (w_cluster w') = stored_cm (w_cluster w)))"
proof -
  obtain res net' where res: "A2ARunner_RunAgent r (w_runner w) (run_request p stage prompt) = (Inr res, net')"
    "(res_Status res, res_Output res, res_Error res) = sse_spec (sse_events '''' lines)"
    "net_sent net' = net_sent (w_runner w) @ [agent_request r (net_env (w_runner w) (net_calls (w_runner w))) (run_request p stage prompt)]"
    by (rule RunAgent_answered [OF assms(13)])
  have s: "res_Status res = status" "res_Output res = out" "res_Error res = err" using res(2) assms(14) by auto
  have known: "res_Status res = RunStatusCompleted \<or> res_Status res = RunStatusFailed"
    using s(1) sse_spec_status [of "sse_events '''' lines"] assms(14) by simp
  have call: "Runner_RunAgent R (w_runner w) (run_request p stage prompt) = (Inr res, net')" using res(1) assms(2) by simp
  have fit: "length configMapDataKey + length (res_Output res) \<le> limit" using s(2) assms(15) by simp
  note ends = k8s_reliable.Reconcile_answered [OF assms(1,3-12) call known fit assms(16-18), unfolded s]
  then have "length (net_sent (w_runner w')) = Suc (length (net_sent (w_runner w)))" using res(3) by simp
  then show ?thesis using ends by blast
qed

theorem stage_outcome_is_stream_outcome_witness:
  "output_at mem_cms (w_cluster (snd (Reconcile (mem_env 100 (A2ARunner_RunAgent (NewA2ARunner '''' '''')))
      (demo_world half_cluster demo_net) demo_key))) ''ns'' ''p-stage-fix'' = Some ''42''"
proof -
  let ?R = "mem_env 100 (A2ARunner_RunAgent (NewA2ARunner '''' ''''))" and ?w = "demo_world half_cluster demo_net"
  have prompt: "RenderPrompt ?R fix_stage \<lparr>pc_PreviousOutput = ''found'', pc_Inputs = [], pc_stageOutputs = Some [''scan'' \<mapsto> ''found'']\<rparr>
      = Inr ''fix found''"
    using frag.run_PreviousOutput [of "''fix ''" "''''"] by (simp add: RenderPrompt_def demo_stage_def mem_env_def HasPrefix_def)
  have "answers (NewA2ARunner '''' '''') demo_net (run_request half_way fix_stage ''fix found'')
      [''data: ping'', '''', ''data: '' @ demo_artifact, '''', ''data: '' @ demo_completed, '''']"
    using demo_lines by (simp add: answers_def Let_def demo_net_def demo_env_def) (simp add: demo_stream_def)
  then have ans: "answers (NewA2ARunner '''' '''') (w_runner ?w) (run_request half_way fix_stage ''fix found'')
      [''data: ping'', '''', ''data: '' @ demo_artifact, '''', ''data: '' @ demo_completed, '''']"
    by (simp add: demo_world_def)
  have run: "Runner_RunAgent ?R = A2ARunner_RunAgent (NewA2ARunner '''' '''')" by (simp add: mem_env_def)
  have new: "mem_cms (w_cluster ?w) (output_key half_way fix_stage) = None"
    by (simp add: half_way_pending half_cluster_outputs outputConfigMapName_def demo_stage_def)
  have pr: "RenderPrompt ?R fix_stage (stage_context (output_at mem_cms (w_cluster ?w) (p_ns half_way)) half_way 1) = Inr ''fix found''"
    using prompt half_way_context by (simp add: half_way_pending)
  show ?thesis
    using stage_outcome_is_stream_outcome [OF mem_reliable run _ _ _ _ half_way_working half_way_pending(2,1) new _ pr ans demo_spec _
        prod.collapse [symmetric], of demo_key] half_way_kept
    by (auto simp: half_way_pending configMapDataKey_def outputConfigMapName_def demo_stage_def)
qed

end
