(* ===== verification/Operator_Main.thy ===== *)
theory Operator_Main
  imports A2A_Runner
begin

text \<open>
  The program's entry point (\<open>cmd/main.go\<close>): the command line as Go's
  \<open>flag\<close> package parses it, the options of the metrics and webhook servers and of the
  manager, the A2A runner built from the environment, the set-up of the controller and the start
  of the manager, in the order of the code, with every exit. Before \<open>main\<close> run the
  initializers of the API package (\<open>groupversion_info.go\<close>,
  \<open>agentpipeline_types.go\<close>) and of \<open>main\<close> itself, which register the
  types in the scheme and panic if that fails. The manager (controller-runtime), its constructor,
  the scheme, the check registration and the flags that zap adds are fields of
  \<open>main_env\<close>; the steps the program takes are recorded in a trace.
\<close>

section \<open>The command line\<close>

text \<open>The variables \<open>main\<close> binds to flags, with the defaults they are bound with.\<close>

record main_flags =
  fl_metricsAddr :: string
  fl_probeAddr :: string
  fl_enableLeaderElection :: bool
  fl_secureMetrics :: bool
  fl_webhookCertPath :: string
  fl_webhookCertName :: string
  fl_webhookCertKey :: string
  fl_metricsCertPath :: string
  fl_metricsCertName :: string
  fl_metricsCertKey :: string
  fl_enableHTTP2 :: bool

definition default_flags :: main_flags where
  "default_flags = \<lparr>fl_metricsAddr = ''0'', fl_probeAddr = '':8081'', fl_enableLeaderElection = False,
     fl_secureMetrics = True, fl_webhookCertPath = '''', fl_webhookCertName = ''tls.crt'',
     fl_webhookCertKey = ''tls.key'', fl_metricsCertPath = '''', fl_metricsCertName = ''tls.crt'',
     fl_metricsCertKey = ''tls.key'', fl_enableHTTP2 = False\<rparr>"

text \<open>A flag of the set: one of ours, with how a value updates the variables, or one of zap's.\<close>

datatype flag_def =
    BoolVar "bool \<Rightarrow> main_flags \<Rightarrow> main_flags"
  | StringVar "string \<Rightarrow> main_flags \<Rightarrow> main_flags"
  | Foreign bool "string \<Rightarrow> bool"  \<comment> \<open>whether it is boolean, and whether it accepts a value\<close>

definition own_flag :: "string \<Rightarrow> flag_def option" where
  "own_flag n =
     (if n = ''metrics-bind-address'' then Some (StringVar (\<lambda>v f. f\<lparr>fl_metricsAddr := v\<rparr>))
      else if n = ''health-probe-bind-address'' then Some (StringVar (\<lambda>v f. f\<lparr>fl_probeAddr := v\<rparr>))
      else if n = ''leader-elect'' then Some (BoolVar (\<lambda>v f. f\<lparr>fl_enableLeaderElection := v\<rparr>))
      else if n = ''metrics-secure'' then Some (BoolVar (\<lambda>v f. f\<lparr>fl_secureMetrics := v\<rparr>))
      else if n = ''webhook-cert-path'' then Some (StringVar (\<lambda>v f. f\<lparr>fl_webhookCertPath := v\<rparr>))
      else if n = ''webhook-cert-name'' then Some (StringVar (\<lambda>v f. f\<lparr>fl_webhookCertName := v\<rparr>))
      else if n = ''webhook-cert-key'' then Some (StringVar (\<lambda>v f. f\<lparr>fl_webhookCertKey := v\<rparr>))
      else if n = ''metrics-cert-path'' then Some (StringVar (\<lambda>v f. f\<lparr>fl_metricsCertPath := v\<rparr>))
      else if n = ''metrics-cert-name'' then Some (StringVar (\<lambda>v f. f\<lparr>fl_metricsCertName := v\<rparr>))
      else if n = ''metrics-cert-key'' then Some (StringVar (\<lambda>v f. f\<lparr>fl_metricsCertKey := v\<rparr>))
      else if n = ''enable-http2'' then Some (BoolVar (\<lambda>v f. f\<lparr>fl_enableHTTP2 := v\<rparr>))
      else None)"

text \<open>\<open>strconv.ParseBool\<close>.\<close>

definition ParseBool :: "string \<Rightarrow> bool option" where
  "ParseBool s =
     (if s \<in> {''1'', ''t'', ''T'', ''TRUE'', ''true'', ''True''} then Some True
      else if s \<in> {''0'', ''f'', ''F'', ''FALSE'', ''false'', ''False''} then Some False else None)"

definition set_flag :: "flag_def \<Rightarrow> string \<Rightarrow> main_flags \<Rightarrow> main_flags option" where
  "set_flag d v f =
     (case d of
        BoolVar upd \<Rightarrow> map_option (\<lambda>b. upd b f) (ParseBool v)
      | StringVar upd \<Rightarrow> Some (upd v f)
      | Foreign _ ok \<Rightarrow> if ok v then Some f else None)"

definition is_bool_flag :: "flag_def \<Rightarrow> bool" where
  "is_bool_flag d = (case d of BoolVar _ \<Rightarrow> True | StringVar _ \<Rightarrow> False | Foreign b _ \<Rightarrow> b)"

text \<open>\<open>name=value\<close> at the first equals sign after the first character.\<close>

definition split_eq :: "string \<Rightarrow> string \<times> string option" where
  "split_eq s = (case s of [] \<Rightarrow> ('''', None) | c # t \<Rightarrow>
     (case dropWhile (\<lambda>x. x \<noteq> CHR ''='') t of
        [] \<Rightarrow> (s, None) | _ # v \<Rightarrow> (c # takeWhile (\<lambda>x. x \<noteq> CHR ''='') t, Some v)))"

text \<open>\<open>flag.Parse\<close> with \<open>flag.ExitOnError\<close>: an exit code, or the variables after it.\<close>

definition flag_name :: "string \<Rightarrow> string" where
  "flag_name s = (if HasPrefix s ''--'' then drop 2 s else drop 1 s)"

fun flag_Parse :: "(string \<Rightarrow> flag_def option) \<Rightarrow> main_flags \<Rightarrow> string list \<Rightarrow> nat + main_flags" where
  "flag_Parse defs f [] = Inr f"
| "flag_Parse defs f (s # args) =
     (if length s < 2 \<or> \<not> HasPrefix s ''-'' then Inr f
      else if s = ''--'' then Inr f
      else if flag_name s = '''' \<or> HasPrefix (flag_name s) ''-'' \<or> HasPrefix (flag_name s) ''='' then Inl 2
      else
        (case split_eq (flag_name s) of (name, val) \<Rightarrow>
           (case defs name of
              None \<Rightarrow> if name = ''help'' \<or> name = ''h'' then Inl 0 else Inl 2
            | Some d \<Rightarrow>
                if is_bool_flag d then
                  (case set_flag d (case val of None \<Rightarrow> ''true'' | Some v \<Rightarrow> v) f of
                     None \<Rightarrow> Inl 2 | Some f' \<Rightarrow> flag_Parse defs f' args)
                else
                  (case val of
                     Some v \<Rightarrow> (case set_flag d v f of None \<Rightarrow> Inl 2 | Some f' \<Rightarrow> flag_Parse defs f' args)
                   | None \<Rightarrow>
                       (case args of
                          [] \<Rightarrow> Inl 2
                        | v # args' \<Rightarrow> (case set_flag d v f of None \<Rightarrow> Inl 2 | Some f' \<Rightarrow> flag_Parse defs f' args'))))))"

section \<open>Options\<close>

record tls_Config =
  tls_NextProtos :: "string list"

definition disableHTTP2 :: "tls_Config \<Rightarrow> tls_Config" where
  "disableHTTP2 c = c\<lparr>tls_NextProtos := [''http/1.1'']\<rparr>"

definition main_tlsOpts :: "main_flags \<Rightarrow> (tls_Config \<Rightarrow> tls_Config) list" where
  "main_tlsOpts f = (if \<not> fl_enableHTTP2 f then [] @ [disableHTTP2] else [])"

record webhook_Options =
  wh_TLSOpts :: "(tls_Config \<Rightarrow> tls_Config) list"
  wh_CertDir :: string
  wh_CertName :: string
  wh_KeyName :: string

definition webhook_options :: "main_flags \<Rightarrow> webhook_Options" where
  "webhook_options f =
     (let opts = \<lparr>wh_TLSOpts = main_tlsOpts f, wh_CertDir = '''', wh_CertName = '''', wh_KeyName = ''''\<rparr>
      in if length (fl_webhookCertPath f) > 0
         then opts\<lparr>wh_CertDir := fl_webhookCertPath f, wh_CertName := fl_webhookCertName f,
                wh_KeyName := fl_webhookCertKey f\<rparr>
         else opts)"

datatype filter_provider = WithAuthenticationAndAuthorization

record metrics_Options =
  ms_BindAddress :: string
  ms_SecureServing :: bool
  ms_TLSOpts :: "(tls_Config \<Rightarrow> tls_Config) list"
  ms_FilterProvider :: "filter_provider option"
  ms_CertDir :: string
  ms_CertName :: string
  ms_KeyName :: string

definition metrics_options :: "main_flags \<Rightarrow> metrics_Options" where
  "metrics_options f =
     (let opts = \<lparr>ms_BindAddress = fl_metricsAddr f, ms_SecureServing = fl_secureMetrics f, ms_TLSOpts = main_tlsOpts f,
            ms_FilterProvider = None, ms_CertDir = '''', ms_CertName = '''', ms_KeyName = ''''\<rparr>;
          opts = (if fl_secureMetrics f then opts\<lparr>ms_FilterProvider := Some WithAuthenticationAndAuthorization\<rparr> else opts)
      in if length (fl_metricsCertPath f) > 0
         then opts\<lparr>ms_CertDir := fl_metricsCertPath f, ms_CertName := fl_metricsCertName f,
                ms_KeyName := fl_metricsCertKey f\<rparr>
         else opts)"

record manager_Options =
  mo_Metrics :: metrics_Options
  mo_WebhookServer :: webhook_Options
  mo_HealthProbeBindAddress :: string
  mo_LeaderElection :: bool
  mo_LeaderElectionID :: string

definition manager_options :: "main_flags \<Rightarrow> manager_Options" where
  "manager_options f =
     \<lparr>mo_Metrics = metrics_options f, mo_WebhookServer = webhook_options f,
      mo_HealthProbeBindAddress = fl_probeAddr f, mo_LeaderElection = fl_enableLeaderElection f,
      mo_LeaderElectionID = ''7791af13.cluster69.io''\<rparr>"

section \<open>The controller\<close>

record GroupVersion_t =
  gv_Group :: string
  gv_Version :: string

definition GroupVersion :: GroupVersion_t where
  "GroupVersion = \<lparr>gv_Group = ''aiops.cluster69.io'', gv_Version = ''v1alpha1''\<rparr>"

text \<open>
  The builder that collects the types of the group: its group version and the types that
  \<open>Register\<close> was called with.
\<close>

record scheme_Builder =
  sb_GroupVersion :: GroupVersion_t
  sb_Types :: "string list"

definition Builder_Register :: "scheme_Builder \<Rightarrow> string list \<Rightarrow> scheme_Builder" where
  "Builder_Register b objs = b\<lparr>sb_Types := sb_Types b @ objs\<rparr>"

definition SchemeBuilder :: scheme_Builder where
  "SchemeBuilder = \<lparr>sb_GroupVersion = GroupVersion, sb_Types = []\<rparr>"

definition types_init :: "scheme_Builder \<Rightarrow> scheme_Builder" where
  "types_init b = Builder_Register b [''AgentPipeline'', ''AgentPipelineList'']"

text \<open>What \<open>SetupWithManager\<close> asks the controller builder for.\<close>

record controller_builder =
  cb_For :: string
  cb_Owns :: "string list"
  cb_Named :: string

definition SetupWithManager :: "(controller_builder \<Rightarrow> goerror option) \<Rightarrow> goerror option" where
  "SetupWithManager complete =
     complete \<lparr>cb_For = ''AgentPipeline'', cb_Owns = [''ConfigMap''], cb_Named = ''agentpipeline''\<rparr>"

section \<open>main\<close>

datatype step =
    AddClientgo
  | AddTypes scheme_Builder
  | NewManager manager_Options
  | Setup A2ARunner string   \<comment> \<open>the runner and the name of the event recorder\<close>
  | AddHealthz string
  | AddReadyz string
  | Start

datatype ending = Exit nat | Returned | Panicked goerror

record main_env =
  me_clientgoAddToScheme :: "goerror option"
  me_AddToScheme :: "scheme_Builder \<Rightarrow> goerror option"
  me_args :: "string list"
  me_zapFlag :: "string \<Rightarrow> (bool \<times> (string \<Rightarrow> bool)) option"
  me_GetConfig :: "goerror option"
  me_Getenv :: "string \<Rightarrow> string"
  me_NewManager :: "manager_Options \<Rightarrow> goerror option"
  me_Complete :: "controller_builder \<Rightarrow> goerror option"
  me_AddHealthzCheck :: "string \<Rightarrow> goerror option"
  me_AddReadyzCheck :: "string \<Rightarrow> goerror option"
  me_Start :: "goerror option"

definition main_flag_defs :: "main_env \<Rightarrow> string \<Rightarrow> flag_def option" where
  "main_flag_defs E n = (case own_flag n of Some d \<Rightarrow> Some d
     | None \<Rightarrow> map_option (\<lambda>(b, ok). Foreign b ok) (me_zapFlag E n))"

definition main_runner :: "main_env \<Rightarrow> A2ARunner" where
  "main_runner E = NewA2ARunner (me_Getenv E ''KAGENT_A2A_URL'') (me_Getenv E ''KAGENT_USER_ID'')"

definition main :: "main_env \<Rightarrow> ending \<times> step list" where
  "main E =
     (case flag_Parse (main_flag_defs E) default_flags (me_args E) of
        Inl code \<Rightarrow> (Exit code, [])
      | Inr f \<Rightarrow>
          let opts = manager_options f; tr = [NewManager opts] in
          if me_GetConfig E \<noteq> None then (Exit 1, [])
          else if me_NewManager E opts \<noteq> None then (Exit 1, tr)
          else
            let tr = tr @ [Setup (main_runner E) ''agentpipeline-controller''] in
            if SetupWithManager (me_Complete E) \<noteq> None then (Exit 1, tr)
            else
              let tr = tr @ [AddHealthz ''healthz''] in
              if me_AddHealthzCheck E ''healthz'' \<noteq> None then (Exit 1, tr)
              else
                let tr = tr @ [AddReadyz ''readyz''] in
                if me_AddReadyzCheck E ''readyz'' \<noteq> None then (Exit 1, tr)
                else
                  let tr = tr @ [Start] in
                  if me_Start E \<noteq> None then (Exit 1, tr) else (Returned, tr))"

text \<open>The initializer of the main package: \<open>utilruntime.Must\<close> panics with the error it is given.\<close>

definition main_init :: "main_env \<Rightarrow> ending option \<times> step list" where
  "main_init E =
     (case me_clientgoAddToScheme E of
        Some err \<Rightarrow> (Some (Panicked err), [AddClientgo])
      | None \<Rightarrow>
          let b = types_init SchemeBuilder in
          (case me_AddToScheme E b of
             Some err \<Rightarrow> (Some (Panicked err), [AddClientgo, AddTypes b])
           | None \<Rightarrow> (None, [AddClientgo, AddTypes b])))"

definition program :: "main_env \<Rightarrow> ending \<times> step list" where
  "program E =
     (case main_init E of
        (Some e, tr) \<Rightarrow> (e, tr)
      | (None, tr) \<Rightarrow> (case main E of (e, tr') \<Rightarrow> (e, tr @ tr')))"

section \<open>What the options are\<close>

lemma own_flag_http2:
  assumes "n \<noteq> ''enable-http2''" and "main_flag_defs E n = Some d" and "set_flag d v f = Some f'"
  shows "fl_enableHTTP2 f' = fl_enableHTTP2 f"
  using assms
  by (auto simp: main_flag_defs_def own_flag_def set_flag_def split: if_splits option.splits)

text \<open>The variable of \<open>--enable-http2\<close> changes only if the flag is on the command line.\<close>

lemma flag_Parse_http2:
  "flag_Parse (main_flag_defs E) f args = Inr f' \<Longrightarrow>
   list_all (\<lambda>s. fst (split_eq (flag_name s)) \<noteq> ''enable-http2'') args \<Longrightarrow> fl_enableHTTP2 f' = fl_enableHTTP2 f"
proof (induction "main_flag_defs E" f args rule: flag_Parse.induct)
  case (2 f s args)
  obtain n v where nv: "split_eq (flag_name s) = (n, v)" by fastforce
  then have n: "n \<noteq> ''enable-http2''" using "2.prems"(2) by simp
  note step = own_flag_http2 [OF n]
  show ?case
    using 2 nv step by (auto split: if_splits option.splits list.splits)
qed simp

definition apply_tls :: "(tls_Config \<Rightarrow> tls_Config) list \<Rightarrow> tls_Config \<Rightarrow> tls_Config" where
  "apply_tls opts c = fold (\<lambda>g c. g c) opts c"

lemma apply_main_tls:
  "apply_tls (main_tlsOpts f) c = (if fl_enableHTTP2 f then c else c\<lparr>tls_NextProtos := [''http/1.1'']\<rparr>)"
  by (simp add: apply_tls_def main_tlsOpts_def disableHTTP2_def)

lemma option_tls:
  "ms_TLSOpts (metrics_options f) = main_tlsOpts f" "wh_TLSOpts (webhook_options f) = main_tlsOpts f"
  by (simp_all add: metrics_options_def webhook_options_def Let_def)

lemma TrimRight_no_suffix: "\<not> HasPrefix (rev (TrimRight s c)) [c]"
proof (cases "dropWhile (\<lambda>x. x = c) (rev s)")
  case (Cons a as)
  then have "a \<noteq> c" using hd_dropWhile [of "\<lambda>x. x = c" "rev s"] by simp
  then show ?thesis using Cons by (simp add: TrimRight_def HasPrefix_def)
next
  case Nil
  show ?thesis unfolding TrimRight_def Nil by (simp add: HasPrefix_def)
qed

lemma main_manager:
  assumes "NewManager opts \<in> set (snd (main E))"
  obtains f where "flag_Parse (main_flag_defs E) default_flags (me_args E) = Inr f" "opts = manager_options f"
  using assms by (auto simp: main_def Let_def split: sum.splits if_splits)

lemma program_main:
  "s \<in> set (snd (program E)) \<Longrightarrow> s \<noteq> AddClientgo \<Longrightarrow> (\<And>b. s \<noteq> AddTypes b) \<Longrightarrow> s \<in> set (snd (main E))"
  by (auto simp: program_def main_init_def Let_def split: option.splits prod.splits)

lemma program_initialized:
  "main_init E = (None, [AddClientgo, AddTypes (types_init SchemeBuilder)]) \<longleftrightarrow>
     me_clientgoAddToScheme E = None \<and> me_AddToScheme E (types_init SchemeBuilder) = None"
  by (simp add: main_init_def Let_def split: option.split)

section \<open>Properties\<close>

text \<open>
  C35. Unless \<open>--enable-http2\<close> is on the command line, the metrics server and the
  webhook server of a manager the program creates offer HTTP/1.1 only, whatever TLS configuration
  they start from.
\<close>

theorem http2_off_unless_asked_for:
  assumes "NewManager opts \<in> set (snd (program E))"
    and "list_all (\<lambda>s. fst (split_eq (flag_name s)) \<noteq> ''enable-http2'') (me_args E)"
  shows "tls_NextProtos (apply_tls (ms_TLSOpts (mo_Metrics opts)) c) = [''http/1.1''] \<and>
    tls_NextProtos (apply_tls (wh_TLSOpts (mo_WebhookServer opts)) c) = [''http/1.1'']"
proof -
  obtain f where f: "flag_Parse (main_flag_defs E) default_flags (me_args E) = Inr f" "opts = manager_options f"
    by (rule main_manager [OF program_main [OF assms(1)]]) simp_all
  have "\<not> fl_enableHTTP2 f" using flag_Parse_http2 [OF f(1) assms(2)] by (simp add: default_flags_def)
  then show ?thesis by (simp add: f(2) manager_options_def option_tls apply_main_tls)
qed

definition demo_main :: "string list \<Rightarrow> main_env" where
  "demo_main args = \<lparr>me_clientgoAddToScheme = None, me_AddToScheme = (\<lambda>_. None), me_args = args, me_zapFlag = (\<lambda>_. None), me_GetConfig = None, me_Getenv = (\<lambda>_. ''''),
     me_NewManager = (\<lambda>_. None), me_Complete = (\<lambda>_. None), me_AddHealthzCheck = (\<lambda>_. None),
     me_AddReadyzCheck = (\<lambda>_. None), me_Start = None\<rparr>"

lemma demo_main_parse:
  "flag_Parse (main_flag_defs (demo_main args)) default_flags [''--leader-elect'', ''-metrics-bind-address'', '':8443'']
     = Inr (default_flags\<lparr>fl_enableLeaderElection := True, fl_metricsAddr := '':8443''\<rparr>)"
  by (simp add: HasPrefix_def flag_name_def split_eq_def main_flag_defs_def own_flag_def is_bool_flag_def set_flag_def ParseBool_def)

theorem http2_off_unless_asked_for_witness:
  "let opts = manager_options (default_flags\<lparr>fl_enableLeaderElection := True, fl_metricsAddr := '':8443''\<rparr>) in
   NewManager opts \<in> set (snd (program (demo_main [''--leader-elect'', ''-metrics-bind-address'', '':8443'']))) \<and>
   tls_NextProtos (apply_tls (ms_TLSOpts (mo_Metrics opts)) \<lparr>tls_NextProtos = [''h2'', ''http/1.1'']\<rparr>) = [''http/1.1'']"
proof -
  let ?opts = "manager_options (default_flags\<lparr>fl_enableLeaderElection := True, fl_metricsAddr := '':8443''\<rparr>)"
  let ?E = "demo_main [''--leader-elect'', ''-metrics-bind-address'', '':8443'']"
  have args: "me_args ?E = [''--leader-elect'', ''-metrics-bind-address'', '':8443'']" by (simp add: demo_main_def)
  have "NewManager ?opts \<in> set (snd (main ?E))"
    unfolding main_def args demo_main_parse by (simp add: Let_def demo_main_def SetupWithManager_def)
  then have "NewManager ?opts \<in> set (snd (program ?E))"
    by (cases "main ?E") (simp add: program_def main_init_def demo_main_def)
  moreover have "list_all (\<lambda>s. fst (split_eq (flag_name s)) \<noteq> ''enable-http2'') (me_args ?E)"
    unfolding args by (simp add: split_eq_def flag_name_def HasPrefix_def)
  ultimately show ?thesis using http2_off_unless_asked_for [of ?opts ?E] by simp
qed

text \<open>
  C36. The program starts the manager exactly when both groups of types are registered in the
  scheme, the command line parses, the cluster configuration loads and the manager, the controller
  and both probes are set up. It returns only from a manager that ran without error, panics exactly
  if a registration fails, and exits with code 1 for every failure after the command line. The types
  are registered before the manager is created, with the kind that the controller watches among them.
\<close>

theorem program_starts_iff_setup_succeeds:
  "(Start \<in> set (snd (program E)) \<longleftrightarrow> me_clientgoAddToScheme E = None \<and> me_AddToScheme E (types_init SchemeBuilder) = None \<and>
     (case flag_Parse (main_flag_defs E) default_flags (me_args E) of Inl _ \<Rightarrow> False
      | Inr f \<Rightarrow> me_GetConfig E = None \<and> me_NewManager E (manager_options f) = None) \<and>
     SetupWithManager (me_Complete E) = None \<and> me_AddHealthzCheck E ''healthz'' = None \<and>
     me_AddReadyzCheck E ''readyz'' = None) \<and>
   fst (program E) =
     (case me_clientgoAddToScheme E of Some err \<Rightarrow> Panicked err
      | None \<Rightarrow> (case me_AddToScheme E (types_init SchemeBuilder) of Some err \<Rightarrow> Panicked err
        | None \<Rightarrow> (if Start \<in> set (snd (program E)) \<and> me_Start E = None then Returned
            else Exit (case flag_Parse (main_flag_defs E) default_flags (me_args E) of Inl code \<Rightarrow> code | Inr _ \<Rightarrow> 1)))) \<and>
   takeWhile (\<lambda>s. \<not> (\<exists>opts. s = NewManager opts)) (snd (program E)) =
     (if me_clientgoAddToScheme E = None then [AddClientgo, AddTypes \<lparr>sb_GroupVersion = \<lparr>gv_Group = ''aiops.cluster69.io'', gv_Version = ''v1alpha1''\<rparr>,
        sb_Types = [''AgentPipeline'', ''AgentPipelineList'']\<rparr>] else [AddClientgo])"
proof -
  have main: "(Start \<in> set (snd (main E)) \<longleftrightarrow>
     (case flag_Parse (main_flag_defs E) default_flags (me_args E) of Inl _ \<Rightarrow> False
      | Inr f \<Rightarrow> me_GetConfig E = None \<and> me_NewManager E (manager_options f) = None) \<and>
     SetupWithManager (me_Complete E) = None \<and> me_AddHealthzCheck E ''healthz'' = None \<and>
     me_AddReadyzCheck E ''readyz'' = None) \<and>
   fst (main E) = (if Start \<in> set (snd (main E)) \<and> me_Start E = None then Returned
     else Exit (case flag_Parse (main_flag_defs E) default_flags (me_args E) of Inl code \<Rightarrow> code | Inr _ \<Rightarrow> 1))"
    by (simp add: main_def Let_def split: sum.split)
  have first: "takeWhile (\<lambda>s. \<not> (\<exists>opts. s = NewManager opts)) (snd (main E)) = []"
    by (simp add: main_def Let_def split: sum.split)
  have reg: "types_init SchemeBuilder = \<lparr>sb_GroupVersion = \<lparr>gv_Group = ''aiops.cluster69.io'', gv_Version = ''v1alpha1''\<rparr>,
        sb_Types = [''AgentPipeline'', ''AgentPipelineList'']\<rparr>"
    by (simp add: types_init_def Builder_Register_def SchemeBuilder_def GroupVersion_def)
  obtain e tr where m: "main E = (e, tr)" by fastforce
  show ?thesis
    using main first unfolding m
    by (simp add: program_def main_init_def m Let_def reg split: option.split)
qed

text \<open>
  C37. A metrics server that is served over HTTPS is protected by authentication and
  authorization, one over plain HTTP is not; and the agents' base URL, default or from the
  environment, has no trailing slash, so agent URLs have the documented form.
\<close>

theorem main_configures_metrics_and_runner:
  "ms_FilterProvider (metrics_options f) = (if ms_SecureServing (metrics_options f) then Some WithAuthenticationAndAuthorization else None) \<and>
   \<not> HasPrefix (rev (run_baseURL (main_runner E))) ''/'' \<and>
   agent_url (main_runner (E\<lparr>me_Getenv := (\<lambda>_. '''')\<rparr>)) req =
     ''http://kagent-controller.kagent.svc.cluster.local:8083/api/a2a/'' @ req_Namespace req @ ''/'' @ req_AgentName req"
proof (intro conjI)
  show "ms_FilterProvider (metrics_options f) =
      (if ms_SecureServing (metrics_options f) then Some WithAuthenticationAndAuthorization else None)"
    by (simp add: metrics_options_def Let_def)
  show "\<not> HasPrefix (rev (run_baseURL (main_runner E))) ''/''"
    by (simp add: main_runner_def NewA2ARunner_def TrimRight_no_suffix)
  have "TrimRight defaultBaseURL (CHR ''/'') = defaultBaseURL" by code_simp
  then have "run_baseURL (main_runner (E\<lparr>me_Getenv := (\<lambda>_. '''')\<rparr>)) = defaultBaseURL"
    by (simp add: main_runner_def NewA2ARunner_def)
  then show "agent_url (main_runner (E\<lparr>me_Getenv := (\<lambda>_. '''')\<rparr>)) req =
     ''http://kagent-controller.kagent.svc.cluster.local:8083/api/a2a/'' @ req_Namespace req @ ''/'' @ req_AgentName req"
    by (simp add: agent_url_def defaultBaseURL_def)
qed

end
