(* ===== verification/Deep_Copy.thy ===== *)
theory Deep_Copy
  imports Api_Types "HOL-Library.Monad_Syntax"
begin

text \<open>
  The generated deep copies (\<open>api/v1alpha1/zz_generated.deepcopy.go\<close>) over an
  explicit heap. Here the structs have the pointers they have in Go: an optional pointer, a slice
  or a map is an address or nil. \<open>DeepCopyInto\<close> takes the struct it is called on and
  gives the struct it writes through \<open>out\<close>; \<open>DeepCopy\<close> takes and gives a
  pointer. An address that holds nothing of the expected type would be a fault of the Go memory
  model; it is the value \<open>None\<close>.

  \<open>ObjectMeta\<close>, \<open>ListMeta\<close>, \<open>metav1.Time\<close> and
  \<open>metav1.Condition\<close> belong to apimachinery. Their copies are the fields of
  \<open>copy_env\<close>, the type \<open>'m\<close> stands for the two kinds of metadata, and
  \<open>apimachinery_copies\<close> says what the copies promise. The locale
  \<open>copyable\<close> is the contract of a deep copy: the copy has the same deep value, the
  heap only grows, and everything the copy reaches is new. It is closed under pointers, slices and
  structs, which gives it for every type of the API.
\<close>

section \<open>Structs with pointers\<close>

type_synonym addr = nat

record go_RetryPolicy =
  grp_MaxRetries :: int32
  grp_Backoff :: "addr option"

record go_AlertmanagerConfig =
  gam_WebhookPort :: int32
  gam_MatchLabels :: "addr option"

record go_TriggerSpec =
  gtr_Type :: TriggerType
  gtr_Alertmanager :: "addr option"

record go_StageSpec =
  gsp_Name :: string
  gsp_AgentRef :: AgentReference
  gsp_Timeout :: "addr option"
  gsp_DependsOn :: "addr option"
  gsp_Prompt :: string
  gsp_Inputs :: "addr option"
  gsp_Config :: "addr option"
  gsp_RetryPolicy :: "addr option"

record go_AgentPipelineSpec =
  gpc_Trigger :: go_TriggerSpec
  gpc_Stages :: "addr option"
  gpc_RetryPolicy :: "addr option"

record go_StageStatus =
  gst_Name :: string
  gst_Phase :: StagePhase
  gst_StartedAt :: "addr option"
  gst_CompletedAt :: "addr option"
  gst_Output :: string
  gst_OutputRef :: string
  gst_TaskID :: string
  gst_RetryCount :: int32
  gst_Error :: string

record go_AgentPipelineStatus =
  gps_Phase :: PipelinePhase
  gps_CurrentStage :: string
  gps_StartedAt :: "addr option"
  gps_CompletedAt :: "addr option"
  gps_Stages :: "addr option"
  gps_Conditions :: "addr option"

record go_TypeMeta =
  tm_Kind :: string
  tm_APIVersion :: string

record 'm go_AgentPipeline =
  gap_TypeMeta :: go_TypeMeta
  gap_ObjectMeta :: 'm
  gap_Spec :: go_AgentPipelineSpec
  gap_Status :: go_AgentPipelineStatus

record 'm go_AgentPipelineList =
  gal_TypeMeta :: go_TypeMeta
  gal_ListMeta :: 'm
  gal_Items :: "addr option"

section \<open>The heap\<close>

datatype 'm cell =
    CTime gotime
  | CDuration duration
  | CStrings "string list"
  | CStringMap "(string \<times> string) list"
  | CStageConfig StageConfig
  | CAgentReference AgentReference
  | CRetryPolicy go_RetryPolicy
  | CAlertmanagerConfig go_AlertmanagerConfig
  | CTriggerSpec go_TriggerSpec
  | CStageSpec go_StageSpec
  | CStageSpecs "go_StageSpec list"
  | CSpec go_AgentPipelineSpec
  | CStageStatus go_StageStatus
  | CStageStatuses "go_StageStatus list"
  | CConditions "Condition list"
  | CStatus go_AgentPipelineStatus
  | CPipeline "'m go_AgentPipeline"
  | CPipelines "'m go_AgentPipeline list"
  | CPipelineList "'m go_AgentPipelineList"

text \<open>A type of cell: how a value is stored, and how it is read back.\<close>

type_synonym ('m, 'a) cell_type = "('a \<Rightarrow> 'm cell) \<times> ('m cell \<Rightarrow> 'a option)"

definition time_cell :: "('m, gotime) cell_type" where
  "time_cell = (CTime, \<lambda>c. case c of CTime x \<Rightarrow> Some x | _ \<Rightarrow> None)"
definition duration_cell :: "('m, duration) cell_type" where
  "duration_cell = (CDuration, \<lambda>c. case c of CDuration x \<Rightarrow> Some x | _ \<Rightarrow> None)"
definition strings_cell :: "('m, string list) cell_type" where
  "strings_cell = (CStrings, \<lambda>c. case c of CStrings x \<Rightarrow> Some x | _ \<Rightarrow> None)"
definition map_cell :: "('m, (string \<times> string) list) cell_type" where
  "map_cell = (CStringMap, \<lambda>c. case c of CStringMap x \<Rightarrow> Some x | _ \<Rightarrow> None)"
definition config_cell :: "('m, StageConfig) cell_type" where
  "config_cell = (CStageConfig, \<lambda>c. case c of CStageConfig x \<Rightarrow> Some x | _ \<Rightarrow> None)"
definition ref_cell :: "('m, AgentReference) cell_type" where
  "ref_cell = (CAgentReference, \<lambda>c. case c of CAgentReference x \<Rightarrow> Some x | _ \<Rightarrow> None)"
definition retry_cell :: "('m, go_RetryPolicy) cell_type" where
  "retry_cell = (CRetryPolicy, \<lambda>c. case c of CRetryPolicy x \<Rightarrow> Some x | _ \<Rightarrow> None)"
definition alert_cell :: "('m, go_AlertmanagerConfig) cell_type" where
  "alert_cell = (CAlertmanagerConfig, \<lambda>c. case c of CAlertmanagerConfig x \<Rightarrow> Some x | _ \<Rightarrow> None)"
definition trigger_cell :: "('m, go_TriggerSpec) cell_type" where
  "trigger_cell = (CTriggerSpec, \<lambda>c. case c of CTriggerSpec x \<Rightarrow> Some x | _ \<Rightarrow> None)"
definition stage_cell :: "('m, go_StageSpec) cell_type" where
  "stage_cell = (CStageSpec, \<lambda>c. case c of CStageSpec x \<Rightarrow> Some x | _ \<Rightarrow> None)"
definition stages_cell :: "('m, go_StageSpec list) cell_type" where
  "stages_cell = (CStageSpecs, \<lambda>c. case c of CStageSpecs x \<Rightarrow> Some x | _ \<Rightarrow> None)"
definition spec_cell :: "('m, go_AgentPipelineSpec) cell_type" where
  "spec_cell = (CSpec, \<lambda>c. case c of CSpec x \<Rightarrow> Some x | _ \<Rightarrow> None)"
definition stage_status_cell :: "('m, go_StageStatus) cell_type" where
  "stage_status_cell = (CStageStatus, \<lambda>c. case c of CStageStatus x \<Rightarrow> Some x | _ \<Rightarrow> None)"
definition statuses_cell :: "('m, go_StageStatus list) cell_type" where
  "statuses_cell = (CStageStatuses, \<lambda>c. case c of CStageStatuses x \<Rightarrow> Some x | _ \<Rightarrow> None)"
definition conditions_cell :: "('m, Condition list) cell_type" where
  "conditions_cell = (CConditions, \<lambda>c. case c of CConditions x \<Rightarrow> Some x | _ \<Rightarrow> None)"
definition status_cell :: "('m, go_AgentPipelineStatus) cell_type" where
  "status_cell = (CStatus, \<lambda>c. case c of CStatus x \<Rightarrow> Some x | _ \<Rightarrow> None)"
definition pipeline_cell :: "('m, 'm go_AgentPipeline) cell_type" where
  "pipeline_cell = (CPipeline, \<lambda>c. case c of CPipeline x \<Rightarrow> Some x | _ \<Rightarrow> None)"
definition pipelines_cell :: "('m, 'm go_AgentPipeline list) cell_type" where
  "pipelines_cell = (CPipelines, \<lambda>c. case c of CPipelines x \<Rightarrow> Some x | _ \<Rightarrow> None)"
definition list_cell :: "('m, 'm go_AgentPipelineList) cell_type" where
  "list_cell = (CPipelineList, \<lambda>c. case c of CPipelineList x \<Rightarrow> Some x | _ \<Rightarrow> None)"

definition retracts :: "('m, 'a) cell_type \<Rightarrow> bool" where
  "retracts ct \<longleftrightarrow> (\<forall>x. snd ct (fst ct x) = Some x)"

lemmas cell_defs = time_cell_def duration_cell_def strings_cell_def map_cell_def config_cell_def ref_cell_def
  retry_cell_def alert_cell_def trigger_cell_def stage_cell_def stages_cell_def spec_cell_def
  stage_status_cell_def statuses_cell_def conditions_cell_def status_cell_def pipeline_cell_def
  pipelines_cell_def list_cell_def

lemma cells_retract [simp]:
  "retracts time_cell" "retracts duration_cell" "retracts strings_cell" "retracts map_cell" "retracts config_cell"
  "retracts ref_cell" "retracts retry_cell" "retracts alert_cell" "retracts trigger_cell" "retracts stage_cell"
  "retracts stages_cell" "retracts spec_cell" "retracts stage_status_cell" "retracts statuses_cell"
  "retracts conditions_cell" "retracts status_cell" "retracts pipeline_cell" "retracts pipelines_cell" "retracts list_cell"
  by (simp_all add: retracts_def cell_defs)

record 'm heap =
  h_cells :: "addr \<rightharpoonup> 'm cell"
  h_next :: addr

definition alloc :: "'m cell \<Rightarrow> 'm heap \<Rightarrow> addr \<times> 'm heap" where
  "alloc c h = (h_next h, h\<lparr>h_cells := (h_cells h)(h_next h \<mapsto> c), h_next := Suc (h_next h)\<rparr>)"

definition load :: "('m, 'a) cell_type \<Rightarrow> 'm heap \<Rightarrow> addr \<Rightarrow> 'a option" where
  "load ct h a = (case h_cells h a of None \<Rightarrow> None | Some c \<Rightarrow> snd ct c)"

definition wf_heap :: "'m heap \<Rightarrow> bool" where
  "wf_heap h \<longleftrightarrow> (\<forall>a. h_cells h a \<noteq> None \<longrightarrow> a < h_next h)"

type_synonym ('m, 'a) copier = "'a \<Rightarrow> 'm heap \<Rightarrow> ('a \<times> 'm heap) option"

section \<open>The shapes of generated code\<close>

text \<open>
  \<open>if in.F != nil { *out = new(T); (*in).DeepCopyInto(*out) }\<close>, and
  \<open>DeepCopy\<close> itself. The new cell is filled once its contents are known; nothing
  refers to it before.
\<close>

definition copy_ptr :: "('m, 'a) cell_type \<Rightarrow> ('m, 'a) copier \<Rightarrow> ('m, addr option) copier" where
  "copy_ptr ct f p h =
     (case p of
        None \<Rightarrow> Some (None, h)
      | Some a \<Rightarrow> do { x \<leftarrow> load ct h a; (y, h) \<leftarrow> f x h; (let (b, h) = alloc (fst ct y) h in Some (Some b, h)) })"

text \<open>\<open>for i := range *in { (*in)[i].DeepCopyInto(&(*out)[i]) }\<close>.\<close>

fun copy_elems :: "('m, 'a) copier \<Rightarrow> ('m, 'a list) copier" where
  "copy_elems f [] h = Some ([], h)"
| "copy_elems f (x # xs) h = do { (y, h) \<leftarrow> f x h; (ys, h) \<leftarrow> copy_elems f xs h; Some (y # ys, h) }"

text \<open>\<open>*out = *in\<close>, \<open>copy(*out, *in)\<close> and the loop over the entries of a map of strings.\<close>

definition assign :: "('m, 'a) copier" where
  "assign x h = Some (x, h)"

fun copy_entries :: "(string \<times> string) list \<Rightarrow> (string \<times> string) list" where
  "copy_entries [] = []"
| "copy_entries ((key, val) # rest) = (key, val) # copy_entries rest"

definition copy_map :: "('m, (string \<times> string) list) copier" where
  "copy_map m h = Some (copy_entries m, h)"

section \<open>The generated methods\<close>

record 'm copy_env =
  ce_Time :: "gotime \<Rightarrow> gotime"
  ce_Condition :: "Condition \<Rightarrow> Condition"
  ce_ObjectMeta :: "('m, 'm) copier"
  ce_ListMeta :: "('m, 'm) copier"

definition copy_time :: "'m copy_env \<Rightarrow> ('m, gotime) copier" where
  "copy_time E t h = Some (ce_Time E t, h)"

definition copy_condition :: "'m copy_env \<Rightarrow> ('m, Condition) copier" where
  "copy_condition E c h = Some (ce_Condition E c, h)"

definition AgentReference_DeepCopyInto :: "('m, AgentReference) copier" where
  "AgentReference_DeepCopyInto = assign"

definition StageConfig_DeepCopyInto :: "('m, StageConfig) copier" where
  "StageConfig_DeepCopyInto = assign"

definition RetryPolicy_DeepCopyInto :: "('m, go_RetryPolicy) copier" where
  "RetryPolicy_DeepCopyInto x h = do {
     (backoff, h) \<leftarrow> copy_ptr duration_cell assign (grp_Backoff x) h;
     Some (x\<lparr>grp_Backoff := backoff\<rparr>, h) }"

definition AlertmanagerConfig_DeepCopyInto :: "('m, go_AlertmanagerConfig) copier" where
  "AlertmanagerConfig_DeepCopyInto x h = do {
     (labels, h) \<leftarrow> copy_ptr map_cell copy_map (gam_MatchLabels x) h;
     Some (x\<lparr>gam_MatchLabels := labels\<rparr>, h) }"

definition TriggerSpec_DeepCopyInto :: "('m, go_TriggerSpec) copier" where
  "TriggerSpec_DeepCopyInto x h = do {
     (am, h) \<leftarrow> copy_ptr alert_cell AlertmanagerConfig_DeepCopyInto (gtr_Alertmanager x) h;
     Some (x\<lparr>gtr_Alertmanager := am\<rparr>, h) }"

definition StageSpec_DeepCopyInto :: "('m, go_StageSpec) copier" where
  "StageSpec_DeepCopyInto x h = do {
     (timeout, h) \<leftarrow> copy_ptr duration_cell assign (gsp_Timeout x) h;
     (deps, h) \<leftarrow> copy_ptr strings_cell assign (gsp_DependsOn x) h;
     (inputs, h) \<leftarrow> copy_ptr map_cell copy_map (gsp_Inputs x) h;
     (config, h) \<leftarrow> copy_ptr config_cell assign (gsp_Config x) h;
     (retry, h) \<leftarrow> copy_ptr retry_cell RetryPolicy_DeepCopyInto (gsp_RetryPolicy x) h;
     Some (x\<lparr>gsp_Timeout := timeout, gsp_DependsOn := deps, gsp_Inputs := inputs, gsp_Config := config,
       gsp_RetryPolicy := retry\<rparr>, h) }"

definition AgentPipelineSpec_DeepCopyInto :: "('m, go_AgentPipelineSpec) copier" where
  "AgentPipelineSpec_DeepCopyInto x h = do {
     (trigger, h) \<leftarrow> TriggerSpec_DeepCopyInto (gpc_Trigger x) h;
     (stages, h) \<leftarrow> copy_ptr stages_cell (copy_elems StageSpec_DeepCopyInto) (gpc_Stages x) h;
     (retry, h) \<leftarrow> copy_ptr retry_cell RetryPolicy_DeepCopyInto (gpc_RetryPolicy x) h;
     Some (x\<lparr>gpc_Trigger := trigger, gpc_Stages := stages, gpc_RetryPolicy := retry\<rparr>, h) }"

definition StageStatus_DeepCopyInto :: "'m copy_env \<Rightarrow> ('m, go_StageStatus) copier" where
  "StageStatus_DeepCopyInto E x h = do {
     (started, h) \<leftarrow> copy_ptr time_cell (copy_time E) (gst_StartedAt x) h;
     (completed, h) \<leftarrow> copy_ptr time_cell (copy_time E) (gst_CompletedAt x) h;
     Some (x\<lparr>gst_StartedAt := started, gst_CompletedAt := completed\<rparr>, h) }"

definition AgentPipelineStatus_DeepCopyInto :: "'m copy_env \<Rightarrow> ('m, go_AgentPipelineStatus) copier" where
  "AgentPipelineStatus_DeepCopyInto E x h = do {
     (started, h) \<leftarrow> copy_ptr time_cell (copy_time E) (gps_StartedAt x) h;
     (completed, h) \<leftarrow> copy_ptr time_cell (copy_time E) (gps_CompletedAt x) h;
     (stages, h) \<leftarrow> copy_ptr statuses_cell (copy_elems (StageStatus_DeepCopyInto E)) (gps_Stages x) h;
     (conds, h) \<leftarrow> copy_ptr conditions_cell (copy_elems (copy_condition E)) (gps_Conditions x) h;
     Some (x\<lparr>gps_StartedAt := started, gps_CompletedAt := completed, gps_Stages := stages, gps_Conditions := conds\<rparr>, h) }"

definition AgentPipeline_DeepCopyInto :: "'m copy_env \<Rightarrow> ('m, 'm go_AgentPipeline) copier" where
  "AgentPipeline_DeepCopyInto E x h = do {
     (meta, h) \<leftarrow> ce_ObjectMeta E (gap_ObjectMeta x) h;
     (spec, h) \<leftarrow> AgentPipelineSpec_DeepCopyInto (gap_Spec x) h;
     (status, h) \<leftarrow> AgentPipelineStatus_DeepCopyInto E (gap_Status x) h;
     Some (x\<lparr>gap_ObjectMeta := meta, gap_Spec := spec, gap_Status := status\<rparr>, h) }"

definition AgentPipelineList_DeepCopyInto :: "'m copy_env \<Rightarrow> ('m, 'm go_AgentPipelineList) copier" where
  "AgentPipelineList_DeepCopyInto E x h = do {
     (meta, h) \<leftarrow> ce_ListMeta E (gal_ListMeta x) h;
     (items, h) \<leftarrow> copy_ptr pipelines_cell (copy_elems (AgentPipeline_DeepCopyInto E)) (gal_Items x) h;
     Some (x\<lparr>gal_ListMeta := meta, gal_Items := items\<rparr>, h) }"

text \<open>The methods that give a new object; \<open>DeepCopyObject\<close> is \<open>DeepCopy\<close> as an interface value.\<close>

definition AgentPipeline_DeepCopy :: "'m copy_env \<Rightarrow> ('m, addr option) copier" where
  "AgentPipeline_DeepCopy E = copy_ptr pipeline_cell (AgentPipeline_DeepCopyInto E)"

definition AgentPipeline_DeepCopyObject :: "'m copy_env \<Rightarrow> ('m, addr option) copier" where
  "AgentPipeline_DeepCopyObject E x h = do {
     (c, h) \<leftarrow> AgentPipeline_DeepCopy E x h; (if c \<noteq> None then Some (c, h) else Some (None, h)) }"

definition AgentPipelineList_DeepCopy :: "'m copy_env \<Rightarrow> ('m, addr option) copier" where
  "AgentPipelineList_DeepCopy E = copy_ptr list_cell (AgentPipelineList_DeepCopyInto E)"

definition AgentPipelineList_DeepCopyObject :: "'m copy_env \<Rightarrow> ('m, addr option) copier" where
  "AgentPipelineList_DeepCopyObject E x h = do {
     (c, h) \<leftarrow> AgentPipelineList_DeepCopy E x h; (if c \<noteq> None then Some (c, h) else Some (None, h)) }"

definition AgentPipelineSpec_DeepCopy :: "('m, addr option) copier" where
  "AgentPipelineSpec_DeepCopy = copy_ptr spec_cell AgentPipelineSpec_DeepCopyInto"

definition AgentPipelineStatus_DeepCopy :: "'m copy_env \<Rightarrow> ('m, addr option) copier" where
  "AgentPipelineStatus_DeepCopy E = copy_ptr status_cell (AgentPipelineStatus_DeepCopyInto E)"

definition AgentReference_DeepCopy :: "('m, addr option) copier" where
  "AgentReference_DeepCopy = copy_ptr ref_cell AgentReference_DeepCopyInto"

definition AlertmanagerConfig_DeepCopy :: "('m, addr option) copier" where
  "AlertmanagerConfig_DeepCopy = copy_ptr alert_cell AlertmanagerConfig_DeepCopyInto"

definition RetryPolicy_DeepCopy :: "('m, addr option) copier" where
  "RetryPolicy_DeepCopy = copy_ptr retry_cell RetryPolicy_DeepCopyInto"

definition StageConfig_DeepCopy :: "('m, addr option) copier" where
  "StageConfig_DeepCopy = copy_ptr config_cell StageConfig_DeepCopyInto"

definition StageSpec_DeepCopy :: "('m, addr option) copier" where
  "StageSpec_DeepCopy = copy_ptr stage_cell StageSpec_DeepCopyInto"

definition StageStatus_DeepCopy :: "'m copy_env \<Rightarrow> ('m, addr option) copier" where
  "StageStatus_DeepCopy E = copy_ptr stage_status_cell (StageStatus_DeepCopyInto E)"

definition TriggerSpec_DeepCopy :: "('m, addr option) copier" where
  "TriggerSpec_DeepCopy = copy_ptr trigger_cell TriggerSpec_DeepCopyInto"

section \<open>The contract of a deep copy\<close>

text \<open>
  \<open>read h x\<close> is the deep value of \<open>x\<close>, what can be seen through its
  pointers, and \<open>reach h x\<close> the addresses that it goes through.
\<close>

locale copyable =
  fixes copy :: "('m, 'a) copier" and read :: "'m heap \<Rightarrow> 'a \<Rightarrow> 'v option" and reach :: "'m heap \<Rightarrow> 'a \<Rightarrow> addr set"
  assumes reach_used: "read h x = Some v \<Longrightarrow> reach h x \<subseteq> dom (h_cells h)"
    and read_local: "read h x = Some v \<Longrightarrow> (\<forall>a\<in>reach h x. h_cells g a = h_cells h a) \<Longrightarrow>
      read g x = Some v \<and> reach g x = reach h x"
    and copy_new: "wf_heap h \<Longrightarrow> read h x = Some v \<Longrightarrow> \<exists>y h'. copy x h = Some (y, h') \<and> wf_heap h' \<and>
      h_cells h \<subseteq>\<^sub>m h_cells h' \<and> h_next h \<le> h_next h' \<and> read h' y = Some v \<and> (\<forall>a\<in>reach h' y. h_next h \<le> a)"
begin

lemma read_mono:
  assumes "read h x = Some v" and "h_cells h \<subseteq>\<^sub>m h_cells h'"
  shows "read h' x = Some v" "reach h' x = reach h x"
proof -
  have "\<forall>a\<in>reach h x. h_cells h' a = h_cells h a"
    using reach_used [OF assms(1)] assms(2) unfolding map_le_def by (metis subsetD)
  then show "read h' x = Some v" "reach h' x = reach h x" using read_local [OF assms(1), of h'] by simp_all
qed

text \<open>Whatever is written to the cells that are new does not change what the original reads as, and vice versa.\<close>

lemma original_unaffected:
  assumes "wf_heap h" and "read h x = Some v" and "\<forall>a<h_next h. h_cells g a = h_cells h a"
  shows "read g x = Some v"
proof -
  have "a < h_next h" if "a \<in> reach h x" for a
    using reach_used [OF assms(2)] assms(1) that by (auto simp: wf_heap_def)
  then show ?thesis using read_local [OF assms(2), of g] assms(3) by blast
qed

lemma copy_unaffected:
  assumes "wf_heap h" and "read h x = Some v" and "copy x h = Some (y, h')"
    and "\<forall>a\<ge>h_next h. h_cells g a = h_cells h' a"
  shows "read g y = Some v"
proof -
  have "read h' y = Some v" "\<forall>a\<in>reach h' y. h_next h \<le> a" using copy_new [OF assms(1,2)] assms(3) by auto
  then show ?thesis using read_local [of h' y v g] assms(4) by blast
qed

lemma copy_independent:
  assumes "wf_heap h" and "read h x = Some v"
  shows "\<exists>y h'. copy x h = Some (y, h') \<and> wf_heap h' \<and> h_cells h \<subseteq>\<^sub>m h_cells h' \<and> read h' y = Some v \<and>
    (\<forall>g. (\<forall>a<h_next h. h_cells g a = h_cells h a) \<longrightarrow> read g x = Some v) \<and>
    (\<forall>g. (\<forall>a\<ge>h_next h. h_cells g a = h_cells h' a) \<longrightarrow> read g y = Some v)"
  using copy_new [OF assms] original_unaffected [OF assms] copy_unaffected [OF assms] by blast

end

section \<open>The contract is closed under the shapes of generated code\<close>

definition read_flat :: "'m heap \<Rightarrow> 'a \<Rightarrow> 'a option" where "read_flat h x = Some x"
definition reach_flat :: "'m heap \<Rightarrow> 'a \<Rightarrow> addr set" where "reach_flat h x = {}"

definition read_ptr :: "('m, 'a) cell_type \<Rightarrow> ('m heap \<Rightarrow> 'a \<Rightarrow> 'v option) \<Rightarrow> 'm heap \<Rightarrow> addr option \<Rightarrow> 'v option option" where
  "read_ptr ct r h p = (case p of None \<Rightarrow> Some None | Some a \<Rightarrow> do { x \<leftarrow> load ct h a; v \<leftarrow> r h x; Some (Some v) })"

definition reach_ptr :: "('m, 'a) cell_type \<Rightarrow> ('m heap \<Rightarrow> 'a \<Rightarrow> addr set) \<Rightarrow> 'm heap \<Rightarrow> addr option \<Rightarrow> addr set" where
  "reach_ptr ct s h p = (case p of None \<Rightarrow> {}
     | Some a \<Rightarrow> insert a (case load ct h a of None \<Rightarrow> {} | Some x \<Rightarrow> s h x))"

fun read_elems :: "('m heap \<Rightarrow> 'a \<Rightarrow> 'v option) \<Rightarrow> 'm heap \<Rightarrow> 'a list \<Rightarrow> 'v list option" where
  "read_elems r h [] = Some []"
| "read_elems r h (x # xs) = do { v \<leftarrow> r h x; vs \<leftarrow> read_elems r h xs; Some (v # vs) }"

definition reach_elems :: "('m heap \<Rightarrow> 'a \<Rightarrow> addr set) \<Rightarrow> 'm heap \<Rightarrow> 'a list \<Rightarrow> addr set" where
  "reach_elems s h xs = (\<Union>x\<in>set xs. s h x)"

text \<open>Two fields, one copied after the other, and a struct around the fields that have pointers.\<close>

definition copy_both :: "('m, 'a) copier \<Rightarrow> ('m, 'b) copier \<Rightarrow> ('m, 'a \<times> 'b) copier" where
  "copy_both f g p h = do { (x, h) \<leftarrow> f (fst p) h; (y, h) \<leftarrow> g (snd p) h; Some ((x, y), h) }"

definition read_both ::
  "('m heap \<Rightarrow> 'a \<Rightarrow> 'v option) \<Rightarrow> ('m heap \<Rightarrow> 'b \<Rightarrow> 'w option) \<Rightarrow> 'm heap \<Rightarrow> 'a \<times> 'b \<Rightarrow> ('v \<times> 'w) option" where
  "read_both r1 r2 h p = do { v \<leftarrow> r1 h (fst p); w \<leftarrow> r2 h (snd p); Some (v, w) }"

definition reach_both ::
  "('m heap \<Rightarrow> 'a \<Rightarrow> addr set) \<Rightarrow> ('m heap \<Rightarrow> 'b \<Rightarrow> addr set) \<Rightarrow> 'm heap \<Rightarrow> 'a \<times> 'b \<Rightarrow> addr set" where
  "reach_both s1 s2 h p = s1 h (fst p) \<union> s2 h (snd p)"

definition copy_struct :: "('a \<Rightarrow> 'b) \<Rightarrow> ('b \<Rightarrow> 'a \<Rightarrow> 'a) \<Rightarrow> ('m, 'b) copier \<Rightarrow> ('m, 'a) copier" where
  "copy_struct get put f x h = do { (y, h) \<leftarrow> f (get x) h; Some (put y x, h) }"

definition read_struct ::
  "('a \<Rightarrow> 'b) \<Rightarrow> ('a \<Rightarrow> 'e) \<Rightarrow> ('m heap \<Rightarrow> 'b \<Rightarrow> 'v option) \<Rightarrow> 'm heap \<Rightarrow> 'a \<Rightarrow> ('e \<times> 'v) option" where
  "read_struct get erase r h x = do { v \<leftarrow> r h (get x); Some (erase x, v) }"

definition reach_struct :: "('a \<Rightarrow> 'b) \<Rightarrow> ('m heap \<Rightarrow> 'b \<Rightarrow> addr set) \<Rightarrow> 'm heap \<Rightarrow> 'a \<Rightarrow> addr set" where
  "reach_struct get s h x = s h (get x)"

lemma copyable_flat:
  assumes "\<And>x h. f x h = Some (x, h)"
  shows "copyable f read_flat reach_flat"
  by unfold_locales (simp_all add: assms read_flat_def reach_flat_def)

lemma copyable_used: "copyable f r s \<Longrightarrow> r h x = Some v \<Longrightarrow> a \<in> s h x \<Longrightarrow> \<exists>c. h_cells h a = Some c"
  using copyable.reach_used [of f r s h x v] by blast

lemma alloc_facts:
  assumes "wf_heap h" and "alloc c h = (b, h')"
  shows "b = h_next h" "wf_heap h'" "h_cells h \<subseteq>\<^sub>m h_cells h'" "h_next h' = Suc (h_next h)" "h_cells h' b = Some c"
proof -
  have "h_cells h (h_next h) = None" using assms(1) by (auto simp: wf_heap_def)
  then show "b = h_next h" "wf_heap h'" "h_cells h \<subseteq>\<^sub>m h_cells h'" "h_next h' = Suc (h_next h)" "h_cells h' b = Some c"
    using assms by (auto simp: alloc_def wf_heap_def map_le_def less_Suc_eq)
qed

lemma copyable_ptr:
  fixes f :: "('m, 'a) copier"
  assumes c: "copyable f r s" and ct: "retracts ct"
  shows "copyable (copy_ptr ct f) (read_ptr ct r) (reach_ptr ct s)"
proof
  fix h p v
  assume rd: "read_ptr ct r h p = Some v"
  show "reach_ptr ct s h p \<subseteq> dom (h_cells h)"
    using rd
    by (auto simp: read_ptr_def reach_ptr_def load_def bind_eq_Some_conv split: option.splits dest: copyable_used [OF c])
next
  fix h g :: "'m heap" and p v
  assume rd: "read_ptr ct r h p = Some v" and eq: "\<forall>a\<in>reach_ptr ct s h p. h_cells g a = h_cells h a"
  show "read_ptr ct r g p = Some v \<and> reach_ptr ct s g p = reach_ptr ct s h p"
  proof (cases p)
    case None
    then show ?thesis using rd by (simp add: read_ptr_def reach_ptr_def)
  next
    case (Some a)
    then obtain x w where x: "load ct h a = Some x" "r h x = Some w" "v = Some w"
      using rd by (auto simp: read_ptr_def bind_eq_Some_conv)
    have "load ct g a = Some x" using x(1) eq Some by (simp add: load_def reach_ptr_def)
    moreover have "\<forall>b\<in>s h x. h_cells g b = h_cells h b" using eq Some x(1) by (simp add: reach_ptr_def)
    ultimately show ?thesis
      using copyable.read_local [OF c x(2), of g] x Some by (simp add: read_ptr_def reach_ptr_def)
  qed
next
  fix h p v
  assume wf: "wf_heap h" and rd: "read_ptr ct r h p = Some v"
  show "\<exists>y h'. copy_ptr ct f p h = Some (y, h') \<and> wf_heap h' \<and> h_cells h \<subseteq>\<^sub>m h_cells h' \<and> h_next h \<le> h_next h' \<and>
      read_ptr ct r h' y = Some v \<and> (\<forall>a\<in>reach_ptr ct s h' y. h_next h \<le> a)"
  proof (cases p)
    case None
    then show ?thesis using rd wf by (simp add: copy_ptr_def read_ptr_def reach_ptr_def)
  next
    case (Some a)
    then obtain x w where x: "load ct h a = Some x" "r h x = Some w" "v = Some w"
      using rd by (auto simp: read_ptr_def bind_eq_Some_conv)
    obtain y h1 where y: "f x h = Some (y, h1)" "wf_heap h1" "h_cells h \<subseteq>\<^sub>m h_cells h1" "h_next h \<le> h_next h1"
      "r h1 y = Some w" "\<forall>a\<in>s h1 y. h_next h \<le> a" using copyable.copy_new [OF c wf x(2)] by blast
    obtain b h2 where b: "alloc (fst ct y) h1 = (b, h2)" by fastforce
    note al = alloc_facts [OF y(2) b]
    have "load ct h2 b = Some y" using al(5) ct by (simp add: load_def retracts_def)
    then have "read_ptr ct r h2 (Some b) = Some v" "reach_ptr ct s h2 (Some b) = insert b (s h1 y)"
      using copyable.read_mono [OF c y(5) al(3)] x(3) by (simp_all add: read_ptr_def reach_ptr_def)
    moreover have "copy_ptr ct f p h = Some (Some b, h2)" using Some x(1) y(1) b by (simp add: copy_ptr_def)
    ultimately show ?thesis using al y(3,4,6) map_le_trans [OF y(3) al(3)] by auto
  qed
qed

lemma copyable_both:
  fixes f1 :: "('m, 'a) copier" and f2 :: "('m, 'b) copier"
  assumes c1: "copyable f1 r1 s1" and c2: "copyable f2 r2 s2"
  shows "copyable (copy_both f1 f2) (read_both r1 r2) (reach_both s1 s2)"
proof
  fix h p v assume rd: "read_both r1 r2 h p = Some v"
  show "reach_both s1 s2 h p \<subseteq> dom (h_cells h)"
    using rd
    by (auto simp: read_both_def reach_both_def bind_eq_Some_conv dest: copyable_used [OF c1] copyable_used [OF c2])
next
  fix h g :: "'m heap" and p v
  assume "read_both r1 r2 h p = Some v" and eq: "\<forall>a\<in>reach_both s1 s2 h p. h_cells g a = h_cells h a"
  then obtain a b where ab: "r1 h (fst p) = Some a" "r2 h (snd p) = Some b" "v = (a, b)"
    by (auto simp: read_both_def bind_eq_Some_conv)
  have "\<forall>a\<in>s1 h (fst p). h_cells g a = h_cells h a" "\<forall>a\<in>s2 h (snd p). h_cells g a = h_cells h a"
    using eq by (simp_all add: reach_both_def)
  then show "read_both r1 r2 g p = Some v \<and> reach_both s1 s2 g p = reach_both s1 s2 h p"
    using copyable.read_local [OF c1 ab(1), of g] copyable.read_local [OF c2 ab(2), of g] ab(3)
    by (simp add: read_both_def reach_both_def)
next
  fix h p v
  assume wf: "wf_heap h" and "read_both r1 r2 h p = Some v"
  then obtain a b where ab: "r1 h (fst p) = Some a" "r2 h (snd p) = Some b" "v = (a, b)"
    by (auto simp: read_both_def bind_eq_Some_conv)
  obtain x h1 where x: "f1 (fst p) h = Some (x, h1)" "wf_heap h1" "h_cells h \<subseteq>\<^sub>m h_cells h1" "h_next h \<le> h_next h1"
    "r1 h1 x = Some a" "\<forall>a\<in>s1 h1 x. h_next h \<le> a" using copyable.copy_new [OF c1 wf ab(1)] by blast
  obtain y h2 where y: "f2 (snd p) h1 = Some (y, h2)" "wf_heap h2" "h_cells h1 \<subseteq>\<^sub>m h_cells h2" "h_next h1 \<le> h_next h2"
    "r2 h2 y = Some b" "\<forall>a\<in>s2 h2 y. h_next h1 \<le> a"
    using copyable.copy_new [OF c2 x(2) copyable.read_mono(1) [OF c2 ab(2) x(3)]] by blast
  note keep = copyable.read_mono [OF c1 x(5) y(3)]
  have "copy_both f1 f2 p h = Some ((x, y), h2)" using x(1) y(1) by (simp add: copy_both_def)
  moreover have "read_both r1 r2 h2 (x, y) = Some v" using keep(1) y(5) ab(3) by (simp add: read_both_def)
  moreover have "\<forall>a\<in>reach_both s1 s2 h2 (x, y). h_next h \<le> a"
    using keep(2) x(4,6) y(6) by (auto simp: reach_both_def)
  ultimately show "\<exists>y h'. copy_both f1 f2 p h = Some (y, h') \<and> wf_heap h' \<and> h_cells h \<subseteq>\<^sub>m h_cells h' \<and> h_next h \<le> h_next h' \<and>
      read_both r1 r2 h' y = Some v \<and> (\<forall>a\<in>reach_both s1 s2 h' y. h_next h \<le> a)"
    using y(2,4) x(4) map_le_trans [OF x(3) y(3)] order.trans [OF x(4) y(4)] by blast
qed

lemma copyable_struct:
  fixes f :: "('m, 'b) copier"
  assumes c: "copyable f r s" and "\<And>x y. get (put y x) = y" and "\<And>x y. erase (put y x) = erase x"
  shows "copyable (copy_struct get put f) (read_struct get erase r) (reach_struct get s)"
proof
  fix h x v assume "read_struct get erase r h x = Some v"
  then show "reach_struct get s h x \<subseteq> dom (h_cells h)"
    by (auto simp: read_struct_def reach_struct_def bind_eq_Some_conv dest: copyable_used [OF c])
next
  fix h g :: "'m heap" and x v
  assume "read_struct get erase r h x = Some v" and "\<forall>a\<in>reach_struct get s h x. h_cells g a = h_cells h a"
  then show "read_struct get erase r g x = Some v \<and> reach_struct get s g x = reach_struct get s h x"
    using copyable.read_local [OF c, of h "get x" _ g] by (auto simp: read_struct_def reach_struct_def bind_eq_Some_conv)
next
  fix h x v
  assume wf: "wf_heap h" and "read_struct get erase r h x = Some v"
  then obtain w where w: "r h (get x) = Some w" "v = (erase x, w)" by (auto simp: read_struct_def bind_eq_Some_conv)
  obtain y h' where "f (get x) h = Some (y, h')" "wf_heap h'" "h_cells h \<subseteq>\<^sub>m h_cells h'" "h_next h \<le> h_next h'"
    "r h' y = Some w" "\<forall>a\<in>s h' y. h_next h \<le> a" using copyable.copy_new [OF c wf w(1)] by blast
  then show "\<exists>y h'. copy_struct get put f x h = Some (y, h') \<and> wf_heap h' \<and> h_cells h \<subseteq>\<^sub>m h_cells h' \<and>
      h_next h \<le> h_next h' \<and> read_struct get erase r h' y = Some v \<and> (\<forall>a\<in>reach_struct get s h' y. h_next h \<le> a)"
    using w(2) assms(2,3) by (intro exI [of _ "put y x"] exI [of _ h']) (simp add: copy_struct_def read_struct_def reach_struct_def)
qed

lemma copyable_elems:
  assumes c: "copyable f r s"
  shows "copyable (copy_elems f) (read_elems r) (reach_elems s)"
proof
  show "reach_elems s h xs \<subseteq> dom (h_cells h)" if "read_elems r h xs = Some vs" for h xs vs
    using that
  proof (induction xs arbitrary: vs)
    case (Cons x xs)
    then show ?case using copyable.reach_used [OF c, of h x] by (auto simp: reach_elems_def bind_eq_Some_conv)
  qed (simp add: reach_elems_def)
  show loc: "read_elems r g xs = Some vs \<and> reach_elems s g xs = reach_elems s h xs"
    if "read_elems r h xs = Some vs" "\<forall>a\<in>reach_elems s h xs. h_cells g a = h_cells h a" for h g xs vs
    using that
  proof (induction xs arbitrary: vs)
    case (Cons x xs)
    then obtain w ws where w: "r h x = Some w" "read_elems r h xs = Some ws" "vs = w # ws" by (auto simp: bind_eq_Some_conv)
    then show ?case
      using copyable.read_local [OF c w(1), of g] Cons.IH [OF w(2)] Cons.prems(2) by (simp add: reach_elems_def)
  qed (simp add: reach_elems_def)
  show "\<exists>ys h'. copy_elems f xs h = Some (ys, h') \<and> wf_heap h' \<and> h_cells h \<subseteq>\<^sub>m h_cells h' \<and> h_next h \<le> h_next h' \<and>
      read_elems r h' ys = Some vs \<and> (\<forall>a\<in>reach_elems s h' ys. h_next h \<le> a)"
    if "wf_heap h" "read_elems r h xs = Some vs" for h xs vs
    using that
  proof (induction xs arbitrary: h vs)
    case Nil
    then show ?case by (simp add: reach_elems_def)
  next
    case (Cons x xs)
    then obtain w ws where w: "r h x = Some w" "read_elems r h xs = Some ws" "vs = w # ws" by (auto simp: bind_eq_Some_conv)
    obtain y h1 where y: "f x h = Some (y, h1)" "wf_heap h1" "h_cells h \<subseteq>\<^sub>m h_cells h1" "h_next h \<le> h_next h1"
      "r h1 y = Some w" "\<forall>a\<in>s h1 y. h_next h \<le> a" using copyable.copy_new [OF c Cons.prems(1) w(1)] by blast
    have "read_elems r h1 xs = Some ws"
      using w(2) copyable.read_mono(1) [OF c _ y(3)]
      by (induction xs arbitrary: ws) (auto simp: bind_eq_Some_conv)
    then obtain ys h2 where ys: "copy_elems f xs h1 = Some (ys, h2)" "wf_heap h2" "h_cells h1 \<subseteq>\<^sub>m h_cells h2"
      "h_next h1 \<le> h_next h2" "read_elems r h2 ys = Some ws" "\<forall>a\<in>reach_elems s h2 ys. h_next h1 \<le> a"
      using Cons.IH [OF y(2)] by blast
    note keep = copyable.read_mono [OF c y(5) ys(3)]
    have "copy_elems f (x # xs) h = Some (y # ys, h2)" using y(1) ys(1) by simp
    moreover have "read_elems r h2 (y # ys) = Some vs" using keep(1) ys(5) w(3) by simp
    moreover have "\<forall>a\<in>reach_elems s h2 (y # ys). h_next h \<le> a"
      using keep(2) y(4,6) ys(6) order.trans [OF y(4)] by (auto simp: reach_elems_def)
    ultimately show ?case using ys(2) map_le_trans [OF y(3) ys(3)] order.trans [OF y(4) ys(4)] by blast
  qed
qed

section \<open>The types of the API\<close>

text \<open>The deep value of a struct: its plain fields, and what its pointers lead to.\<close>

definition RetryPolicy_value where
  "RetryPolicy_value = read_struct grp_Backoff (grp_Backoff_update (\<lambda>_. None)) (read_ptr duration_cell read_flat)"

definition RetryPolicy_cells where
  "RetryPolicy_cells = reach_struct grp_Backoff (reach_ptr duration_cell reach_flat)"

definition AlertmanagerConfig_value where
  "AlertmanagerConfig_value = read_struct gam_MatchLabels (gam_MatchLabels_update (\<lambda>_. None)) (read_ptr map_cell read_flat)"

definition AlertmanagerConfig_cells where
  "AlertmanagerConfig_cells = reach_struct gam_MatchLabels (reach_ptr map_cell reach_flat)"

definition TriggerSpec_value where
  "TriggerSpec_value = read_struct gtr_Alertmanager (gtr_Alertmanager_update (\<lambda>_. None)) (read_ptr alert_cell AlertmanagerConfig_value)"

definition TriggerSpec_cells where
  "TriggerSpec_cells = reach_struct gtr_Alertmanager (reach_ptr alert_cell AlertmanagerConfig_cells)"

definition stage_pointers where
  "stage_pointers x = (gsp_Timeout x, gsp_DependsOn x, gsp_Inputs x, gsp_Config x, gsp_RetryPolicy x)"

definition set_stage_pointers where
  "set_stage_pointers y x = (case y of (a, b, c, d, e) \<Rightarrow>
     x\<lparr>gsp_Timeout := a, gsp_DependsOn := b, gsp_Inputs := c, gsp_Config := d, gsp_RetryPolicy := e\<rparr>)"

definition StageSpec_value where
  "StageSpec_value = read_struct stage_pointers (set_stage_pointers (None, None, None, None, None))
     (read_both (read_ptr duration_cell read_flat) (read_both (read_ptr strings_cell read_flat)
       (read_both (read_ptr map_cell read_flat) (read_both (read_ptr config_cell read_flat)
         (read_ptr retry_cell RetryPolicy_value)))))"

definition StageSpec_cells where
  "StageSpec_cells = reach_struct stage_pointers
     (reach_both (reach_ptr duration_cell reach_flat) (reach_both (reach_ptr strings_cell reach_flat)
       (reach_both (reach_ptr map_cell reach_flat) (reach_both (reach_ptr config_cell reach_flat)
         (reach_ptr retry_cell RetryPolicy_cells)))))"

definition spec_parts where
  "spec_parts x = (gpc_Trigger x, gpc_Stages x, gpc_RetryPolicy x)"

definition set_spec_parts where
  "set_spec_parts y x = (case y of (a, b, c) \<Rightarrow> x\<lparr>gpc_Trigger := a, gpc_Stages := b, gpc_RetryPolicy := c\<rparr>)"

text \<open>A struct all of whose fields are copied by methods of their own keeps nothing else.\<close>

definition AgentPipelineSpec_value where
  "AgentPipelineSpec_value = read_struct spec_parts (\<lambda>_. ())
     (read_both TriggerSpec_value (read_both (read_ptr stages_cell (read_elems StageSpec_value))
       (read_ptr retry_cell RetryPolicy_value)))"

definition AgentPipelineSpec_cells where
  "AgentPipelineSpec_cells = reach_struct spec_parts
     (reach_both TriggerSpec_cells (reach_both (reach_ptr stages_cell (reach_elems StageSpec_cells))
       (reach_ptr retry_cell RetryPolicy_cells)))"

definition status_times where
  "status_times x = (gst_StartedAt x, gst_CompletedAt x)"

definition set_status_times where
  "set_status_times y x = (case y of (a, b) \<Rightarrow> x\<lparr>gst_StartedAt := a, gst_CompletedAt := b\<rparr>)"

definition StageStatus_value where
  "StageStatus_value = read_struct status_times (set_status_times (None, None))
     (read_both (read_ptr time_cell read_flat) (read_ptr time_cell read_flat))"

definition StageStatus_cells where
  "StageStatus_cells = reach_struct status_times
     (reach_both (reach_ptr time_cell reach_flat) (reach_ptr time_cell reach_flat))"

definition status_parts where
  "status_parts x = (gps_StartedAt x, gps_CompletedAt x, gps_Stages x, gps_Conditions x)"

definition set_status_parts where
  "set_status_parts y x = (case y of (a, b, c, d) \<Rightarrow>
     x\<lparr>gps_StartedAt := a, gps_CompletedAt := b, gps_Stages := c, gps_Conditions := d\<rparr>)"

definition AgentPipelineStatus_value where
  "AgentPipelineStatus_value = read_struct status_parts (set_status_parts (None, None, None, None))
     (read_both (read_ptr time_cell read_flat) (read_both (read_ptr time_cell read_flat)
       (read_both (read_ptr statuses_cell (read_elems StageStatus_value)) (read_ptr conditions_cell (read_elems read_flat)))))"

definition AgentPipelineStatus_cells where
  "AgentPipelineStatus_cells = reach_struct status_parts
     (reach_both (reach_ptr time_cell reach_flat) (reach_both (reach_ptr time_cell reach_flat)
       (reach_both (reach_ptr statuses_cell (reach_elems StageStatus_cells)) (reach_ptr conditions_cell (reach_elems reach_flat)))))"

lemmas part_defs = stage_pointers_def set_stage_pointers_def spec_parts_def set_spec_parts_def
  status_times_def set_status_times_def status_parts_def set_status_parts_def

lemma copy_entries_id: "copy_entries m = m"
  by (induction m rule: copy_entries.induct) simp_all

lemma copyable_assign: "copyable assign read_flat reach_flat"
  by (rule copyable_flat) (simp add: assign_def)

lemma copyable_map: "copyable copy_map read_flat reach_flat"
  by (rule copyable_flat) (simp add: copy_map_def copy_entries_id)

lemmas copyable_shapes = copyable_ptr copyable_elems copyable_both copyable_assign copyable_map

interpretation retry: copyable RetryPolicy_DeepCopyInto RetryPolicy_value RetryPolicy_cells
proof -
  have eq: "RetryPolicy_DeepCopyInto = copy_struct grp_Backoff (\<lambda>y. grp_Backoff_update (\<lambda>_. y)) (copy_ptr duration_cell assign)"
    by (simp add: fun_eq_iff RetryPolicy_DeepCopyInto_def copy_struct_def)
  show "copyable RetryPolicy_DeepCopyInto RetryPolicy_value RetryPolicy_cells"
    unfolding eq RetryPolicy_value_def RetryPolicy_cells_def
    by (intro copyable_struct copyable_shapes) simp_all
qed

interpretation alert: copyable AlertmanagerConfig_DeepCopyInto AlertmanagerConfig_value AlertmanagerConfig_cells
proof -
  have eq: "AlertmanagerConfig_DeepCopyInto =
      copy_struct gam_MatchLabels (\<lambda>y. gam_MatchLabels_update (\<lambda>_. y)) (copy_ptr map_cell copy_map)"
    by (simp add: fun_eq_iff AlertmanagerConfig_DeepCopyInto_def copy_struct_def)
  show "copyable AlertmanagerConfig_DeepCopyInto AlertmanagerConfig_value AlertmanagerConfig_cells"
    unfolding eq AlertmanagerConfig_value_def AlertmanagerConfig_cells_def
    by (intro copyable_struct copyable_shapes) simp_all
qed

interpretation trigger: copyable TriggerSpec_DeepCopyInto TriggerSpec_value TriggerSpec_cells
proof -
  have eq: "TriggerSpec_DeepCopyInto =
      copy_struct gtr_Alertmanager (\<lambda>y. gtr_Alertmanager_update (\<lambda>_. y)) (copy_ptr alert_cell AlertmanagerConfig_DeepCopyInto)"
    by (simp add: fun_eq_iff TriggerSpec_DeepCopyInto_def copy_struct_def)
  show "copyable TriggerSpec_DeepCopyInto TriggerSpec_value TriggerSpec_cells"
    unfolding eq TriggerSpec_value_def TriggerSpec_cells_def
    by (intro copyable_struct copyable_shapes alert.copyable_axioms) simp_all
qed

interpretation stage: copyable StageSpec_DeepCopyInto StageSpec_value StageSpec_cells
proof -
  have eq: "StageSpec_DeepCopyInto = copy_struct stage_pointers set_stage_pointers
     (copy_both (copy_ptr duration_cell assign) (copy_both (copy_ptr strings_cell assign)
       (copy_both (copy_ptr map_cell copy_map) (copy_both (copy_ptr config_cell assign)
         (copy_ptr retry_cell RetryPolicy_DeepCopyInto)))))"
    by (simp add: fun_eq_iff StageSpec_DeepCopyInto_def copy_struct_def copy_both_def part_defs case_prod_unfold)
  show "copyable StageSpec_DeepCopyInto StageSpec_value StageSpec_cells"
    unfolding eq StageSpec_value_def StageSpec_cells_def
    by (intro copyable_struct copyable_shapes retry.copyable_axioms) (simp_all add: part_defs split: prod.splits)
qed

interpretation spec: copyable AgentPipelineSpec_DeepCopyInto AgentPipelineSpec_value AgentPipelineSpec_cells
proof -
  have eq: "AgentPipelineSpec_DeepCopyInto = copy_struct spec_parts set_spec_parts
     (copy_both TriggerSpec_DeepCopyInto (copy_both (copy_ptr stages_cell (copy_elems StageSpec_DeepCopyInto))
       (copy_ptr retry_cell RetryPolicy_DeepCopyInto)))"
    by (simp add: fun_eq_iff AgentPipelineSpec_DeepCopyInto_def copy_struct_def copy_both_def part_defs case_prod_unfold)
  show "copyable AgentPipelineSpec_DeepCopyInto AgentPipelineSpec_value AgentPipelineSpec_cells"
    unfolding eq AgentPipelineSpec_value_def AgentPipelineSpec_cells_def
    by (intro copyable_struct copyable_shapes trigger.copyable_axioms stage.copyable_axioms retry.copyable_axioms)
      (simp_all add: part_defs split: prod.splits)
qed

definition apimachinery_copies :: "'m copy_env \<Rightarrow> ('m heap \<Rightarrow> 'm \<Rightarrow> 'v option) \<Rightarrow> ('m heap \<Rightarrow> 'm \<Rightarrow> addr set) \<Rightarrow> bool" where
  "apimachinery_copies E mv mc \<longleftrightarrow> (\<forall>t. ce_Time E t = t) \<and> (\<forall>c. ce_Condition E c = c) \<and>
     copyable (ce_ObjectMeta E) mv mc \<and> copyable (ce_ListMeta E) mv mc"

lemma copyable_time: "apimachinery_copies E mv mc \<Longrightarrow> copyable (copy_time E) read_flat reach_flat"
  by (rule copyable_flat) (simp add: copy_time_def apimachinery_copies_def)

lemma copyable_condition: "apimachinery_copies E mv mc \<Longrightarrow> copyable (copy_condition E) read_flat reach_flat"
  by (rule copyable_flat) (simp add: copy_condition_def apimachinery_copies_def)

lemma copyable_StageStatus:
  assumes "apimachinery_copies E mv mc"
  shows "copyable (StageStatus_DeepCopyInto E) StageStatus_value StageStatus_cells"
proof -
  have eq: "StageStatus_DeepCopyInto E = copy_struct status_times set_status_times
     (copy_both (copy_ptr time_cell (copy_time E)) (copy_ptr time_cell (copy_time E)))"
    by (simp add: fun_eq_iff StageStatus_DeepCopyInto_def copy_struct_def copy_both_def part_defs case_prod_unfold)
  show ?thesis
    unfolding eq StageStatus_value_def StageStatus_cells_def
    by (intro copyable_struct copyable_shapes copyable_time [OF assms]) (simp_all add: part_defs split: prod.splits)
qed

lemma copyable_AgentPipelineStatus:
  assumes "apimachinery_copies E mv mc"
  shows "copyable (AgentPipelineStatus_DeepCopyInto E) AgentPipelineStatus_value AgentPipelineStatus_cells"
proof -
  have eq: "AgentPipelineStatus_DeepCopyInto E = copy_struct status_parts set_status_parts
     (copy_both (copy_ptr time_cell (copy_time E)) (copy_both (copy_ptr time_cell (copy_time E))
       (copy_both (copy_ptr statuses_cell (copy_elems (StageStatus_DeepCopyInto E)))
         (copy_ptr conditions_cell (copy_elems (copy_condition E))))))"
    by (simp add: fun_eq_iff AgentPipelineStatus_DeepCopyInto_def copy_struct_def copy_both_def part_defs case_prod_unfold)
  show ?thesis
    unfolding eq AgentPipelineStatus_value_def AgentPipelineStatus_cells_def
    by (intro copyable_struct copyable_shapes copyable_time [OF assms] copyable_condition [OF assms]
          copyable_StageStatus [OF assms]) (simp_all add: part_defs split: prod.splits)
qed

section \<open>Objects\<close>

text \<open>An object is its type, its metadata, its spec and its status, or for a list its items.\<close>

definition object_parts where
  "object_parts x = (gap_ObjectMeta x, gap_Spec x, gap_Status x)"

definition set_object_parts where
  "set_object_parts y x = (case y of (a, b, c) \<Rightarrow> x\<lparr>gap_ObjectMeta := a, gap_Spec := b, gap_Status := c\<rparr>)"

definition AgentPipeline_value where
  "AgentPipeline_value mv = read_struct object_parts gap_TypeMeta
     (read_both mv (read_both AgentPipelineSpec_value AgentPipelineStatus_value))"

definition AgentPipeline_cells where
  "AgentPipeline_cells mc = reach_struct object_parts
     (reach_both mc (reach_both AgentPipelineSpec_cells AgentPipelineStatus_cells))"

definition list_parts where
  "list_parts x = (gal_ListMeta x, gal_Items x)"

definition set_list_parts where
  "set_list_parts y x = (case y of (a, b) \<Rightarrow> x\<lparr>gal_ListMeta := a, gal_Items := b\<rparr>)"

definition AgentPipelineList_value where
  "AgentPipelineList_value mv = read_struct list_parts gal_TypeMeta
     (read_both mv (read_ptr pipelines_cell (read_elems (AgentPipeline_value mv))))"

definition AgentPipelineList_cells where
  "AgentPipelineList_cells mc = reach_struct list_parts
     (reach_both mc (reach_ptr pipelines_cell (reach_elems (AgentPipeline_cells mc))))"

lemmas object_defs = object_parts_def set_object_parts_def list_parts_def set_list_parts_def

lemma copyable_AgentPipeline:
  assumes "apimachinery_copies E mv mc"
  shows "copyable (AgentPipeline_DeepCopyInto E) (AgentPipeline_value mv) (AgentPipeline_cells mc)"
proof -
  have eq: "AgentPipeline_DeepCopyInto E = copy_struct object_parts set_object_parts
     (copy_both (ce_ObjectMeta E) (copy_both AgentPipelineSpec_DeepCopyInto (AgentPipelineStatus_DeepCopyInto E)))"
    by (simp add: fun_eq_iff AgentPipeline_DeepCopyInto_def copy_struct_def copy_both_def object_defs case_prod_unfold)
  have "copyable (ce_ObjectMeta E) mv mc" using assms by (simp add: apimachinery_copies_def)
  then show ?thesis
    unfolding eq AgentPipeline_value_def AgentPipeline_cells_def
    by (intro copyable_struct copyable_both spec.copyable_axioms copyable_AgentPipelineStatus [OF assms])
      (simp_all add: object_defs split: prod.splits)
qed

lemma copyable_AgentPipelineList:
  assumes "apimachinery_copies E mv mc"
  shows "copyable (AgentPipelineList_DeepCopyInto E) (AgentPipelineList_value mv) (AgentPipelineList_cells mc)"
proof -
  have eq: "AgentPipelineList_DeepCopyInto E = copy_struct list_parts set_list_parts
     (copy_both (ce_ListMeta E) (copy_ptr pipelines_cell (copy_elems (AgentPipeline_DeepCopyInto E))))"
    by (simp add: fun_eq_iff AgentPipelineList_DeepCopyInto_def copy_struct_def copy_both_def object_defs case_prod_unfold)
  have "copyable (ce_ListMeta E) mv mc" using assms by (simp add: apimachinery_copies_def)
  then show ?thesis
    unfolding eq AgentPipelineList_value_def AgentPipelineList_cells_def
    by (intro copyable_struct copyable_shapes copyable_AgentPipeline [OF assms])
      (simp_all add: object_defs split: prod.splits)
qed

text \<open>\<open>DeepCopyObject\<close> is \<open>DeepCopy\<close>: the copy of a pointer.\<close>

lemma DeepCopyObject_eq:
  "AgentPipeline_DeepCopyObject E = copy_ptr pipeline_cell (AgentPipeline_DeepCopyInto E)"
  "AgentPipelineList_DeepCopyObject E = copy_ptr list_cell (AgentPipelineList_DeepCopyInto E)"
  by (auto simp: fun_eq_iff AgentPipeline_DeepCopyObject_def AgentPipeline_DeepCopy_def AgentPipelineList_DeepCopyObject_def
        AgentPipelineList_DeepCopy_def split: Option.bind_splits)

text \<open>So each \<open>DeepCopy\<close> of the file keeps the contract.\<close>

lemma DeepCopy_contracts:
  "copyable AgentReference_DeepCopy (read_ptr ref_cell read_flat) (reach_ptr ref_cell reach_flat)"
  "copyable StageConfig_DeepCopy (read_ptr config_cell read_flat) (reach_ptr config_cell reach_flat)"
  "copyable RetryPolicy_DeepCopy (read_ptr retry_cell RetryPolicy_value) (reach_ptr retry_cell RetryPolicy_cells)"
  "copyable AlertmanagerConfig_DeepCopy (read_ptr alert_cell AlertmanagerConfig_value) (reach_ptr alert_cell AlertmanagerConfig_cells)"
  "copyable TriggerSpec_DeepCopy (read_ptr trigger_cell TriggerSpec_value) (reach_ptr trigger_cell TriggerSpec_cells)"
  "copyable StageSpec_DeepCopy (read_ptr stage_cell StageSpec_value) (reach_ptr stage_cell StageSpec_cells)"
  "copyable AgentPipelineSpec_DeepCopy (read_ptr spec_cell AgentPipelineSpec_value) (reach_ptr spec_cell AgentPipelineSpec_cells)"
  unfolding AgentReference_DeepCopy_def AgentReference_DeepCopyInto_def StageConfig_DeepCopy_def StageConfig_DeepCopyInto_def
    RetryPolicy_DeepCopy_def AlertmanagerConfig_DeepCopy_def TriggerSpec_DeepCopy_def StageSpec_DeepCopy_def AgentPipelineSpec_DeepCopy_def
  by (intro copyable_shapes retry.copyable_axioms alert.copyable_axioms trigger.copyable_axioms stage.copyable_axioms
        spec.copyable_axioms cells_retract)+

lemma status_DeepCopy_contracts:
  assumes "apimachinery_copies E mv mc"
  shows "copyable (StageStatus_DeepCopy E) (read_ptr stage_status_cell StageStatus_value) (reach_ptr stage_status_cell StageStatus_cells)"
    and "copyable (AgentPipelineStatus_DeepCopy E) (read_ptr status_cell AgentPipelineStatus_value)
      (reach_ptr status_cell AgentPipelineStatus_cells)"
  unfolding StageStatus_DeepCopy_def AgentPipelineStatus_DeepCopy_def
  by (intro copyable_ptr copyable_StageStatus [OF assms] copyable_AgentPipelineStatus [OF assms] cells_retract)+

section \<open>The API object at a pointer\<close>

text \<open>
  What a deep value means as a value of the records of \<open>Api_Types\<close>, on which the rest
  of the development works: a nil slice or map is empty. \<open>mo\<close> gives the metadata
  fields the operator uses.
\<close>

definition or_empty :: "'a list option \<Rightarrow> 'a list" where
  "or_empty x = (case x of None \<Rightarrow> [] | Some xs \<Rightarrow> xs)"

fun retry_of :: "go_RetryPolicy \<times> duration option \<Rightarrow> RetryPolicy" where
  "retry_of (x, b) = \<lparr>rp_MaxRetries = grp_MaxRetries x, rp_Backoff = b\<rparr>"

fun alert_of :: "go_AlertmanagerConfig \<times> (string \<times> string) list option \<Rightarrow> AlertmanagerConfig" where
  "alert_of (x, labels) = \<lparr>am_WebhookPort = gam_WebhookPort x, am_MatchLabels = or_empty labels\<rparr>"

fun trigger_of where
  "trigger_of (x, am) = \<lparr>trg_Type = gtr_Type x, trg_Alertmanager = map_option alert_of am\<rparr>"

fun stage_of where
  "stage_of (x, timeout, deps, inputs, config, retry) = \<lparr>sp_Name = gsp_Name x, sp_AgentRef = gsp_AgentRef x,
     sp_Timeout = timeout, sp_DependsOn = or_empty deps, sp_Prompt = gsp_Prompt x, sp_Inputs = or_empty inputs,
     sp_Config = config, sp_RetryPolicy = map_option retry_of retry\<rparr>"

fun spec_of where
  "spec_of (_ :: unit, trigger, stages, retry) = \<lparr>spec_Trigger = trigger_of trigger,
     spec_Stages = map stage_of (or_empty stages), spec_RetryPolicy = map_option retry_of retry\<rparr>"

fun stage_status_of where
  "stage_status_of (x, started, completed) = \<lparr>st_Name = gst_Name x, st_Phase = gst_Phase x, st_StartedAt = started,
     st_CompletedAt = completed, st_RetryCount = gst_RetryCount x, st_Output = gst_Output x,
     st_OutputRef = gst_OutputRef x, st_Error = gst_Error x, st_TaskID = gst_TaskID x\<rparr>"

fun status_of where
  "status_of (x, started, completed, stages, conds) = \<lparr>sts_Phase = gps_Phase x, sts_CurrentStage = gps_CurrentStage x,
     sts_StartedAt = started, sts_CompletedAt = completed, sts_Stages = map stage_status_of (or_empty stages),
     sts_Conditions = or_empty conds\<rparr>"

fun pipeline_of where
  "pipeline_of mo (_ :: go_TypeMeta, m, sp, st) = \<lparr>ap_Meta = mo m, ap_Spec = spec_of sp, ap_Status = status_of st\<rparr>"

definition pipeline_at ::
  "('v \<Rightarrow> ObjectMeta) \<Rightarrow> ('m heap \<Rightarrow> 'm \<Rightarrow> 'v option) \<Rightarrow> 'm heap \<Rightarrow> addr \<Rightarrow> AgentPipeline option" where
  "pipeline_at mo mv h a = do { x \<leftarrow> load pipeline_cell h a; v \<leftarrow> AgentPipeline_value mv h x; Some (pipeline_of mo v) }"

lemma pipeline_at_value:
  "pipeline_at mo mv h a = Some P \<longleftrightarrow>
     (\<exists>v. read_ptr pipeline_cell (AgentPipeline_value mv) h (Some a) = Some (Some v) \<and> P = pipeline_of mo v)"
  by (auto simp: pipeline_at_def read_ptr_def bind_eq_Some_conv)

section \<open>An example\<close>

text \<open>
  Metadata with a name and a slice of finalizers, and a heap with one list of one pipeline that has
  two stages, the second depending on the first.
\<close>

record example_meta =
  em_Name :: string
  em_Finalizers :: "addr option"

definition example_copies :: "example_meta copy_env" where
  "example_copies = (let f = copy_struct em_Finalizers (\<lambda>y. em_Finalizers_update (\<lambda>_. y)) (copy_ptr strings_cell assign)
     in \<lparr>ce_Time = (\<lambda>t. t), ce_Condition = (\<lambda>c. c), ce_ObjectMeta = f, ce_ListMeta = f\<rparr>)"

definition example_meta_value where
  "example_meta_value = read_struct em_Finalizers em_Name (read_ptr strings_cell read_flat)"

definition example_meta_cells where
  "example_meta_cells = reach_struct em_Finalizers (reach_ptr strings_cell reach_flat)"

lemma example_copies_ok: "apimachinery_copies example_copies example_meta_value example_meta_cells"
proof -
  have "copyable (copy_struct em_Finalizers (\<lambda>y. em_Finalizers_update (\<lambda>_. y)) (copy_ptr strings_cell assign))
      example_meta_value example_meta_cells"
    unfolding example_meta_value_def example_meta_cells_def by (intro copyable_struct copyable_shapes) simp_all
  then show ?thesis by (simp add: apimachinery_copies_def example_copies_def Let_def)
qed

definition example_stage :: "string \<Rightarrow> addr option \<Rightarrow> go_StageSpec" where
  "example_stage n deps = \<lparr>gsp_Name = n, gsp_AgentRef = \<lparr>ref_Name = ''diagnostic'', ref_Namespace = ''''\<rparr>,
     gsp_Timeout = None, gsp_DependsOn = deps, gsp_Prompt = ''look'', gsp_Inputs = None, gsp_Config = None,
     gsp_RetryPolicy = None\<rparr>"

definition example_object :: "example_meta go_AgentPipeline" where
  "example_object = \<lparr>gap_TypeMeta = \<lparr>tm_Kind = ''AgentPipeline'', tm_APIVersion = ''v1alpha1''\<rparr>,
     gap_ObjectMeta = \<lparr>em_Name = ''p'', em_Finalizers = Some 0\<rparr>,
     gap_Spec = \<lparr>gpc_Trigger = \<lparr>gtr_Type = ''manual'', gtr_Alertmanager = None\<rparr>, gpc_Stages = Some 2, gpc_RetryPolicy = None\<rparr>,
     gap_Status = \<lparr>gps_Phase = ''Pending'', gps_CurrentStage = '''', gps_StartedAt = Some 3, gps_CompletedAt = None,
       gps_Stages = None, gps_Conditions = None\<rparr>\<rparr>"

definition example_heap :: "example_meta heap" where
  "example_heap = \<lparr>h_cells = [0 \<mapsto> CStrings [''agents''], 1 \<mapsto> CStrings [''a''],
       2 \<mapsto> CStageSpecs [example_stage ''a'' None, example_stage ''b'' (Some 1)], 3 \<mapsto> CTime 5,
       4 \<mapsto> CPipeline example_object, 5 \<mapsto> CPipelines [example_object],
       6 \<mapsto> CPipelineList \<lparr>gal_TypeMeta = \<lparr>tm_Kind = ''AgentPipelineList'', tm_APIVersion = ''v1alpha1''\<rparr>,
         gal_ListMeta = \<lparr>em_Name = '''', em_Finalizers = None\<rparr>, gal_Items = Some 5\<rparr>], h_next = 7\<rparr>"

definition example_meta_of :: "string \<times> string list option \<Rightarrow> ObjectMeta" where
  "example_meta_of v = zero_ObjectMeta\<lparr>om_Name := fst v, om_Finalizers := or_empty (snd v)\<rparr>"

lemmas value_defs = read_ptr_def read_flat_def read_struct_def read_both_def load_def cell_defs
  RetryPolicy_value_def AlertmanagerConfig_value_def TriggerSpec_value_def StageSpec_value_def AgentPipelineSpec_value_def
  StageStatus_value_def AgentPipelineStatus_value_def AgentPipeline_value_def AgentPipelineList_value_def part_defs object_defs

lemmas example_defs = example_heap_def example_object_def example_stage_def example_meta_value_def

lemma example_heap_wf: "wf_heap example_heap"
  by (simp add: wf_heap_def example_heap_def)

section \<open>Properties\<close>

text \<open>
  C38. Lists as cached objects: \<open>DeepCopyObject\<close> of a list of pipelines, on a heap in
  which every pointer of the list leads to a value of its type, returns a list with the same deep
  value and leaves every cell in place. What is later written to the cells that existed before,
  such as those of the original, is not seen through the copy, and what is later written to new
  cells, such as those of the copy, is not seen through the original. A nil pointer copies to nil.
\<close>

theorem list_copy_is_deep:
  assumes "apimachinery_copies E mv mc" and "wf_heap h"
    and "read_ptr list_cell (AgentPipelineList_value mv) h p = Some v"
  shows "\<exists>q h'. AgentPipelineList_DeepCopyObject E p h = Some (q, h') \<and> wf_heap h' \<and> h_cells h \<subseteq>\<^sub>m h_cells h' \<and>
    read_ptr list_cell (AgentPipelineList_value mv) h' q = Some v \<and>
    (\<forall>g. (\<forall>a<h_next h. h_cells g a = h_cells h a) \<longrightarrow> read_ptr list_cell (AgentPipelineList_value mv) g p = Some v) \<and>
    (\<forall>g. (\<forall>a\<ge>h_next h. h_cells g a = h_cells h' a) \<longrightarrow> read_ptr list_cell (AgentPipelineList_value mv) g q = Some v)"
  unfolding DeepCopyObject_eq
  by (rule copyable.copy_independent [OF copyable_ptr [OF copyable_AgentPipelineList [OF assms(1)]] assms(2,3)]) simp

theorem list_copy_is_deep_witness:
  "\<exists>q h' v. AgentPipelineList_DeepCopyObject example_copies (Some 6) example_heap = Some (Some q, h') \<and>
    read_ptr list_cell (AgentPipelineList_value example_meta_value) example_heap (Some 6) = Some (Some v) \<and>
    read_ptr list_cell (AgentPipelineList_value example_meta_value) h' (Some q) = Some (Some v) \<and>
    read_ptr list_cell (AgentPipelineList_value example_meta_value)
      (h'\<lparr>h_cells := (h_cells h')(1 \<mapsto> CStrings [''b''], 2 \<mapsto> CStageSpecs [])\<rparr>) (Some q) = Some (Some v)"
proof -
  obtain v where v: "read_ptr list_cell (AgentPipelineList_value example_meta_value) example_heap (Some 6) = Some (Some v)"
    by (simp add: value_defs example_defs)
  obtain q h' where q: "AgentPipelineList_DeepCopyObject example_copies (Some 6) example_heap = Some (q, h')"
    "read_ptr list_cell (AgentPipelineList_value example_meta_value) h' q = Some (Some v)"
    "\<forall>g. (\<forall>a\<ge>h_next example_heap. h_cells g a = h_cells h' a) \<longrightarrow>
      read_ptr list_cell (AgentPipelineList_value example_meta_value) g q = Some (Some v)"
    using list_copy_is_deep [OF example_copies_ok example_heap_wf v] by blast
  obtain b where b: "q = Some b" using q(2) by (cases q) (auto simp: read_ptr_def)
  have "\<forall>a\<ge>h_next example_heap.
      h_cells (h'\<lparr>h_cells := (h_cells h')(1 \<mapsto> CStrings [''b''], 2 \<mapsto> CStageSpecs [])\<rparr>) a = h_cells h' a"
    by (simp add: example_heap_def)
  then show ?thesis using q v b by blast
qed

text \<open>
  C39. The copy stands for the same object: if the pipeline at an address stands for the API
  object \<open>P\<close>, \<open>DeepCopyObject\<close> gives a new address whose pipeline stands
  for \<open>P\<close> too, and each of the two goes on to stand for \<open>P\<close> whatever is
  written to the cells of the other. So the model may treat pipelines as values.
\<close>

theorem pipeline_copy_is_same_object:
  assumes "apimachinery_copies E mv mc" and "wf_heap h" and "pipeline_at mo mv h a = Some P"
  shows "\<exists>b h'. AgentPipeline_DeepCopyObject E (Some a) h = Some (Some b, h') \<and> h_cells h b = None \<and>
    pipeline_at mo mv h' a = Some P \<and> pipeline_at mo mv h' b = Some P \<and>
    (\<forall>g. (\<forall>c<h_next h. h_cells g c = h_cells h c) \<longrightarrow> pipeline_at mo mv g a = Some P) \<and>
    (\<forall>g. (\<forall>c\<ge>h_next h. h_cells g c = h_cells h' c) \<longrightarrow> pipeline_at mo mv g b = Some P)"
proof -
  have c: "copyable (AgentPipeline_DeepCopyObject E) (read_ptr pipeline_cell (AgentPipeline_value mv))
      (reach_ptr pipeline_cell (AgentPipeline_cells mc))"
    unfolding DeepCopyObject_eq by (simp add: copyable_ptr copyable_AgentPipeline [OF assms(1)])
  obtain v where v: "read_ptr pipeline_cell (AgentPipeline_value mv) h (Some a) = Some (Some v)" "P = pipeline_of mo v"
    using assms(3) by (auto simp: pipeline_at_value)
  obtain q h' where q: "AgentPipeline_DeepCopyObject E (Some a) h = Some (q, h')" "h_cells h \<subseteq>\<^sub>m h_cells h'"
    "read_ptr pipeline_cell (AgentPipeline_value mv) h' q = Some (Some v)"
    "\<forall>c\<in>reach_ptr pipeline_cell (AgentPipeline_cells mc) h' q. h_next h \<le> c"
    using copyable.copy_new [OF c assms(2) v(1)] by blast
  then obtain b where b: "q = Some b" by (cases q) (auto simp: read_ptr_def)
  then have "h_next h \<le> b" using q(4) by (simp add: reach_ptr_def)
  then have "h_cells h b = None" using assms(2) by (metis wf_heap_def linorder_not_le)
  then show ?thesis
    using q(1,3) b v(2) copyable.read_mono(1) [OF c v(1) q(2)] copyable.original_unaffected [OF c assms(2) v(1)]
      copyable.copy_unaffected [OF c assms(2) v(1) q(1)]
    unfolding pipeline_at_value by blast
qed

theorem pipeline_copy_is_same_object_witness:
  "\<exists>b h' P. pipeline_at example_meta_of example_meta_value example_heap 4 = Some P \<and>
    map sp_DependsOn (p_stages P) = [[], [''a'']] \<and> om_Finalizers (ap_Meta P) = [''agents''] \<and>
    AgentPipeline_DeepCopyObject example_copies (Some 4) example_heap = Some (Some b, h') \<and>
    pipeline_at example_meta_of example_meta_value h' b = Some P"
proof -
  obtain P where P: "pipeline_at example_meta_of example_meta_value example_heap 4 = Some P"
    "map sp_DependsOn (p_stages P) = [[], [''a'']]" "om_Finalizers (ap_Meta P) = [''agents'']"
    by (simp add: pipeline_at_def value_defs example_defs or_empty_def example_meta_of_def)
  obtain b h' where "AgentPipeline_DeepCopyObject example_copies (Some 4) example_heap = Some (Some b, h')"
    "pipeline_at example_meta_of example_meta_value h' b = Some P"
    using pipeline_copy_is_same_object [OF example_copies_ok example_heap_wf P(1)] by (elim exE conjE) rule
  with P show ?thesis by (intro exI conjI)
qed

end
