(* ===== verification/Pass_Relation.thy ===== *)
theory Pass_Relation
  imports Operator_Runs
begin

text \<open>
  A pass is made of calls to the API server and the runner, clock readings and events. The locale
  \<open>pass_relation\<close> is the corresponding proof rule: a preorder on worlds that each of these
  respects is respected by every method of the reconciler, by a pass and by any sequence of passes.
\<close>

locale pass_relation =
  fixes R :: "('c, 'r) AgentPipelineReconciler" and T :: "('c, 'r) world \<Rightarrow> ('c, 'r) world \<Rightarrow> bool"
  assumes T_refl: "T w w"
    and T_trans: "T u v \<Longrightarrow> T v w \<Longrightarrow> T u w"
    and T_Get: "T w (snd (do_Get R w k))"
    and T_GetConfigMap: "T w (snd (do_GetConfigMap R w k))"
    and T_Update: "T w (snd (do_Update R w p))"
    and T_StatusUpdate: "T w (snd (do_StatusUpdate R w p))"
    and T_CreateOrUpdate: "T w (snd (do_CreateOrUpdate R w cm f))"
    and T_RunAgent: "T w (snd (do_RunAgent R w req))"
    and T_clock: "T w (w\<lparr>w_clock := t\<rparr>)"
    and T_Event: "T w (Recorder_Event w ty reason msg)"
begin

lemma after_StatusUpdate:
  "T w (snd (case do_StatusUpdate R w q of (Inl e, v) \<Rightarrow> (f e, v) | (Inr y, v) \<Rightarrow> (g, Recorder_Event v ty reason msg)))"
  using T_StatusUpdate [of w q] T_trans [OF _ T_Event] by (auto split: prod.splits sum.splits)

lemma after_clock: "T (w\<lparr>w_clock := t\<rparr>) w' \<Longrightarrow> T w w'"
  by (rule T_trans [OF T_clock])

lemma endings:
  "T w (snd (completePipeline R w q))" "T w (snd (failPipeline R w q reason))"
  "T w (snd (failStage R w q i m))" "T w (snd (completeStageFromOutput R w q stage i out))"
  "T w (snd (retryStage R w q stage i rp))"
  unfolding completePipeline_def failPipeline_def failStage_def completeStageFromOutput_def retryStage_def
    metav1_Now_def set_ready_eq Let_def prod.case
  by (simp_all add: after_StatusUpdate after_clock [OF after_StatusUpdate])

lemma handleDeletion: "T w (snd (handleDeletion R w q))"
  using T_Update [of w "ctl_RemoveFinalizer R q finalizerName"]
  by (auto simp: handleDeletion_def T_refl split: prod.splits sum.splits)

lemma handlePending: "T w (snd (handlePending R w q))"
proof (cases "ctl_ContainsFinalizer R q finalizerName")
  case False
  then show ?thesis
    using T_Update [of w "ctl_AddFinalizer R q finalizerName"] by (auto simp: handlePending_def split: prod.splits sum.splits)
next
  case True
  have "T w (snd (handlePending R w q))" if "p_stages q \<noteq> []"
    using True that unfolding handlePending_def metav1_Now_def set_ready_eq Let_def prod.case
    by (simp add: after_clock [OF after_StatusUpdate])
  then show ?thesis using True by (cases "p_stages q = []") (simp_all add: handlePending_def endings)
qed

lemma readConfigMapOutput: "readConfigMapOutput R w ns n = (y, v) \<Longrightarrow> T w v"
  using T_GetConfigMap [of w "\<lparr>nn_Namespace = ns, nn_Name = n\<rparr>"]
  by (auto simp: readConfigMapOutput_def split: prod.splits sum.splits)

lemma build_context_loop: "build_context_loop R w p cur i xs pc = (x, w') \<Longrightarrow> T w w'"
proof (induction xs arbitrary: w i pc)
  case (Cons a xs)
  obtain y v where y: "readConfigMapOutput R w (p_ns p) (st_OutputRef a) = (y, v)" by fastforce
  show ?case
    using Cons.prems Cons.IH y T_trans [OF readConfigMapOutput [OF y]]
    by (cases y) (auto simp: Let_def readConfigMapOutput split: if_splits)
qed (simp add: T_refl)

lemma StoreOutput:
  assumes "StoreOutput R w q n out = (y, v)"
  shows "T w v"
proof (cases "ctl_SetControllerReference R q (output_config_map q n out)")
  case (Inl e)
  then show ?thesis using assms T_refl by (simp add: StoreOutput_def)
next
  case (Inr cm)
  then show ?thesis
    using assms T_CreateOrUpdate [of w cm "\<lambda>c. c\<lparr>cm_Data := [(configMapDataKey, out)]\<rparr>"]
    by (auto simp: StoreOutput_def Let_def split: prod.splits sum.splits)
qed

lemma completeStage: "T w (snd (completeStage R w q stage i res))"
proof -
  obtain y v where y: "StoreOutput R w q (sp_Name stage) (res_Output res) = (y, v)" by fastforce
  have "T v (snd (completeStage R w q stage i res))"
    using y T_refl after_clock [OF after_StatusUpdate]
    by (cases y) (auto simp: completeStage_def metav1_Now_def Let_def)
  then show ?thesis by (rule T_trans [OF StoreOutput [OF y]])
qed

lemma finish_run: "T w (snd (finish_run R w q stage i y))"
  by (simp add: finish_run_def endings completeStage split: sum.splits)

lemma startStage: "T w (snd (startStage R w q stage i))"
proof -
  obtain y v where y: "readConfigMapOutput R w (p_ns q) (outputConfigMapName (p_name q) (sp_Name stage)) = (y, v)"
    by fastforce
  show ?thesis
  proof (cases y)
    case (Inr out)
    then show ?thesis using y T_trans [OF readConfigMapOutput [OF y] endings(4)] by (simp add: startStage_def)
  next
    case (Inl err)
    let ?p = "running_at q stage i (wall_clock R (w_clock v))"
    let ?u = "Recorder_Event (v\<lparr>w_clock := Suc (w_clock v)\<rparr>) EventTypeNormal ''StageStarted''
      (''Stage '' @ quote (print_table R) (sp_Name stage) @ '' started (agent: '' @ ref_Name (sp_AgentRef stage) @ '')'')"
    obtain z t where z: "BuildPipelineContext R ?u ?p stage = (z, t)" by fastforce
    have "T v t" by (rule after_clock [OF T_trans [OF T_Event build_context_loop [OF z [unfolded BuildPipelineContext_def]]]])
    note t = T_trans [OF readConfigMapOutput [OF y] this]
    have "T t (snd (startStage R w q stage i))"
      using y z unfolding Inl startStage_def metav1_Now_def
      by (simp add: Let_def case_prod_beta endings T_trans [OF T_RunAgent finish_run] split: sum.splits)
    then show ?thesis by (rule T_trans [OF t])
  qed
qed

lemma Reconcile: "T w (snd (Reconcile R w k))"
proof -
  obtain y v where y: "do_Get R w k = (y, v)" by fastforce
  have run: "T v (snd (handleRunning R v p))" for p
    by (auto simp: handleRunning_def endings startStage Let_def T_refl split: sum.splits option.splits)
  have "T v (snd (Reconcile R w k))"
    using y run by (auto simp: Reconcile_def handlePending handleDeletion T_refl split: sum.splits)
  then show ?thesis using T_trans [OF T_Get] y by (metis snd_conv)
qed

lemma passes: "T w (passes R w ks)"
  by (induction ks arbitrary: w) (auto intro: T_refl T_trans [OF Reconcile])

end

end
