(* ===== verification/Run_Log.thy ===== *)
theory Run_Log
  imports Operator_Examples Pass_Relation
begin

text \<open>
  What a pass leaves for others to see. Events: everything the operator announces, the start of a
  stage apart, is in the status that the API server holds when it is announced. Runners: the runner
  is called with the logged requests and touched by nothing else, so a mock knows all of them.
\<close>

section \<open>Events\<close>

text \<open>
  Event \<open>e\<close> is true of pipeline \<open>p\<close>: its phase, its \<open>Ready\<close>
  condition and the stage named in the message are what the event says, and the message is spelled
  out in full. \<open>tbl\<close> is the table that \<open>%q\<close> consults. Only the duration
  in a message of completion is free.
\<close>

definition stage_event :: "(nat \<Rightarrow> bool) \<Rightarrow> AgentPipeline \<Rightarrow> StageSpec \<Rightarrow> StageStatus \<Rightarrow> string \<Rightarrow> string \<Rightarrow> bool" where
  "stage_event tbl p stage s reason msg \<longleftrightarrow>
     (if reason = ''StageFailed'' then
        st_Phase s = StageFailed \<and> msg = ''Stage '' @ quote tbl (st_Name s) @ '' failed: '' @ st_Error s
      else if reason = ''StageCompleted'' then
        st_Phase s = StageCompleted \<and> st_OutputRef s = outputConfigMapName (p_name p) (sp_Name stage) \<and>
        (msg = ''Stage '' @ quote tbl (sp_Name stage) @ '' completed (recovered)'' \<or>
         (\<exists>d. msg = ''Stage '' @ quote tbl (sp_Name stage) @ '' completed in '' @ Duration_String (Duration_Round d Second)))
      else reason = ''StageRetry'' \<and> st_Phase s = StagePending \<and> st_Error s = '''' \<and>
        msg = ''Retrying stage '' @ quote tbl (sp_Name stage) @ '' (attempt '' @ show_int (sint (st_RetryCount s)) @ ''/''
          @ show_int (sint (rp_MaxRetries (GetEffectiveRetryPolicy p stage))) @ '')'')"

definition event_true :: "(nat \<Rightarrow> bool) \<Rightarrow> Event \<Rightarrow> AgentPipeline \<Rightarrow> bool" where
  "event_true tbl e p \<longleftrightarrow>
     (if ev_Reason e = ''PipelineStarted'' then ev_Type e = EventTypeNormal \<and> p_phase p = PhaseRunning \<and>
        list_all (\<lambda>s. st_Phase s = StagePending) (p_statuses p) \<and> length (p_statuses p) = length (p_stages p) \<and>
        ev_Message e = ''Pipeline started with '' @ show_int (int (length (p_stages p))) @ '' stages''
      else if ev_Reason e = ''PipelineCompleted'' then ev_Type e = EventTypeNormal \<and> p_phase p = PhaseCompleted \<and>
        list_all stage_done (p_statuses p) \<and>
        ev_Message e = ''Pipeline completed all '' @ show_int (int (length (p_stages p))) @ '' stages''
      else if ev_Reason e = ''PipelineFailed'' then ev_Type e = EventTypeWarning \<and> p_phase p = PhaseFailed \<and>
        ready_is (sts_Conditions (ap_Status p)) ''False'' ''PipelineFailed'' (ev_Message e)
      else ev_Type e = (if ev_Reason e = ''StageFailed'' then EventTypeWarning else EventTypeNormal) \<and>
        list_ex (\<lambda>(stage, s). stage_event tbl p stage s (ev_Reason e) (ev_Message e)) (zip (p_stages p) (p_statuses p)))"

text \<open>That a stage was started is true of the pipeline as the pass read it: it is the stage to work on.\<close>

definition event_started :: "(nat \<Rightarrow> bool) \<Rightarrow> AgentPipeline \<Rightarrow> Event \<Rightarrow> bool" where
  "event_started tbl q e \<longleftrightarrow> ev_Type e = EventTypeNormal \<and> ev_Reason e = ''StageStarted'' \<and>
     (case FindCurrentStage q of
        Inr (Some (stage, i)) \<Rightarrow> st_Phase (cur_status q i) = StagePending \<and>
          ev_Message e = ''Stage '' @ quote tbl (sp_Name stage) @ '' started (agent: '' @ ref_Name (sp_AgentRef stage) @ '')''
      | _ \<Rightarrow> False)"

text \<open>
  The events after \<open>evs\<close> are true of what is stored under \<open>k\<close> once the
  pass is over, or tell of the start of a stage of \<open>q\<close>.
\<close>

definition tells :: "(nat \<Rightarrow> bool) \<Rightarrow> (NamespacedName \<Rightarrow> AgentPipeline option) \<Rightarrow> AgentPipeline \<Rightarrow> Event list \<Rightarrow> Event list \<Rightarrow> bool" where
  "tells tbl m q evs evs' \<longleftrightarrow> (\<exists>es. evs' = evs @ es \<and>
     (\<forall>e\<in>set es. event_started tbl q e \<or> (\<exists>p. m (p_key q) = Some p \<and> event_true tbl e p)))"

lemma tells_refl [simp]: "tells tbl m q evs evs"
  by (simp add: tells_def)

lemma tells_started: "event_started tbl q e \<Longrightarrow> tells tbl m q (evs @ [e]) evs' \<Longrightarrow> tells tbl m q evs evs'"
  by (auto simp: tells_def)

lemma event_true_stage:
  assumes "i < length (p_statuses p)" "i < length (p_stages p)"
    and "stage_event tbl p (p_stages p ! i) (p_statuses p ! i) (ev_Reason e) (ev_Message e)"
    and "ev_Type e = (if ev_Reason e = ''StageFailed'' then EventTypeWarning else EventTypeNormal)"
    and "ev_Reason e \<notin> {''PipelineStarted'', ''PipelineCompleted'', ''PipelineFailed''}"
  shows "event_true tbl e p"
  using assms by (auto simp: event_true_def list_ex_length)

text \<open>
  A pipeline in memory is \<open>current\<close> if the spec it has is the one stored, or the
  stored version is another, so that a write will be refused. \<open>as_read q p\<close>:
  \<open>p\<close> is \<open>q\<close> but for the status.
\<close>

definition current :: "(NamespacedName \<Rightarrow> AgentPipeline option) \<Rightarrow> AgentPipeline \<Rightarrow> bool" where
  "current m q \<longleftrightarrow> (case m (p_key q) of None \<Rightarrow> True
     | Some p \<Rightarrow> om_ResourceVersion (ap_Meta p) = om_ResourceVersion (ap_Meta q) \<longrightarrow> ap_Spec p = ap_Spec q)"

definition as_read :: "AgentPipeline \<Rightarrow> AgentPipeline \<Rightarrow> bool" where
  "as_read q p \<longleftrightarrow> ap_Meta p = ap_Meta q \<and> ap_Spec p = ap_Spec q"

lemma as_read_simps [simp]:
  "as_read q q" "as_read q (set_status f p) = as_read q p" "as_read q (set_stage i g p) = as_read q p"
  "as_read q (InitStageStatuses p) = as_read q p"
  by (simp_all add: as_read_def InitStageStatuses_def)

lemma snapshot_current: "snapshot m k p \<Longrightarrow> current m p"
  by (auto simp: snapshot_def current_def split: option.splits)

context k8s_cluster
begin

text \<open>A method that ends in a status update and then an event.\<close>

lemma announces:
  assumes "(case do_StatusUpdate R w p of (Inl e, v) \<Rightarrow> (f e, v) | (Inr y, v) \<Rightarrow> (g, Recorder_Event v ty reason msg)) = (x, w')"
    and cur: "current (stored (w_cluster w)) q" and p: "as_read q p"
    and tr: "\<And>p'. ap_Status p' = ap_Status p \<Longrightarrow> ap_Spec p' = ap_Spec q \<Longrightarrow> p_name p' = p_name q \<Longrightarrow>
      event_true tbl \<lparr>ev_Type = ty, ev_Reason = reason, ev_Message = msg\<rparr> p'"
  shows "tells tbl (stored (w_cluster w')) q (w_events w) (w_events w')"
proof -
  obtain y c where y: "client_StatusUpdate R (w_cluster w) p = (y, c)" by fastforce
  have k: "p_key p = p_key q" using p by (simp add: as_read_def p_key_def)
  show ?thesis
  proof (cases y)
    case (Inl e)
    then show ?thesis using assms(1) y by (auto simp: do_StatusUpdate_def)
  next
    case (Inr z)
    from StatusUpdate_ok [OF y [unfolded Inr]] obtain r where r: "stored (w_cluster w) (p_key q) = Some r"
      "om_ResourceVersion (ap_Meta r) = om_ResourceVersion (ap_Meta q)" and z: "p_key z = p_key q" "ap_Spec z = ap_Spec r"
      "ap_Status z = ap_Status p" "stored c (p_key q) = Some z"
      using p k by (auto simp: as_read_def)
    have "ap_Spec z = ap_Spec q" using cur r z(2) by (simp add: current_def)
    moreover have "p_name z = p_name q" using z(1) by (simp add: p_key_def)
    moreover have "w' = Recorder_Event (w\<lparr>w_cluster := c\<rparr>) ty reason msg" using assms(1) y Inr by (simp add: do_StatusUpdate_def)
    ultimately show ?thesis using z tr by (auto simp: tells_def Recorder_Event_def)
  qed
qed

lemma completePipeline_tells:
  assumes "completePipeline R w q = (x, w')" and "current (stored (w_cluster w)) q" and "list_all stage_done (p_statuses q)"
  shows "tells tbl (stored (w_cluster w')) q (w_events w) (w_events w')"
  using announces [OF assms(1) [unfolded completePipeline_def metav1_Now_def set_ready_eq Let_def prod.case], of q tbl] assms(2,3)
  by (simp add: event_true_def)

lemma failPipeline_tells:
  assumes "failPipeline R w q reason = (x, w')" and "current (stored (w_cluster w)) q"
  shows "tells tbl (stored (w_cluster w')) q (w_events w) (w_events w')"
  using announces [OF assms(1) [unfolded failPipeline_def metav1_Now_def set_ready_eq Let_def prod.case], of q tbl] assms(2)
  by (simp add: event_true_def sets_ready_is [OF sets_ready_set])

lemma handlePending_tells:
  assumes "handlePending R w q = (x, w')" and "current (stored (w_cluster w)) q"
  shows "tells tbl (stored (w_cluster w')) q (w_events w) (w_events w')"
proof -
  consider (add) "\<not> ctl_ContainsFinalizer R q finalizerName" | (none) "ctl_ContainsFinalizer R q finalizerName" "p_stages q = []"
    | (start) "ctl_ContainsFinalizer R q finalizerName" "p_stages q \<noteq> []" by blast
  then show ?thesis
  proof cases
    case add
    then have "w_events w' = w_events w"
      using assms(1) by (auto simp: handlePending_def do_Update_def split: prod.splits sum.splits)
    then show ?thesis by simp
  next
    case none
    then show ?thesis using assms failPipeline_tells by (simp add: handlePending_def)
  next
    case start
    then have "(\<not> ctl_ContainsFinalizer R q finalizerName) = False" "(length (p_stages q) = 0) = False" by simp_all
    note eq = assms(1) [unfolded handlePending_def metav1_Now_def set_ready_eq Let_def prod.case this if_False]
    show ?thesis
      using announces [OF eq, of q tbl] assms(2) by (simp add: event_true_def list_all_iff)
  qed
qed

text \<open>The methods for stage \<open>i\<close> of the pipeline that was read as \<open>q\<close> and is in memory as \<open>p\<close>.\<close>

lemma failStage_tells:
  assumes "failStage R w p i m = (x, w')" and "current (stored (w_cluster w)) q" and "as_read q p"
    and "i < length (p_statuses p)" "i < length (p_stages q)"
  shows "tells (print_table R) (stored (w_cluster w')) q (w_events w) (w_events w')"
proof -
  note eq = assms(1) [unfolded failStage_def metav1_Now_def Let_def prod.case]
  show ?thesis
    using announces [OF eq, of q "print_table R"] assms(2-5)
    by (simp add: event_true_stage [of i] stage_event_def)
qed

lemma completeStageFromOutput_tells:
  assumes "completeStageFromOutput R w q (p_stages q ! i) i out = (x, w')" and "current (stored (w_cluster w)) q"
    and "i < length (p_statuses q)" "i < length (p_stages q)"
  shows "tells (print_table R) (stored (w_cluster w')) q (w_events w) (w_events w')"
proof -
  note eq = assms(1) [unfolded completeStageFromOutput_def metav1_Now_def Let_def prod.case]
  show ?thesis
    using announces [OF eq, of q "print_table R"] assms(2-4)
    by (simp add: event_true_stage [of i] stage_event_def)
qed

lemma retryStage_tells:
  assumes "retryStage R w q (p_stages q ! i) i (GetEffectiveRetryPolicy q (p_stages q ! i)) = (x, w')"
    and "current (stored (w_cluster w)) q" and "i < length (p_statuses q)" "i < length (p_stages q)"
  shows "tells (print_table R) (stored (w_cluster w')) q (w_events w) (w_events w')"
proof -
  note eq = assms(1) [unfolded retryStage_def Let_def]
  show ?thesis
  proof (rule announces [OF eq assms(2)], goal_cases)
    case (2 p')
    then have "GetEffectiveRetryPolicy p' stage = GetEffectiveRetryPolicy q stage" for stage
      by (simp add: GetEffectiveRetryPolicy_def split: option.split)
    then show ?case using 2 assms(3,4) by (simp add: event_true_stage [of i] stage_event_def)
  qed simp
qed

lemma completeStage_tells:
  assumes "completeStage R w p (p_stages q ! i) i res = (x, w')" and "current (stored (w_cluster w)) q" and "as_read q p"
    and "i < length (p_statuses p)" "i < length (p_stages q)"
  shows "tells (print_table R) (stored (w_cluster w')) q (w_events w) (w_events w')"
proof -
  obtain y v where y: "StoreOutput R w p (sp_Name (p_stages q ! i)) (res_Output res) = (y, v)" by fastforce
  then have v: "w_events v = w_events w" by (auto dest: StoreOutput_same_run simp: same_run_def)
  show ?thesis
  proof (cases y)
    case (Inl e)
    then have "w' = v" using assms(1) y by (simp add: completeStage_def Let_def)
    then show ?thesis using v by simp
  next
    case (Inr nt)
    then obtain n t where nt: "y = Inr (n, t)" by (cases nt) auto
    have n: "n = outputConfigMapName (p_name q) (sp_Name (p_stages q ! i))"
      using StoreOutput_Inr(1) [OF y [unfolded nt]] assms(3) by (simp add: as_read_def)
    have cur: "current (stored (w_cluster v)) q" using assms(2) StoreOutput_keeps_pipelines [OF y] by simp
    note eq = assms(1) [unfolded completeStage_def y nt metav1_Now_def Let_def prod.case sum.case]
    have dur: "\<exists>d'. Duration_String (Duration_Round d Second) = Duration_String (Duration_Round d' Second)" for d by blast
    show ?thesis
      using announces [OF eq, of q "print_table R"] cur assms(3-5) v n
      by (simp add: event_true_stage [of i] stage_event_def dur)
  qed
qed

lemma finish_run_tells:
  assumes "finish_run R w p (p_stages q ! i) i y = (x, w')" and "current (stored (w_cluster w)) q" and "as_read q p"
    and "i < length (p_statuses p)" "i < length (p_stages q)"
  shows "tells (print_table R) (stored (w_cluster w')) q (w_events w) (w_events w')"
  using assms(1) completeStage_tells [OF _ assms(2-5)] failStage_tells [OF _ assms(2-5)]
  by (auto simp: finish_run_def split: sum.splits if_splits)

lemma startStage_tells:
  assumes "startStage R w q (p_stages q ! i) i = (x, w')" and cur: "current (stored (w_cluster w)) q"
    and len: "i < length (p_statuses q)" "i < length (p_stages q)"
    and at: "FindCurrentStage q = Inr (Some (p_stages q ! i, i))" "st_Phase (cur_status q i) = StagePending"
  shows "tells (print_table R) (stored (w_cluster w')) q (w_events w) (w_events w')"
proof -
  let ?stage = "p_stages q ! i"
  obtain y v where y: "readConfigMapOutput R w (p_ns q) (outputConfigMapName (p_name q) (sp_Name ?stage)) = (y, v)"
    by fastforce
  then have v: "w_events v = w_events w" "stored (w_cluster v) = stored (w_cluster w)"
    using readConfigMapOutput_cases(1) by (auto dest: readConfigMapOutput_same_run simp: same_run_def)
  show ?thesis
  proof (cases y)
    case (Inr out)
    then show ?thesis
      using assms y v completeStageFromOutput_tells [of v q i out x w'] by (simp add: startStage_def)
  next
    case (Inl err)
    define p where "p = running_at q ?stage i (wall_clock R (w_clock v))"
    have p: "as_read q p" "i < length (p_statuses p)" using len by (simp_all add: p_def)
    define msg where "msg = ''Stage '' @ quote (print_table R) (sp_Name ?stage) @ '' started (agent: '' @ ref_Name (sp_AgentRef ?stage) @ '')''"
    define u where "u = Recorder_Event (v\<lparr>w_clock := Suc (w_clock v)\<rparr>) EventTypeNormal ''StageStarted'' msg"
    let ?e = "\<lparr>ev_Type = EventTypeNormal, ev_Reason = ''StageStarted'', ev_Message = msg\<rparr>"
    obtain z t where z: "BuildPipelineContext R u p ?stage = (z, t)" by fastforce
    have t: "w_events t = w_events w @ [?e]"
      using BuildPipelineContext_same_run [OF z] v by (simp add: same_run_def u_def Recorder_Event_def)
    have ct: "current (stored (w_cluster t)) q" using BuildPipelineContext_keeps [OF z] v cur by (simp add: u_def)
    have ag: "do_RunAgent R t req = (r, t') \<Longrightarrow> w_events t' = w_events t \<and> current (stored (w_cluster t')) q" for req r t'
      using ct by (auto simp: do_RunAgent_def split: prod.splits)
    have "(case z of Inl err \<Rightarrow> failStage R t p i (''building pipeline context: '' @ error_text err)
        | Inr ctx \<Rightarrow> (case RenderPrompt R ?stage ctx of
            Inl err \<Rightarrow> failStage R t p i (''rendering prompt: '' @ error_text err)
          | Inr prompt \<Rightarrow> (case do_RunAgent R t (run_request p ?stage prompt) of (r, t) \<Rightarrow> finish_run R t p ?stage i r))) = (x, w')"
      using assms(1) y z unfolding Inl startStage_def metav1_Now_def u_def msg_def p_def
      by (simp add: Let_def split: sum.splits)
    then have "tells (print_table R) (stored (w_cluster w')) q (w_events t) (w_events w')"
      using failStage_tells [OF _ ct p len(2)] finish_run_tells [OF _ _ p len(2)] ag
      by (auto split: sum.splits prod.splits) (metis)
    then show ?thesis unfolding t by (rule tells_started [rotated]) (simp add: event_started_def at msg_def)
  qed
qed

lemma handleRunning_tells:
  assumes "handleRunning R w q = (x, w')" and cur: "current (stored (w_cluster w)) q"
  shows "tells (print_table R) (stored (w_cluster w')) q (w_events w) (w_events w')"
proof (cases "FindCurrentStage q")
  case (Inl e)
  then show ?thesis using assms by (simp add: handleRunning_def)
next
  case (Inr c)
  show ?thesis
  proof (cases c)
    case None
    then have "list_all stage_done (p_statuses q)" using Inr by (simp add: FindCurrentStage_None_iff)
    then show ?thesis
      using completePipeline_tells [of w q x w'] assms None Inr by (simp add: handleRunning_def)
  next
    case (Some si)
    then obtain stage i where c: "FindCurrentStage q = Inr (Some (stage, i))" using Inr by (cases si) simp
    note i = FindCurrentStage_SomeD(1,2) [OF c] and st = FindCurrentStage_SomeD(3) [OF c]
    show ?thesis
      using assms(1) c [unfolded st] startStage_tells [OF _ cur i] retryStage_tells [OF _ cur i] failPipeline_tells [OF _ cur]
      by (auto simp: handleRunning_def Let_def split: if_splits)
  qed
qed

lemma Reconcile_tells:
  assumes "Reconcile R w k = (x, w')"
  shows "w_events w' = w_events w \<or> (\<exists>q c. client_Get R (w_cluster w) k = (Inr q, c) \<and> p_key q = k \<and>
    tells (print_table R) (stored (w_cluster w')) q (w_events w) (w_events w'))"
proof -
  obtain y c where y: "client_Get R (w_cluster w) k = (y, c)" by fastforce
  let ?v = "w\<lparr>w_cluster := c\<rparr>"
  have g: "do_Get R w k = (y, ?v)" using y by (simp add: do_Get_def)
  show ?thesis
  proof (cases y)
    case (Inl e)
    then show ?thesis using assms g by (auto simp: Reconcile_def split: if_splits)
  next
    case (Inr p)
    have sn: "snapshot (stored (w_cluster w)) k p" using Get_found y Inr by simp
    then have key: "p_key p = k" by (rule snapshot_key)
    have cur: "current (stored (w_cluster ?v)) p" using snapshot_current [OF sn] Get_frame [OF y] by simp
    consider (del) "handleDeletion R ?v p = (x, w')" | (pend) "handlePending R ?v p = (x, w')"
      | (run) "handleRunning R ?v p = (x, w')" | (rest) "w' = ?v"
      using assms g Inr by (auto simp: Reconcile_def split: if_splits)
    then show ?thesis
    proof cases
      case del
      then have "w_events w' = w_events w"
        by (auto simp: handleDeletion_def do_Update_def split: if_splits prod.splits sum.splits)
      then show ?thesis by simp
    next
      case pend
      then show ?thesis using handlePending_tells [OF pend cur, of "print_table R"] y Inr key by simp
    next
      case run
      then show ?thesis using handleRunning_tells [OF run cur] y Inr key by simp
    next
      case rest
      then show ?thesis by simp
    qed
  qed
qed

end

text \<open>
  C25. Events are true: whatever the API server and the agent answer, each event that a pass
  records is true, with its whole message but for the duration of a run. It says of the pipeline
  that the API server stores after the pass what is the case: phase, \<open>Ready\<close> message
  and number of stages, and for the stage it names the phase, output, error and retry count; or it
  says that the stage to work on, in the pipeline as the pass read it, was started with its agent.
\<close>

theorem events_are_true:
  assumes "k8s_cluster R stored stored_cm" and "Reconcile R w k = (x, w')"
  shows "\<exists>es. w_events w' = w_events w @ es \<and>
    (\<forall>e\<in>set es. (\<exists>q c. client_Get R (w_cluster w) k = (Inr q, c) \<and> event_started (print_table R) q e) \<or>
      (\<exists>p. stored (w_cluster w') k = Some p \<and> event_true (print_table R) e p))"
  using k8s_cluster.Reconcile_tells [OF assms] by (auto simp: tells_def)

theorem events_are_true_witness:
  "let w' = snd (Reconcile (mem_env 100 (flaky_run 1)) (demo_world half_cluster 0) demo_key)
   in map ev_Reason (w_events w') = [''StageStarted'', ''StageFailed''] \<and>
     (\<exists>p. mem_pipes (w_cluster w') demo_key = Some p \<and> event_true (\<lambda>_. True) (last (w_events w')) p)"
proof -
  let ?r = "Reconcile (mem_env 100 (flaky_run 1)) (demo_world half_cluster 0) demo_key"
  have ev: "map ev_Reason (w_events (snd ?r)) = [''StageStarted'', ''StageFailed'']" by code_simp
  then have l: "last (w_events (snd ?r)) \<in> set (w_events (snd ?r))" "ev_Reason (last (w_events (snd ?r))) = ''StageFailed''"
    by (auto simp: map_eq_Cons_conv)
  have "w_events (demo_world half_cluster (0::nat)) = []" "print_table (mem_env 100 (flaky_run 1)) = (\<lambda>_. True)"
    by (simp_all add: demo_world_def mem_env_def)
  then show ?thesis
    using ev l events_are_true [OF mem_cluster prod.collapse [symmetric], of 100 "flaky_run 1" "demo_world half_cluster 0" demo_key]
    by (auto simp: Let_def event_started_def)
qed

section \<open>Runners\<close>

text \<open>The runner after a list of requests, and a world that differs by such calls; a \<open>pass_relation\<close>.\<close>

definition runner_after :: "('c,'r) recon \<Rightarrow> 'r \<Rightarrow> RunRequest list \<Rightarrow> 'r" where
  "runner_after R r reqs = fold (\<lambda>q r. snd (Runner_RunAgent R r q)) reqs r"

definition calls_only :: "('c,'r) recon \<Rightarrow> ('c,'r) world \<Rightarrow> ('c,'r) world \<Rightarrow> bool" where
  "calls_only R w w' \<longleftrightarrow> (\<exists>reqs. w_calls w' = w_calls w @ reqs \<and> w_runner w' = runner_after R (w_runner w) reqs)"

lemma calls_only_same: "w_calls w' = w_calls w \<Longrightarrow> w_runner w' = w_runner w \<Longrightarrow> calls_only R w w'"
  by (simp add: calls_only_def runner_after_def)

lemma calls_only_trans: "calls_only R u v \<Longrightarrow> calls_only R v w \<Longrightarrow> calls_only R u w"
  by (auto simp: calls_only_def runner_after_def)

lemma do_RunAgent_calls: "calls_only R w (snd (do_RunAgent R w req))"
  unfolding calls_only_def runner_after_def
  by (rule exI [of _ "[req]"]) (simp add: do_RunAgent_def case_prod_beta)

interpretation run: pass_relation R "calls_only R" for R :: "('c,'r) recon"
proof (unfold_locales, goal_cases)
  case (2 u v w)
  then show ?case by (rule calls_only_trans)
next
  case (8 w req)
  then show ?case by (rule do_RunAgent_calls)
qed (rule calls_only_same; simp add: do_Get_def do_GetConfigMap_def do_Update_def do_StatusUpdate_def do_CreateOrUpdate_def case_prod_beta)+

text \<open>
  C40. The mock sees every call: with the mock as runner, whichever pipelines are reconciled and
  whatever the API server answers, \<open>Calls\<close> grows by exactly the requests that the
  operator made, in their order, and nothing else of the mock changes. So an assertion on
  \<open>Calls\<close> is one on the operator.
\<close>

theorem mock_sees_all_calls:
  assumes "Runner_RunAgent R = (\<lambda>m req. MockRunner_RunAgent tbl (cancelled m req) m req)"
  shows "\<exists>reqs. w_calls (passes R w ks) = w_calls w @ reqs \<and>
    w_runner (passes R w ks) = (w_runner w)\<lparr>mock_Calls := mock_Calls (w_runner w) @ reqs\<rparr>"
proof -
  have "runner_after R m reqs = m\<lparr>mock_Calls := mock_Calls m @ reqs\<rparr>" for m reqs
  proof (induction reqs arbitrary: m)
    case (Cons q reqs)
    have "snd (Runner_RunAgent R m q) = m\<lparr>mock_Calls := mock_Calls m @ [q]\<rparr>"
      by (simp add: assms MockRunner_RunAgent_def Let_def split: option.splits)
    then show ?case using Cons by (simp add: runner_after_def)
  qed (simp add: runner_after_def)
  then show ?thesis using run.passes [of R w ks] by (simp add: calls_only_def)
qed

definition demo_mock :: MockRunner where
  "demo_mock = NewMockRunner [(''scan-agent'', \<lparr>mr_Output = [], mr_Status = RunStatusFailed, mr_Error = ''boom'', mr_Duration = 0\<rparr>)]"

theorem mock_sees_all_calls_witness:
  "let R = mem_env 100 (MockRunner_RunAgent (\<lambda>_. True) False);
       w' = passes R (demo_world (demo_cluster two_stages) demo_mock) [demo_key, demo_key, demo_key]
   in w_calls w' = mock_Calls (w_runner w') \<and> map req_AgentName (w_calls w') = [''scan-agent'']"
proof -
  let ?R = "mem_env 100 (MockRunner_RunAgent (\<lambda>_. True) False)"
  let ?w = "demo_world (demo_cluster two_stages) demo_mock"
  have "Runner_RunAgent ?R = (\<lambda>m req. MockRunner_RunAgent (\<lambda>_. True) ((\<lambda>_ _. False) m req) m req)" by (simp add: mem_env_def)
  from mock_sees_all_calls [OF this, of ?w "[demo_key, demo_key, demo_key]"]
  have "w_calls (passes ?R ?w [demo_key, demo_key, demo_key]) =
      mock_Calls (w_runner (passes ?R ?w [demo_key, demo_key, demo_key]))"
    by (auto simp del: passes.simps simp: demo_world_def demo_mock_def NewMockRunner_def)
  moreover have "map req_AgentName (w_calls (passes ?R ?w [demo_key, demo_key, demo_key])) = [''scan-agent'']"
    by code_simp
  ultimately show ?thesis unfolding Let_def by (rule conjI)
qed

end
