(* ===== verification/Schema_Limits.thy ===== *)
theory Schema_Limits
  imports Output_Integrity Agent_Calls
begin

text \<open>
  The operator against the validation of the API server (\<open>Api_Schema\<close>): what it
  writes passes the schema, and what becomes of a pipeline when it does not, because a failure
  message is longer than a condition may be, or a name is longer than a label may be. The theory
  ends with the defaults of the schema, which are those of the operator.
\<close>

section \<open>Valid statuses\<close>

lemma unreportable_next: "unreportable tbl p \<Longrightarrow> next_phase p = PhaseFailed"
  by (auto simp: unreportable_def next_phase_def fresh_def split: sum.splits option.splits)

context k8s_cluster
begin

lemma Reconcile_keeps_valid:
  assumes "Reconcile R w k = (x, w')"
    and "stored (w_cluster w) j = Some p" and "valid_AgentPipelineStatus (ap_Status p)" and "0 \<le> om_Generation (ap_Meta p)"
    and "valid_AgentPipelineSpec (ap_Spec p)"
    and "stored (w_cluster w') j = Some p'"
  shows "valid_AgentPipelineStatus (ap_Status p') \<or> unreportable tbl p \<and> p_phase p' = PhaseFailed"
  using assms(1)
proof (cases rule: Reconcile_stored)
  case same
  then show ?thesis using assms(2,3,6) by simp
next
  case (step q q' s)
  show ?thesis
  proof (cases "j = k")
    case True
    then have q: "q = p" "q' = p'" using step assms(2,6) by simp_all
    show ?thesis
    proof (cases "unreportable tbl p")
      case True
      then have "next_phase p = PhaseFailed" by (rule unreportable_next)
      then show ?thesis using True status_step_phase [OF step(4)] step(5) q by (simp add: carries_def)
    next
      case False
      then show ?thesis using status_step_valid [OF _ assms(3-5) False] step(4,5) q by (simp add: carries_def)
    qed
  qed (use step assms(2,3,6) in simp)
next
  case (finalizer q)
  then show ?thesis using assms(2,3,6) by (cases "j = k") (auto simp: adds_finalizer_def)
next
  case (deletion q)
  then show ?thesis using assms(2,3,6) removes_finalizer_other [OF deletion(4), of j]
    by (cases "j = k") (auto elim: removes_finalizerE)
qed

end

section \<open>A failure that cannot be reported\<close>

lemma find_Some_set: "find P xs = Some x \<Longrightarrow> x \<in> set xs"
  by (auto simp: find_Some_iff)

context k8s_strict
begin

lemma failPipeline_refused:
  assumes "failPipeline R w q reason = (x, w')" and up: "up (w_cluster w)" and "\<not> message_fits reason"
  shows "\<exists>e. x = Ret no_requeue (Some e)" "stored (w_cluster w') = stored (w_cluster w)" "up (w_cluster w')"
    "w_calls w' = w_calls w" "w_events w' = w_events w"
proof -
  define n where "n = \<lparr>cond_Type = ''Ready'', cond_Status = ''False'', cond_ObservedGeneration = om_Generation (ap_Meta q),
         cond_LastTransitionTime = 0, cond_Reason = ''PipelineFailed'', cond_Message = reason\<rparr>"
  define q' where "q' = set_status (\<lambda>s. s\<lparr>sts_Conditions := meta_SetStatusCondition R (wall_clock R (Suc (w_clock w))) (sts_Conditions s) n\<rparr>)
     (set_status (\<lambda>s. s\<lparr>sts_Phase := PhaseFailed, sts_CompletedAt := Some (wall_clock R (w_clock w))\<rparr>) q)"
  obtain z where "z \<in> set (sts_Conditions (ap_Status q'))" "cond_Message z = reason"
    using SetStatusCondition [of n "wall_clock R (Suc (w_clock w))" "sts_Conditions (ap_Status q)"]
    by (auto simp: q'_def n_def dest!: find_Some_set)
  then have "\<not> valid_AgentPipelineStatus (ap_Status q')"
    using assms(3) by (auto simp: valid_AgentPipelineStatus_def valid_Condition_def list_all_iff)
  then obtain e c where c: "client_StatusUpdate R (w_cluster w) q' = (Inl e, c)" using invalid_status_refused [OF up] by blast
  have eq: "x = ret_err ''updating pipeline to Failed'' e" "w' = w\<lparr>w_clock := Suc (Suc (w_clock w)), w_cluster := c\<rparr>"
    using assms(1) c by (simp_all add: failPipeline_def metav1_Now_def set_ready_eq Let_def do_StatusUpdate_def q'_def n_def)
  then show "\<exists>e. x = Ret no_requeue (Some e)" "w_calls w' = w_calls w" "w_events w' = w_events w"
    by (simp_all add: ret_err_def)
  show "stored (w_cluster w') = stored (w_cluster w)" using eq StatusUpdate_err [OF c] by simp
  show "up (w_cluster w')" using eq up_StatusUpdate_kept [OF up c] by simp
qed

lemma Reconcile_refused:
  assumes "Reconcile R w k = (x, w')" and up: "up (w_cluster w)" and st: "stored (w_cluster w) k = Some p"
    and al: "alive p" and un: "unreportable (print_table R) p"
  shows "(\<exists>e. x = Ret no_requeue (Some e)) \<and> stored (w_cluster w') = stored (w_cluster w) \<and> up (w_cluster w') \<and>
    w_calls w' = w_calls w \<and> w_events w' = w_events w"
proof -
  obtain v where v: "do_Get R w k = (Inr p, v)" "up (w_cluster v)" "stored (w_cluster v) = stored (w_cluster w)"
    "stored_cm (w_cluster v) = stored_cm (w_cluster w)" "same_run w v" by (rule Get_up [OF up st])
  obtain stage i where no: "\<not> message_fits (failure_text (print_table R) stage (cur_status p i))"
    and eq: "failPipeline R v p (failure_text (print_table R) stage (cur_status p i)) = (x, w')"
    using unreportable_Reconcile [OF un al v(1)] assms(1) by metis
  from failPipeline_refused [OF eq v(2) no] show ?thesis using v(3,5) by (simp add: same_run_def)
qed

lemma passes_refused:
  assumes "alive p" and "unreportable (print_table R) p"
  shows "up (w_cluster w) \<Longrightarrow> stored (w_cluster w) k = Some p \<Longrightarrow>
    up (w_cluster (passes R w (replicate n k))) \<and> stored (w_cluster (passes R w (replicate n k))) = stored (w_cluster w) \<and>
    w_calls (passes R w (replicate n k)) = w_calls w \<and> w_events (passes R w (replicate n k)) = w_events w"
proof (induction n arbitrary: w)
  case (Suc n)
  obtain x v where v: "Reconcile R w k = (x, v)" by fastforce
  note r = Reconcile_refused [OF v Suc.prems assms]
  then show ?case using Suc.IH [of v] Suc.prems v by simp
qed simp

end

section \<open>Defaults\<close>

definition with_defaults :: "AgentPipeline \<Rightarrow> AgentPipeline" where
  "with_defaults p = p\<lparr>ap_Spec := default_AgentPipelineSpec (ap_Spec p)\<rparr>"

lemma with_defaults_view [simp]:
  "ap_Meta (with_defaults p) = ap_Meta p" "ap_Status (with_defaults p) = ap_Status p"
  "p_stages (with_defaults p) = map default_StageSpec (p_stages p)"
  "spec_RetryPolicy (ap_Spec (with_defaults p)) = map_option default_RetryPolicy (spec_RetryPolicy (ap_Spec p))"
  by (simp_all add: with_defaults_def default_AgentPipelineSpec_def)

lemma default_StageSpec_view [simp]:
  "sp_Name (default_StageSpec st) = sp_Name st" "sp_DependsOn (default_StageSpec st) = sp_DependsOn st"
  "sp_AgentRef (default_StageSpec st) = sp_AgentRef st" "sp_Prompt (default_StageSpec st) = sp_Prompt st"
  "sp_Inputs (default_StageSpec st) = sp_Inputs st"
  "sp_Timeout (default_StageSpec st) = Some (case sp_Timeout st of None \<Rightarrow> 5 * Minute | Some d \<Rightarrow> d)"
  "sp_RetryPolicy (default_StageSpec st) = map_option default_RetryPolicy (sp_RetryPolicy st)"
  by (simp_all add: default_StageSpec_def)

lemma default_RetryPolicy_view [simp]:
  "rp_MaxRetries (default_RetryPolicy rp) = rp_MaxRetries rp"
  "rp_Backoff (default_RetryPolicy rp) = Some (case rp_Backoff rp of None \<Rightarrow> 30 * Second | Some d \<Rightarrow> d)"
  by (simp_all add: default_RetryPolicy_def)

lemma with_defaults_retries: "max_retries (with_defaults p) (default_StageSpec st) = max_retries p st"
  by (simp add: max_retries_def GetEffectiveRetryPolicy_def split: option.split)

lemma set_status_defaults: "set_status f (with_defaults p) = with_defaults (set_status f p)"
  by (simp add: with_defaults_def set_status_def)

lemma set_stage_defaults: "set_stage i f (with_defaults p) = with_defaults (set_stage i f p)"
  by (simp add: set_stage_def set_status_defaults)

lemma InitStageStatuses_defaults: "InitStageStatuses (with_defaults p) = with_defaults (InitStageStatuses p)"
  by (simp add: InitStageStatuses_def set_status_defaults comp_def)

lemma FindCurrentStage_defaults:
  "FindCurrentStage (with_defaults p) = map_sum id (map_option (\<lambda>(st, i). (default_StageSpec st, i))) (FindCurrentStage p)"
proof -
  have "find_current_loop (map default_StageSpec specs) i xs =
      map_sum id (map_option (\<lambda>(st, i). (default_StageSpec st, i))) (find_current_loop specs i xs)" for specs i xs
    by (induction xs arbitrary: i) simp_all
  then show ?thesis by (simp add: FindCurrentStage_def)
qed

lemma build_context_loop_defaults:
  "build_context_loop R w (with_defaults p) (default_StageSpec cur) i xs pc = build_context_loop R w p cur i xs pc"
  by (induction xs arbitrary: w i pc) (auto simp: Let_def split: prod.split sum.split)

lemma BuildPipelineContext_defaults:
  "BuildPipelineContext R w (with_defaults p) (default_StageSpec cur) = BuildPipelineContext R w p cur"
  by (simp add: BuildPipelineContext_def build_context_loop_defaults)

lemma RenderPrompt_defaults: "RenderPrompt R (default_StageSpec st) pc = RenderPrompt R st pc"
  by (simp add: RenderPrompt_def Let_def split: tmpl_outcome.split)

lemma run_request_defaults: "run_request (with_defaults p) (default_StageSpec st) prompt = run_request p st prompt"
  by (simp add: run_request_def)

lemmas defaults_simps = set_status_defaults set_stage_defaults InitStageStatuses_defaults FindCurrentStage_defaults
  BuildPipelineContext_defaults RenderPrompt_defaults run_request_defaults

text \<open>
  The status subresource: an update of the status ignores the spec it is sent. An owner
  reference is made from the metadata of the owner.
\<close>

locale status_subresource =
  fixes R :: "('c, 'r) AgentPipelineReconciler"
  assumes StatusUpdate_spec: "client_StatusUpdate R c (p\<lparr>ap_Spec := s\<rparr>) = client_StatusUpdate R c p"
    and SetControllerReference_spec: "ctl_SetControllerReference R (p\<lparr>ap_Spec := s\<rparr>) cm = ctl_SetControllerReference R p cm"
begin

lemma do_StatusUpdate_defaults: "do_StatusUpdate R w (with_defaults p) = do_StatusUpdate R w p"
  by (simp add: do_StatusUpdate_def with_defaults_def StatusUpdate_spec)

lemma StoreOutput_defaults: "StoreOutput R w (with_defaults p) n out = StoreOutput R w p n out"
proof -
  have "ctl_SetControllerReference R (with_defaults p) cm = ctl_SetControllerReference R p cm" for cm
    by (simp add: with_defaults_def SetControllerReference_spec)
  then show ?thesis by (simp add: StoreOutput_def output_config_map_def)
qed

lemma pipeline_end_defaults:
  "completePipeline R w (with_defaults p) = completePipeline R w p"
  "failPipeline R w (with_defaults p) m = failPipeline R w p m"
  by (simp_all add: completePipeline_def failPipeline_def metav1_Now_def set_ready_def defaults_simps do_StatusUpdate_defaults Let_def
      cong del: prod.case_cong_weak sum.case_cong_weak option.case_cong_weak)

lemma stage_end_defaults:
  "failStage R w (with_defaults p) i m = failStage R w p i m"
  "completeStage R w (with_defaults p) (default_StageSpec st) i res = completeStage R w p st i res"
  "completeStageFromOutput R w (with_defaults p) (default_StageSpec st) i out = completeStageFromOutput R w p st i out"
  by (simp_all add: failStage_def completeStage_def completeStageFromOutput_def metav1_Now_def defaults_simps
      do_StatusUpdate_defaults StoreOutput_defaults Let_def
      cong del: prod.case_cong_weak sum.case_cong_weak option.case_cong_weak)

lemma effective_policy_defaults:
  "rp_MaxRetries (GetEffectiveRetryPolicy (with_defaults p) (default_StageSpec st)) = rp_MaxRetries (GetEffectiveRetryPolicy p st)"
  "(case rp_Backoff (GetEffectiveRetryPolicy (with_defaults p) (default_StageSpec st)) of None \<Rightarrow> 30 * Second | Some d \<Rightarrow> d) =
     (case rp_Backoff (GetEffectiveRetryPolicy p st) of None \<Rightarrow> 30 * Second | Some d \<Rightarrow> d)"
  by (simp_all add: GetEffectiveRetryPolicy_def split: option.split)

lemma retryStage_defaults:
  "retryStage R w (with_defaults p) (default_StageSpec st) i (GetEffectiveRetryPolicy (with_defaults p) (default_StageSpec st))
     = retryStage R w p st i (GetEffectiveRetryPolicy p st)"
  by (simp add: retryStage_def defaults_simps do_StatusUpdate_defaults effective_policy_defaults Let_def
      cong del: prod.case_cong_weak sum.case_cong_weak option.case_cong_weak)

lemma finish_run_defaults: "finish_run R w (with_defaults p) (default_StageSpec st) i x = finish_run R w p st i x"
  by (cases x) (simp_all add: finish_run_def stage_end_defaults)

lemma startStage_defaults:
  "startStage R w (with_defaults p) (default_StageSpec st) i = startStage R w p st i"
  by (simp add: startStage_def metav1_Now_def defaults_simps stage_end_defaults finish_run_defaults Let_def
      cong del: prod.case_cong_weak sum.case_cong_weak option.case_cong_weak)

lemma handleRunning_defaults: "handleRunning R w (with_defaults p) = handleRunning R w p"
  by (simp add: handleRunning_def defaults_simps pipeline_end_defaults startStage_defaults retryStage_defaults AreDependenciesMet_def
      effective_policy_defaults Let_def split: sum.split option.split)

end

interpretation mem_status: status_subresource "mem_env limit run"
  for limit and run :: "'r \<Rightarrow> RunRequest \<Rightarrow> (goerror + RunResult) \<times> 'r"
  by unfold_locales (simp_all add: mem_env_def mem_StatusUpdate_def mem_SetControllerReference_def p_key_def
      split: prod.split option.split)

section \<open>Properties\<close>

text \<open>
  C9. A pass that finds an admitted spec and a status valid for the schema leaves a status that is
  valid for the schema, even if the API server does not check it, with one exception: a
  pipeline that fails with a message too long for a condition.
\<close>

theorem stored_statuses_stay_valid:
  assumes "k8s_cluster R stored stored_cm" and "Reconcile R w k = (x, w')"
    and "stored (w_cluster w) j = Some p" and "valid_AgentPipelineStatus (ap_Status p)" and "0 \<le> om_Generation (ap_Meta p)"
    and "valid_AgentPipelineSpec (ap_Spec p)" and "stored (w_cluster w') j = Some p'"
  shows "valid_AgentPipelineStatus (ap_Status p') \<or> unreportable (print_table R) p \<and> p_phase p' = PhaseFailed"
  by (rule k8s_cluster.Reconcile_keeps_valid [OF assms])

theorem stored_statuses_stay_valid_witness:
  "\<exists>p'. mem_pipes (w_cluster (snd (Reconcile (mem_env 100 (flaky_run 0)) (demo_world half_cluster 0) demo_key))) demo_key = Some p' \<and>
     valid_AgentPipelineStatus (ap_Status p')"
proof -
  let ?r = "Reconcile (mem_env 100 (flaky_run 0)) (demo_world half_cluster 0) demo_key"
  obtain p' where p': "mem_pipes (w_cluster (snd ?r)) demo_key = Some p'"
    by (rule mem_still_stored [of "demo_world half_cluster 0" demo_key half_way]) simp_all
  have "\<not> unreportable tbl half_way" for tbl
    using half_way_pending(2) by (simp add: unreportable_working [OF half_way_working])
  then show ?thesis
    using stored_statuses_stay_valid [OF mem_cluster prod.collapse [symmetric] _ _ _ _ p', of half_way] p' by auto
qed

text \<open>
  C22. A stage that has used up its retries with an error so long that the failure message does not
  fit into a condition: every pass returns an error, the stored pipelines stay as they are, no
  event is recorded and no agent invoked, however often the pipeline is reconciled. It is never marked
  Failed.
\<close>

theorem unreportable_failure_is_never_stored:
  assumes "k8s_strict R stored stored_cm up limit" and "up (w_cluster w)" and "stored (w_cluster w) k = Some p"
    and "alive p" and "unreportable (print_table R) p"
  shows "stored (w_cluster (passes R w (replicate n k))) = stored (w_cluster w) \<and>
    w_calls (passes R w (replicate n k)) = w_calls w \<and> w_events (passes R w (replicate n k)) = w_events w \<and>
    (\<exists>e. fst (Reconcile R (passes R w (replicate n k)) k) = Ret no_requeue (Some e))"
proof -
  note r = k8s_strict.passes_refused [OF assms(1,4,5,2,3), of n]
  then have "stored (w_cluster (passes R w (replicate n k))) k = Some p" using assms(3) by simp
  with r show ?thesis using k8s_strict.Reconcile_refused [OF assms(1) prod.collapse [symmetric] _ _ assms(4,5)] by blast
qed

definition long_error :: StageStatus where
  "long_error = broken_stage\<lparr>st_RetryCount := 1, st_Error := replicate 32768 (CHR ''x'')\<rparr>"

lemma long_error_working: "working_on (second_is long_error) fix_stage 1"
  by (simp add: working_on_def FindCurrentStage_def AreDependenciesMet_def variants_view half_way_view done_stage_def
      demo_stage_def zero_StageStatus_def broken_stage_def long_error_def)

lemma long_error_unreportable: "unreportable tbl (second_is long_error)"
proof -
  have "cur_status (second_is long_error) 1 = long_error" by (simp add: variants_view)
  moreover have "\<not> retries_left (second_is long_error) fix_stage 1"
    by (simp add: retries_left_def GetEffectiveRetryPolicy_def variants_view long_error_def
        demo_stage_def half_way_def two_stages_def demo_pipeline_def)
  moreover have "rune_count (failure_text tbl fix_stage long_error) = length (failure_text tbl fix_stage long_error)"
    by (rule rune_count_ascii)
      (simp add: failure_text_def demo_stage_def quote_label long_error_def show_int_def show_pos.simps digit_char_def list_all_iff)
  then have "\<not> message_fits (failure_text tbl fix_stage long_error)"
    by (simp add: message_fits_def maxMessage_def failure_text_def long_error_def)
  moreover have "st_Phase long_error = StageFailed" by (simp add: long_error_def broken_phase)
  ultimately show ?thesis by (simp add: unreportable_working [OF long_error_working])
qed

theorem unreportable_failure_is_never_stored_witness:
  "\<forall>n. w_events (passes (mem_env 100 (flaky_run 0)) (demo_world (demo_cluster (second_is long_error)) 0) (replicate n demo_key)) = []"
proof
  fix n
  show "w_events (passes (mem_env 100 (flaky_run 0)) (demo_world (demo_cluster (second_is long_error)) 0) (replicate n demo_key)) = []"
    using unreportable_failure_is_never_stored [OF mem_strict.k8s_strict_axioms _ _ _ long_error_unreportable,
        of "demo_world (demo_cluster (second_is long_error)) 0" demo_key 100 "flaky_run 0" n] broken_phase
    by (simp add: long_error_def) (simp add: demo_world_def)
qed

text \<open>
  C33. The ConfigMap for the output of a stage has a valid name exactly if the names of the pipeline
  and the stage have at most 246 bytes together, and valid labels exactly if each has at most 63;
  the schema and Kubernetes admit names of up to 253 bytes for pipelines and set no limit for stages.
\<close>

theorem output_ConfigMap_valid_iff:
  assumes "dns_subdomain (p_name p)" and "valid_StageSpec stage"
  shows "(dns_subdomain (outputConfigMapName (p_name p) (sp_Name stage)) \<longleftrightarrow> length (p_name p) + length (sp_Name stage) \<le> 246) \<and>
    (valid_meta (output_config_map p (sp_Name stage) out) \<longleftrightarrow> length (p_name p) \<le> 63 \<and> length (sp_Name stage) \<le> 63)"
proof -
  have "dns_label (sp_Name stage)" using assms(2) by (simp add: valid_StageSpec_def)
  then show ?thesis
    using output_valid_iff [OF assms(1)] subdomain_append [OF assms(1)] by (simp add: outputConfigMapName_def)
qed

abbreviation long_stage :: StageSpec where
  "long_stage \<equiv> demo_stage (replicate 64 (CHR ''a'')) [] ''''"

lemma long_stage_valid: "dns_label (sp_Name long_stage)" "valid_StageSpec long_stage"
proof -
  show d: "dns_label (sp_Name long_stage)"
    by (simp add: demo_stage_def dns_label_def list_all_iff lower_alnum_def byte_in_def)
  have "rune_count (sp_Name long_stage) = 64" "rune_count (ref_Name (sp_AgentRef long_stage)) = 70"
    by (subst rune_count_ascii; simp add: demo_stage_def list_all_iff)+
  then show "valid_StageSpec long_stage"
    using d by (simp add: valid_StageSpec_def valid_AgentReference_def) (simp add: demo_stage_def)
qed

theorem output_ConfigMap_valid_iff_witness:
  "dns_subdomain (outputConfigMapName ''p'' (sp_Name long_stage)) \<and> \<not> valid_meta (output_config_map half_way (sp_Name long_stage) ''x'')"
proof -
  have "dns_subdomain (p_name half_way)" using demo_valid(6) by (simp add: names_fit_def)
  from output_ConfigMap_valid_iff [OF this long_stage_valid(2), of "''x''"] show ?thesis
    by (simp add: half_way_pending) (simp add: demo_stage_def)
qed

text \<open>
  C21. A pending stage with a name, or of a pipeline with a name, that is admitted but longer than 63
  bytes, and an agent that completes: the output cannot be stored because the labels are invalid, so
  every pass runs the agent again; the pipeline never changes and no retry is counted.
\<close>

theorem long_names_rerun_agent:
  assumes "k8s_strict R stored stored_cm up limit" and "up (w_cluster w)" and "stored (w_cluster w) k = Some p" and "alive p"
    and "working_on p stage i" and "st_Phase (cur_status p i) = StagePending" and "distinct (map sp_Name (p_stages p))"
    and "stored_cm (w_cluster w) (output_key p stage) = None"
    and "outputs_kept (output_at stored_cm (w_cluster w) (p_ns p)) p"
    and "RenderPrompt R stage (stage_context (output_at stored_cm (w_cluster w) (p_ns p)) p i) = Inr prompt"
    and "dns_subdomain (p_name p)" and "valid_StageSpec stage" and "63 < length (p_name p) \<or> 63 < length (sp_Name stage)"
    and "answers_completed R (run_request p stage prompt)"
  shows "stored (w_cluster (passes R w (replicate n k))) = stored (w_cluster w) \<and>
    w_calls (passes R w (replicate n k)) = w_calls w @ replicate n (run_request p stage prompt)"
proof -
  have "dns_label (sp_Name stage)" using assms(12) by (simp add: valid_StageSpec_def)
  then have "\<not> valid_meta (output_config_map p (sp_Name stage) out)" for out
    using output_valid_iff [OF assms(11)] assms(13) by auto
  then have "unstorable R limit p stage (run_request p stage prompt)"
    using assms(14) by (auto simp: unstorable_def answers_completed_def)
  from k8s_strict.passes_unstorable [OF assms(1,4-7) this assms(2,3,8-10)] show ?thesis .
qed

definition long_named :: AgentPipeline where
  "long_named = half_way\<lparr>ap_Spec := (ap_Spec half_way)\<lparr>spec_Stages := [long_stage]\<rparr>,
     ap_Status := (ap_Status half_way)\<lparr>sts_Stages := [zero_StageStatus\<lparr>st_Name := sp_Name long_stage, st_Phase := StagePending\<rparr>]\<rparr>\<rparr>"

lemma long_named_view:
  "ap_Meta long_named = ap_Meta half_way" "p_stages long_named = [long_stage]" "p_phase long_named = PhaseRunning"
  "p_statuses long_named = [zero_StageStatus\<lparr>st_Name := sp_Name long_stage, st_Phase := StagePending\<rparr>]"
  "p_key long_named = demo_key" "valid_AgentPipelineStatus (ap_Status long_named)"
  using p_key_demo(2) demo_valid(7)
  by (simp_all add: long_named_def p_key_def half_way_view valid_AgentPipelineStatus_def valid_StageStatus_def)

lemma long_named_working: "working_on long_named long_stage 0"
  by (simp add: working_on_def FindCurrentStage_def AreDependenciesMet_def long_named_view demo_stage_def)

theorem long_names_rerun_agent_witness:
  "\<forall>n. length (w_calls (passes (mem_env 100 (flaky_run 0)) (demo_world (demo_cluster long_named) 0) (replicate n demo_key))) = n"
proof
  fix n
  let ?R = "mem_env 100 (flaky_run 0)" and ?w = "demo_world (demo_cluster long_named) (0::nat)"
  let ?pr = "''Execute agent '' @ ref_Name (sp_AgentRef long_stage)"
  have prompt: "RenderPrompt ?R long_stage (stage_context (output_at mem_cms (w_cluster ?w) (p_ns long_named)) long_named 0) = Inr ?pr"
    by (simp add: RenderPrompt_def stage_context_def long_named_view visible_def demo_stage_def)
  have ans: "answers_completed ?R (run_request long_named long_stage ?pr)"
    by (simp add: answers_completed_def mem_env_def flaky_run_def)
  have kept: "outputs_kept (output_at mem_cms (w_cluster ?w) (p_ns long_named)) long_named"
    by (simp add: outputs_kept_def long_named_view visible_def)
  have sub: "dns_subdomain (p_name long_named)" using demo_valid(6) by (simp add: names_fit_def long_named_view)
  have "mem_cms (w_cluster ?w) (output_key long_named long_stage) = None" "63 < length (sp_Name long_stage)"
    by (simp add: demo_cluster_def, simp add: demo_stage_def)
  then show "length (w_calls (passes ?R ?w (replicate n demo_key))) = n"
    using long_names_rerun_agent [OF mem_strict.k8s_strict_axioms _ _ _ long_named_working _ _ _ kept prompt sub long_stage_valid(2) _ ans,
        of demo_key n] half_way_facts(1)
    by (simp add: long_named_view) (simp add: demo_world_def)
qed

text \<open>
  C34. The defaults of the schema are those the operator assumes: over a running pipeline, the
  reconciler does and returns the same whether the API server filled in the omitted fields
  (timeout, backoff, trigger) or not.
\<close>

theorem defaults_are_the_operators:
  assumes "status_subresource R"
  shows "handleRunning R w (with_defaults p) = handleRunning R w p"
  using status_subresource.handleRunning_defaults [OF assms] .

theorem defaults_are_the_operators_witness:
  "handleRunning (mem_env 100 (flaky_run 0)) (demo_world half_cluster 0) (with_defaults half_way)
     = handleRunning (mem_env 100 (flaky_run 0)) (demo_world half_cluster 0) half_way \<and> with_defaults half_way \<noteq> half_way"
proof
  show "handleRunning (mem_env 100 (flaky_run 0)) (demo_world half_cluster 0) (with_defaults half_way)
     = handleRunning (mem_env 100 (flaky_run 0)) (demo_world half_cluster 0) half_way"
    by (rule defaults_are_the_operators [OF mem_status.status_subresource_axioms])
  have "p_stages (with_defaults half_way) \<noteq> p_stages half_way"
    by (simp add: half_way_view) (simp add: default_StageSpec_def demo_stage_def)
  then show "with_defaults half_way \<noteq> half_way" by metis
qed

end
