(* ===== verification/Work_Queue.thy ===== *)
theory Work_Queue
  imports Pass_Outcomes
begin

text \<open>
  The operator driven by its own answers. controller-runtime repeats a pass when its result asks
  for it (\<open>Requeue\<close>, or a positive \<open>RequeueAfter\<close>) or when it returned
  an error, and forgets the key otherwise. The locale \<open>work_queue\<close> states this
  contract; \<open>drive\<close> runs passes over one key for as long as the queue has it. Watch
  events, which can only add passes, are left out: the operator does not need them to bring a
  pipeline to its end, except after a retry without backoff.
\<close>

section \<open>The queue\<close>

locale work_queue =
  fixes again :: "outcome \<Rightarrow> bool"
  assumes again_error: "again (Ret r (Some e))"
    and again_requeue: "ctl_Requeue r \<Longrightarrow> again (Ret r None)"
    and again_after: "0 < ctl_RequeueAfter r \<Longrightarrow> again (Ret r None)"
    and again_not: "\<not> ctl_Requeue r \<Longrightarrow> ctl_RequeueAfter r \<le> 0 \<Longrightarrow> \<not> again (Ret r None)"

fun requeues :: "outcome \<Rightarrow> bool" where
  "requeues (Ret r e) = (e \<noteq> None \<or> 0 < ctl_RequeueAfter r \<or> ctl_Requeue r)"
| "requeues (Panic m) = True"

interpretation rq: work_queue requeues
  by unfold_locales simp_all

text \<open>Passes over \<open>k\<close> until the key leaves the queue, at most \<open>n\<close> of them.\<close>

fun drive :: "(outcome \<Rightarrow> bool) \<Rightarrow> ('c,'r) recon \<Rightarrow> nat \<Rightarrow> ('c,'r) world \<Rightarrow> NamespacedName \<Rightarrow> ('c,'r) world option" where
  "drive again R 0 w k = None"
| "drive again R (Suc n) w k =
     (case Reconcile R w k of (x, w') \<Rightarrow> if again x then drive again R n w' k else Some w')"

section \<open>No pipeline is forgotten\<close>

definition positive_backoffs :: "AgentPipeline \<Rightarrow> bool" where
  "positive_backoffs p \<longleftrightarrow> list_all (\<lambda>st. 0 < retry_delay p st) (p_stages p)"

lemma positive_backoffs_cong: "ap_Spec p' = ap_Spec p \<Longrightarrow> positive_backoffs p' = positive_backoffs p"
  by (simp add: positive_backoffs_def retry_delay_def GetEffectiveRetryPolicy_def cong: option.case_cong)

locale driven_operator = k8s_reliable R stored stored_cm up limit + work_queue again
  for R :: "('c, 'r) AgentPipelineReconciler"
    and stored :: "'c \<Rightarrow> NamespacedName \<Rightarrow> AgentPipeline option"
    and stored_cm :: "'c \<Rightarrow> NamespacedName \<Rightarrow> ConfigMap option"
    and up :: "'c \<Rightarrow> bool" and limit :: nat and again :: "outcome \<Rightarrow> bool"
begin

lemma asked_again: "asked p p' x \<Longrightarrow> positive_backoffs p \<Longrightarrow> \<not> terminal p' \<Longrightarrow> again x"
  using again_requeue [of requeue_now] again_after by (auto simp: asked_def positive_backoffs_def list_all_iff)

lemma asked_no_more: "asked p p' x \<Longrightarrow> positive_backoffs p \<Longrightarrow> \<not> again x \<Longrightarrow> terminal p'"
  using asked_again by blast

lemma drive_ends:
  assumes fit: "outputs_fit R limit"
  shows "up (w_cluster w) \<Longrightarrow> stored (w_cluster w) k = Some p \<Longrightarrow> p_key p = k \<Longrightarrow> alive p \<Longrightarrow> wf_pipeline p \<Longrightarrow>
   deps_earlier p \<Longrightarrow> valid_AgentPipelineSpec (ap_Spec p) \<Longrightarrow> names_fit p \<Longrightarrow> positive_backoffs p \<Longrightarrow> passes_left p < n \<Longrightarrow>
   (\<exists>w' p'. drive again R n w k = Some w' \<and> stored (w_cluster w') k = Some p' \<and> terminal p') \<or>
   (\<exists>m<n. \<exists>p'. stored (w_cluster (passes R w (replicate m k))) k = Some p' \<and> unreportable (print_table R) p')"
proof (induction n arbitrary: w p)
  case (Suc n)
  obtain x v where v: "Reconcile R w k = (x, v)" by fastforce
  consider (over) "terminal p" | (stuck) "unreportable (print_table R) p" | (work) "\<not> terminal p" "\<not> unreportable (print_table R) p"
    by blast
  then show ?case
  proof cases
    case over
    from Reconcile_terminal [OF v Suc.prems(1,2,4) over] have "drive again R (Suc n) w k = Some v" "stored (w_cluster v) k = Some p"
      using v again_not Suc.prems(2) by simp_all
    then show ?thesis using over by blast
  next
    case stuck
    then show ?thesis using Suc.prems(2) by (intro disjI2 exI [of _ 0]) simp
  next
    case work
    obtain p' where p': "stored (w_cluster v) k = Some p'" "p_key p' = k" "alive p'" "wf_pipeline p'" "deps_earlier p'"
      "passes_left p' < passes_left p" "ap_Spec p' = ap_Spec p" "asked p p' x" and upv: "up (w_cluster v)"
      using Reconcile_up [OF v Suc.prems(1,2,4-6) fit Suc.prems(3) work(1) Suc.prems(7,8) work(2)] by auto
    show ?thesis
    proof (cases "again x")
      case False
      then have "terminal p'" using asked_no_more [OF p'(8) Suc.prems(9)] by blast
      then show ?thesis using v False p'(1) by auto
    next
      case True
      have "p_name p' = p_name p" using p'(2) Suc.prems(3) by (auto simp: p_key_def)
      then have "valid_AgentPipelineSpec (ap_Spec p')" "names_fit p'" "positive_backoffs p'"
        using Suc.prems(7-9) p'(7) positive_backoffs_cong [OF p'(7)] by (simp_all add: names_fit_def)
      moreover have "passes_left p' < n" using p'(6) Suc.prems(10) by simp
      ultimately have "(\<exists>w' p'. drive again R n v k = Some w' \<and> stored (w_cluster w') k = Some p' \<and> terminal p') \<or>
        (\<exists>m<n. \<exists>p'. stored (w_cluster (passes R v (replicate m k))) k = Some p' \<and> unreportable (print_table R) p')"
        by (rule Suc.IH [OF upv p'(1-5)])
      then show ?thesis
      proof (elim disjE exE conjE)
        fix m p'' assume "m < n" "stored (w_cluster (passes R v (replicate m k))) k = Some p''" "unreportable (print_table R) p''"
        then show ?thesis using v by (intro disjI2 exI [of _ "Suc m"]) simp
      qed (use v True in auto)
    qed
  qed
qed simp

end

interpretation mem_driven: driven_operator "mem_env limit run" mem_pipes mem_cms mem_up limit requeues
  for limit and run :: "'r \<Rightarrow> RunRequest \<Rightarrow> (goerror + RunResult) \<times> 'r"
  by unfold_locales

section \<open>Properties\<close>



text \<open>
  C14. The backoff has to be positive: the retry of a stage with a backoff of zero or less, which
  the schema admits, is stored, with the stage Pending in a running pipeline, but the pass asks
  for no other, so that the results alone leave the pipeline there.
\<close>

theorem retry_without_backoff_leaves_queue:
  assumes "driven_operator R stored stored_cm up limit again"
    and "up (w_cluster w)" and "stored (w_cluster w) k = Some p" and "p_key p = k" and "alive p"
    and "working_on p stage i" and "st_Phase (cur_status p i) = StageFailed" and "retries_left p stage i"
    and "retry_delay p stage \<le> 0"
  shows "\<exists>w' p'. drive again R (Suc n) w k = Some w' \<and> w_calls w' = w_calls w \<and> stored (w_cluster w') k = Some p' \<and>
    p_phase p' = PhaseRunning \<and> st_Phase (cur_status p' i) = StagePending"
proof -
  obtain x v where v: "Reconcile R w k = (x, v)" by fastforce
  have rel: "k8s_reliable R stored stored_cm up limit" and q: "work_queue again"
    using assms(1) by (simp_all add: driven_operator_def)
  have "\<not> unreportable (print_table R) p" using assms(8) by (simp add: unreportable_working [OF assms(6)])
  then obtain p' where p': "w_calls v = w_calls w" "stored (w_cluster v) k = Some p'" "p_phase p' = PhaseRunning"
      "p_statuses p' = (p_statuses p)[i := (cur_status p i)\<lparr>
         st_RetryCount := st_RetryCount (cur_status p i) + 1, st_Phase := StagePending, st_Error := '''', st_CompletedAt := None\<rparr>]"
      and x: "x = Ret (requeue_after (retry_delay p stage)) None"
    using k8s_reliable.Reconcile_failed_stage [OF rel assms(2-7) v] assms(8) by (auto simp: quiet_def retry_delay_def)
  have "i < length (p_statuses p)"
    using assms(6) by (auto simp: working_on_def intro: FindCurrentStage_SomeD(1))
  then have "st_Phase (cur_status p' i) = StagePending" using p'(4) by simp
  moreover have "\<not> again x" using work_queue.again_not [OF q] assms(9) x by simp
  ultimately show ?thesis using v p'(1-3) by simp
qed

definition eager_retry :: AgentPipeline where
  "eager_retry = (second_is broken_stage)\<lparr>ap_Spec := (ap_Spec (second_is broken_stage))\<lparr>
     spec_RetryPolicy := Some \<lparr>rp_MaxRetries = 1, rp_Backoff = Some 0\<rparr>\<rparr>\<rparr>"

lemma eager_retry_view:
  "ap_Meta eager_retry = ap_Meta (second_is broken_stage)" "ap_Status eager_retry = ap_Status (second_is broken_stage)"
  "p_stages eager_retry = p_stages (second_is broken_stage)" "p_key eager_retry = demo_key"
  "GetEffectiveRetryPolicy eager_retry fix_stage = \<lparr>rp_MaxRetries = 1, rp_Backoff = Some 0\<rparr>"
  using variants_key(1) [of broken_stage]
  by (simp_all add: eager_retry_def p_key_def GetEffectiveRetryPolicy_def) (simp add: demo_stage_def)

lemma eager_retry_working: "working_on eager_retry fix_stage 1"
  using broken_working by (simp add: working_on_def FindCurrentStage_def AreDependenciesMet_def eager_retry_view)

theorem retry_without_backoff_leaves_queue_witness:
  "\<exists>w' p'. drive requeues (mem_env 100 (flaky_run 0)) 5 (demo_world (demo_cluster eager_retry) 0) demo_key = Some w' \<and>
     mem_pipes (w_cluster w') demo_key = Some p' \<and> p_phase p' = PhaseRunning \<and> st_Phase (cur_status p' 1) = StagePending"
proof -
  have "retries_left eager_retry fix_stage 1" "retry_delay eager_retry fix_stage \<le> 0"
    by (simp_all add: retries_left_def retry_delay_def eager_retry_view variants_view broken_stage_def zero_StageStatus_def)
  then show ?thesis
    using retry_without_backoff_leaves_queue [OF mem_driven.driven_operator_axioms [of 100 "flaky_run 0"] _ _ _ _ eager_retry_working,
        where w = "demo_world (demo_cluster eager_retry) 0" and k = demo_key and n = 4] broken_phase variants_alive(1) [of broken_stage]
    by (auto simp: eager_retry_view variants_view)
qed

end
