(* ===== verification/Spec2Isabelle.thy ===== *)
theory Spec2Isabelle
  imports Operator_A2A Operator_Main Deep_Copy Run_Log Schema_Limits Work_Queue
begin

text \<open>
  Verification of the AgentPipeline operator (\<open>src/agentpipeline-operator\<close>), a Kubernetes
  controller in Go that runs the stages of a pipeline one after the other, each by invoking an
  AI agent over HTTP, and passes the output of a stage on to the next.

  \<^bold>\<open>Parts of the program and the theories that model them.\<close>

  \<^item> API types (\<open>api/v1alpha1/agentpipeline_types.go\<close>): \<open>Api_Types\<close>. Structs are records with the
    Go field names behind a prefix (\<open>ap_\<close>, \<open>sts_\<close>, \<open>st_\<close>, \<open>sp_\<close>, \<open>rp_\<close>); phases are strings as in the
    code; \<open>int32\<close> is \<open>32 word\<close>; optional pointers are options; durations are integers in
    nanoseconds, times integers of the unit the clock has (a stored time keeps whole seconds, and no
    code reads one). \<open>Api_Schema\<close> has the validation and the defaults of the \<open>+kubebuilder\<close>
    markers, and Kubernetes' rules for names and labels.
  \<^item> Reconciler (\<open>internal/controller/agentpipeline_controller.go\<close>): \<open>Reconciler\<close>, one definition
    per method (\<open>Reconcile\<close>, \<open>handlePending\<close>, \<open>handleRunning\<close>, \<open>startStage\<close>, \<open>completeStage\<close>,
    \<open>completeStageFromOutput\<close>, \<open>failStage\<close>, \<open>retryStage\<close>, \<open>completePipeline\<close>, \<open>failPipeline\<close>,
    \<open>handleDeletion\<close>). Each takes the reconciler, the world and the pipeline in memory and returns
    an outcome (a result with an optional error, or a run-time panic) and the world after it.
  \<^item> Stage handler (\<open>internal/controller/stage_handler.go\<close>): \<open>Stage_Handler\<close> and, for prompt
    contexts and templates, \<open>Prompt_Template\<close>. The struct only holds the client, which is the
    reconciler's, so its methods take the reconciler.
  \<^item> Runner interface and mock (\<open>internal/runner/interface.go\<close>, \<open>types.go\<close>, \<open>mock_runner.go\<close>):
    \<open>Agent_Runner\<close>; the Go interface is the record \<open>AgentRunner\<close>, and its contract the locale
    \<open>agent_runner\<close>, interpreted by the mock and by the A2A runner.
  \<^item> A2A runner (\<open>internal/runner/a2a_runner.go\<close>): \<open>A2A_Runner\<close>, on \<open>Json\<close> (what \<open>encoding/json\<close>
    does for the types used) and \<open>Go_Std\<close> (strings, quoting, durations, \<open>bufio.Scanner\<close>).
  \<^item> Entry point (\<open>cmd/main.go\<close>, with the initializers of \<open>groupversion_info.go\<close> and
    \<open>agentpipeline_types.go\<close>): \<open>Operator_Main\<close>.
  \<^item> Generated deep copies (\<open>api/v1alpha1/zz_generated.deepcopy.go\<close>): \<open>Deep_Copy\<close>, one definition per
    method. Here the structs have addresses for pointers, slices and maps, in a heap that the
    methods read and extend; allocation fills a cell when its contents are known.
  \<^item> \<open>Operator_Prelude\<close> holds the shared collections and lemmas.

  \<^bold>\<open>What the operator is built on\<close> is the record \<open>AgentPipelineReconciler\<close> of \<open>Operator_Env\<close>: the client
  of the API server, the helpers of \<open>controllerutil\<close> and \<open>meta\<close>, the template engine, the runner
  and the clock are its fields. What is relied on is stated in locales: \<open>k8s_cluster\<close> (what reads
  and writes mean, with reads of pipelines from a cache that may be out of date, nothing assumed of
  reads of ConfigMaps, and any call failing), \<open>k8s_reliable\<close> (an API server in good order answers from
  what it stores and accepts what is valid: statuses by the schema, ConfigMaps by their names, labels and
  size), \<open>k8s_strict\<close> (what is not valid is refused), \<open>status_subresource\<close>, \<open>output_store\<close>,
  \<open>work_queue\<close> and \<open>template_engine\<close>. An executable API server in memory interprets all of them, and the witnesses
  run on it.

  \<^bold>\<open>What is shown.\<close>

  \<^item> \<open>Pipeline_Steps\<close> reduces a pass to at most one status step, from a relation with one rule per
    status write of the code. \<open>Pipeline_Machine\<close> is the contract of a pipeline as an abstract
    machine, with the invariant \<open>wf_pipeline\<close>; every status step is a step of the machine.
    \<open>Status_Invariant\<close> is the part of the invariant that no edit of a spec can break.
  \<^item> \<open>Status_Schema\<close>: a status step keeps the status valid for the schema, except one that reports a
    failure in more than 32768 characters (\<open>unreportable\<close>). \<open>Schema_Limits\<close>: what happens then, what
    happens with names too long for labels, and that the schema's defaults are the operator's own.
  \<^item> \<open>Pipeline_Progress\<close> and \<open>Operator_Runs\<close>: the passes that an API server in good order lets
    through, sequences of passes, and the whole system with users, restarts and failures. Here
    are the refinement, the invariant over all reachable states and termination. \<open>Work_Queue\<close>: the
    results of the passes alone keep a pipeline in the queue until it has ended, unless a
    retry has no backoff.
  \<^item> \<open>Stage_Context\<close>: which outputs a prompt sees and which agent call a pass makes.
  \<^item> \<open>Pass_Outcomes\<close>: what a pass does in each situation, panics included.
  \<^item> \<open>Agent_Calls\<close>: the number of agent invocations is bounded by the retry policy.
  \<^item> \<open>Output_Integrity\<close>: what a pass writes; outputs are written once and kept as long as the reads
    of outputs are true; what happens to outputs that do not fit.
  \<^item> \<open>A2A_Runner\<close>: the stream parser meets its specification, requests survive JSON encoding,
    expired contexts are reported; \<open>Operator_A2A\<close> puts reconciler and runner together.
  \<^item> \<open>Operator_Main\<close>: options, exit codes and the order of the start.
  \<^item> \<open>Run_Log\<close>: the events of a pass are true of what is stored after it, to the letter of the message; a
    runner is called with the logged requests and touched by nothing else, so the mock sees all of
    them. The latter rests on \<open>Pass_Relation\<close>, a proof rule for what every call of a pass respects.
  \<^item> \<open>Deep_Copy\<close>: every copy has the deep value of its original and shares no cell with it. The
    locale \<open>copyable\<close> is this contract; it is closed under pointers, slices and structs, and the
    types of the API interpret it. Copies stand for the same \<open>Api_Types\<close> object, which is why the
    other theories can treat objects as values.
  \<^item> \<open>Operator_Examples\<close> and the ends of the theories have the concrete pipelines, clusters, streams
    and command lines of the witnesses.

  \<^bold>\<open>Bounds and fuel.\<close> \<open>fuel_left\<close> bounds the steps of the machine by twice the retry budget of every
  stage and is shown to decrease at each step; \<open>passes_left\<close> adds the pass that stores the
  finalizer; \<open>calls_left\<close> bounds the agent invocations. The JSON parser takes fuel, and the length
  of the input is shown to be enough. All loops of the program are structural recursion or come
  with a termination proof. \<open>drive\<close> takes the number of passes as fuel; one more than \<open>passes_left\<close>
  is shown to be enough.

  \<^bold>\<open>What is not modelled.\<close> Log lines; the network, the API server and the template engine beyond
  their contracts; the HTTP transport, which \<open>http_env\<close> answers for; two passes over one key running
  at the same time, which controller-runtime excludes (interference by other clients shows as a
  rejected write); watch events, which can only add passes; the scheme, of which the calls that
  register types are recorded; the copies of metadata, times and conditions, which apimachinery has
  (\<open>apimachinery_copies\<close> states their contract); the replacement of bytes that are not UTF-8 in a
  status, which \<open>truncateOutput\<close> can produce; manifests, Terraform, Ansible and tests.
\<close>

section \<open>The operator as a whole\<close>

text \<open>
  C1. A pass of the reconciler over key \<open>k\<close>, whatever the API server and the agent
  answer and however old the object it read is, changes the status of no pipeline but the live one
  stored under \<open>k\<close>, never changes a spec, keeps the invariant, and a status it stores
  is one step of the pipeline machine.
\<close>

theorem Reconcile_refines_machine:
  assumes "k8s_cluster R stored stored_cm" and "Reconcile R w k = (x, w')"
    and "stored (w_cluster w) j = Some p" and "wf_pipeline p" and "stored (w_cluster w') j = Some p'"
  shows "wf_pipeline p' \<and> ap_Spec p' = ap_Spec p \<and>
    (ap_Status p' = ap_Status p \<or> j = k \<and> alive p \<and> astep (budgets p) (abs_pipeline p) (abs_pipeline p'))"
  using k8s_cluster.Reconcile_pointwise [OF assms] by blast

theorem Reconcile_refines_machine_witness:
  "\<exists>p'. mem_pipes (w_cluster (snd (Reconcile (mem_env 100 (flaky_run 0)) (demo_world half_cluster 0) demo_key))) demo_key = Some p'
     \<and> wf_pipeline p' \<and> ap_Spec p' = ap_Spec half_way \<and>
     (ap_Status p' = ap_Status half_way \<or> astep (budgets half_way) (abs_pipeline half_way) (abs_pipeline p'))"
proof -
  let ?r = "Reconcile (mem_env 100 (flaky_run 0)) (demo_world half_cluster 0) demo_key"
  obtain p' where p': "mem_pipes (w_cluster (snd ?r)) demo_key = Some p'"
    by (rule mem_still_stored [of "demo_world half_cluster 0" demo_key half_way]) simp_all
  from Reconcile_refines_machine [OF mem_cluster prod.collapse [symmetric] _ _ p', of half_way] show ?thesis
    using p' by auto
qed

text \<open>
  C2. In every state the system can reach, by passes of any reconcilers in any order with any
  failures and stale reads, and by users who create, delete and edit pipelines but do not write
  statuses, the status of every stored pipeline is sound; and it fits the spec, with the full
  invariant, unless a user edited the spec after the pipeline had started.
\<close>

theorem reachable_pipelines_wf:
  assumes "reachable stored stored_cm (w, ed)" and "stored (w_cluster w) k = Some p"
  shows "sound_pipeline p \<and> (k \<notin> ed \<longrightarrow> wf_pipeline p)"
  using sys_invD [OF reachable_inv [OF assms(1)] assms(2)] .

theorem reachable_pipelines_wf_witness:
  "\<exists>p p'. mem_pipes (w_cluster (passes (mem_env 100 (flaky_run 0)) (demo_world (demo_cluster two_stages) 0) [demo_key, demo_key])) demo_key
       = Some p \<and> p_phase p = PhaseRunning \<and> wf_pipeline p \<and>
     p' = p\<lparr>ap_Spec := (ap_Spec p)\<lparr>spec_Stages := []\<rparr>\<rparr> \<and> sound_pipeline p'"
proof -
  let ?R = "mem_env 100 (flaky_run 0)" and ?w = "demo_world (demo_cluster two_stages) (0::nat)"
  let ?v = "snd (Reconcile ?R ?w demo_key)"
  let ?u = "snd (Reconcile ?R ?v demo_key)"
  have "map_option p_phase (mem_pipes (w_cluster ?u) demo_key) = Some PhaseRunning" by code_simp
  then obtain p where p: "mem_pipes (w_cluster ?u) demo_key = Some p" "p_phase p = PhaseRunning" by auto
  have pass: "reachable mem_pipes mem_cms (w, ed) \<Longrightarrow> reachable mem_pipes mem_cms (snd (Reconcile ?R w demo_key), ed)" for w ed
    by (erule reach_step) (rule op_pass [OF mem_cluster prod.collapse [symmetric]])
  have "reachable mem_pipes mem_cms (?w, {})"
    by (rule reach_init) (auto simp: demo_cluster_def demo_world_def split: if_splits)
  then have r: "reachable mem_pipes mem_cms (?u, {})" by (intro pass)
  define p' where "p' = p\<lparr>ap_Spec := (ap_Spec p)\<lparr>spec_Stages := []\<rparr>\<rparr>"
  let ?c = "(w_cluster ?u)\<lparr>mem_pipes := (mem_pipes (w_cluster ?u))(demo_key \<mapsto> p')\<rparr>"
  have "reachable mem_pipes mem_cms (?u\<lparr>w_cluster := ?c\<rparr>,
      edited_after {} demo_key (mem_pipes (w_cluster ?u) demo_key) (Some p'))"
    by (rule reach_step [OF r op_user]) (simp_all add: p user_may_def p'_def)
  from reachable_pipelines_wf [OF this, of demo_key p'] have "sound_pipeline p'" by simp
  then show ?thesis using p reachable_pipelines_wf [OF r p(1)] by (auto simp: p'_def)
qed

text \<open>
  C15. Over any sequence of passes over any keys, whatever fails, the passes that change the status of
  a stored pipeline in any field are the steps of a run of the machine. So there are at most
  as many as the machine has fuel where the pipeline stands: for a new one, two for each
  attempt its stages are allowed, and two. Retries included, a pipeline cannot change forever.
\<close>

theorem status_changes_bounded:
  assumes "k8s_cluster R stored stored_cm" and "stored (w_cluster w) j = Some p" and "wf_pipeline p"
    and "stored (w_cluster (passes R w ks)) j = Some p'"
  shows "asteps (budgets p) (status_changes R stored w ks j) (abs_pipeline p) (abs_pipeline p') \<and>
    status_changes R stored w ks j \<le> fuel_left (budgets p) (abs_pipeline p) \<and>
    fuel_left (budgets p) Fresh = (\<Sum>stage\<leftarrow>p_stages p. 2 * Suc (max_retries p stage)) + 2"
proof -
  note run = k8s_cluster.passes_counted [OF assms]
  then have "status_changes R stored w ks j \<le> fuel_left (budgets p) (abs_pipeline p)"
    using asteps_bounded [OF run wf_fits [OF assms(3)]] by simp
  then show ?thesis using run fuel_left_Fresh [of "budgets p"] by (simp add: budgets_def comp_def)
qed

theorem status_changes_bounded_witness:
  "let R = mem_env 100 (flaky_run 1); w = demo_world (demo_cluster two_stages) 0; ks = replicate 8 demo_key in
   status_changes R mem_pipes w ks demo_key = 6 \<and>
   (\<exists>p'. mem_pipes (w_cluster (passes R w ks)) demo_key = Some p' \<and> asteps [1, 1] 6 Fresh (abs_pipeline p'))"
proof -
  let ?R = "mem_env 100 (flaky_run 1)" and ?w = "demo_world (demo_cluster two_stages) (0::nat)" and ?ks = "replicate 8 demo_key"
  have n: "status_changes ?R mem_pipes ?w ?ks demo_key = 6" by code_simp
  have "mem_pipes (w_cluster (passes ?R ?w ?ks)) demo_key \<noteq> None" by code_simp
  then obtain p' where p': "mem_pipes (w_cluster (passes ?R ?w ?ks)) demo_key = Some p'" by blast
  have b: "budgets two_stages = [1, 1]" "abs_pipeline two_stages = Fresh" by code_simp+
  show ?thesis
    using status_changes_bounded [OF mem_cluster _ _ p', of two_stages] n p' unfolding b Let_def by simp
qed

text \<open>
  C3. With an API server in good order that can store every output the agents give, a live
  pipeline that satisfies the invariant, that the schema admits, whose names fit into labels and
  whose stages depend on earlier stages only ends Completed or Failed after at most
  \<open>passes_left\<close> passes, whether its agents complete, fail or time out, unless it
  comes to a failure whose message does not fit into a condition.
\<close>

theorem pipeline_terminates:
  assumes "k8s_reliable R stored stored_cm up limit" and "outputs_fit R limit"
    and "up (w_cluster w)" and "stored (w_cluster w) k = Some p" and "p_key p = k" and "alive p"
    and "wf_pipeline p" and "deps_earlier p" and "valid_AgentPipelineSpec (ap_Spec p)" and "names_fit p"
    and "passes_left p \<le> n"
  shows "\<exists>p'. stored (w_cluster (passes R w (replicate n k))) k = Some p' \<and>
    (terminal p' \<or> unreportable (print_table R) p')"
  using k8s_reliable.passes_end [OF assms(1-10) disjI1 [OF assms(11)]] .

theorem pipeline_terminates_witness:
  "\<exists>p'. mem_pipes (w_cluster (passes (mem_env 100 (flaky_run 1)) (demo_world (demo_cluster two_stages) 0)
       (replicate (passes_left two_stages) demo_key))) demo_key = Some p' \<and>
     (terminal p' \<or> unreportable (\<lambda>_. True) p')"
  using pipeline_terminates [OF mem_reliable flaky_fits [of 100 1], where p = two_stages and k = demo_key
      and w = "demo_world (demo_cluster two_stages) 0"] by (simp add: mem_env_def)

end
